(* ===== verification/Cand_Base.thy ===== *)
theory Cand_Base
  imports Main "HOL-Library.Word" "HOL-Library.Sublist"
begin

text \<open>
  Prelude of the development: the machine types of the daemon, the result type of a C call that
  may run into undefined behaviour, memory regions as lists, NUL terminated strings, the string
  functions of the C library that the sources use, and little endian encoding.
\<close>

section \<open>Machine types and outcomes\<close>

type_synonym byte = "8 word"
type_synonym u16 = "16 word"
type_synonym u32 = "32 word"
type_synonym u64 = "64 word"

named_theorems outcome_simps \<open>unfolding of outcomes and of memory accesses\<close>

text \<open>
  A C function either returns (\<open>Ret\<close>) or does something the C standard leaves undefined
  or that stops the thread (\<open>Fault\<close>): an access outside an object, a null pointer
  dereference, a signed overflow, a division by zero, a read of memory nobody wrote, locking a
  mutex that nobody will release, memory filled in one layout and read in another. A loop driven by a service
  with no bound of its own carries fuel, and running out of it is a fault too, so that "it returns" is
  always something to prove.
\<close>

datatype fault = Out_of_bounds | Null_pointer | Signed_overflow | Division_by_zero | Uninitialised | Deadlock | Out_of_fuel | Mixed_layout

datatype 'a outcome = Fault fault | Ret 'a

fun bind_outcome :: "'a outcome \<Rightarrow> ('a \<Rightarrow> 'b outcome) \<Rightarrow> 'b outcome" where
  "bind_outcome (Fault f) k = Fault f"
| "bind_outcome (Ret a) k = k a"

lemma bind_outcome_Ret_iff [outcome_simps]:
  "bind_outcome m k = Ret b \<longleftrightarrow> (\<exists>a. m = Ret a \<and> k a = Ret b)"
  by (cases m) auto

lemma bind_outcome_Fault_iff [outcome_simps]:
  "bind_outcome m k = Fault f \<longleftrightarrow> m = Fault f \<or> (\<exists>a. m = Ret a \<and> k a = Fault f)"
  by (cases m) auto

lemma bind_outcome_assoc: "bind_outcome (bind_outcome m f) g = bind_outcome m (\<lambda>x. bind_outcome (f x) g)"
  by (cases m) auto

text \<open>The exit codes of a program, and the conversion of a wider number to \<^verbatim>\<open>int\<close>.\<close>

definition EXIT_SUCCESS :: int where "EXIT_SUCCESS = 0"
definition EXIT_FAILURE :: int where "EXIT_FAILURE = 1"

lemma exit_codes [simp]: "EXIT_SUCCESS \<noteq> EXIT_FAILURE" "EXIT_FAILURE \<noteq> EXIT_SUCCESS"
  by (simp_all add: EXIT_SUCCESS_def EXIT_FAILURE_def)

definition to_int :: "int \<Rightarrow> int" where
  "to_int v = sint (of_int v :: u32)"

section \<open>Lists\<close>

lemma takeWhile_all [simp]: "\<forall>x \<in> set xs. P x \<Longrightarrow> takeWhile P xs = xs"
  by (simp add: takeWhile_eq_all_conv)

section \<open>Memory regions\<close>

text \<open>
  A memory region is the list of its cells. \<open>peek r off n\<close> reads \<open>n\<close> cells from
  offset \<open>off\<close>, \<open>poke r off xs\<close> writes the cells \<open>xs\<close> there; both fault
  when the access leaves the region.
\<close>

definition peek :: "'a list \<Rightarrow> nat \<Rightarrow> nat \<Rightarrow> 'a list outcome" where
  "peek r off n = (if off + n \<le> length r then Ret (take n (drop off r)) else Fault Out_of_bounds)"

definition poke :: "'a list \<Rightarrow> nat \<Rightarrow> 'a list \<Rightarrow> 'a list outcome" where
  "poke r off xs =
     (if off + length xs \<le> length r
      then Ret (take off r @ xs @ drop (off + length xs) r) else Fault Out_of_bounds)"

lemma peek_ok [simp]: "off + n \<le> length r \<Longrightarrow> peek r off n = Ret (take n (drop off r))"
  by (simp add: peek_def)

lemma peek_Ret_iff [outcome_simps]:
  "peek r off n = Ret xs \<longleftrightarrow> off + n \<le> length r \<and> xs = take n (drop off r)"
  by (auto simp: peek_def)

lemma poke_ok [simp]:
  "off + length xs \<le> length r \<Longrightarrow> poke r off xs = Ret (take off r @ xs @ drop (off + length xs) r)"
  by (simp add: poke_def)

lemma poke_Ret_iff [outcome_simps]:
  "poke r off xs = Ret r' \<longleftrightarrow>
     off + length xs \<le> length r \<and> r' = take off r @ xs @ drop (off + length xs) r"
  by (auto simp: poke_def)

lemma poke_oob [simp]: "length r < off + length xs \<Longrightarrow> poke r off xs = Fault Out_of_bounds"
  by (simp add: poke_def)

lemma peek_oob [simp]: "length r < off + n \<Longrightarrow> peek r off n = Fault Out_of_bounds"
  by (simp add: peek_def)

lemma peek_Fault_iff [outcome_simps]: "peek r off n = Fault f \<longleftrightarrow> f = Out_of_bounds \<and> length r < off + n"
  and poke_Fault_iff [outcome_simps]: "poke r off xs = Fault f \<longleftrightarrow> f = Out_of_bounds \<and> length r < off + length xs"
  by (auto simp: peek_def poke_def)

lemma length_poke: "poke r off xs = Ret r' \<Longrightarrow> length r' = length r"
  by (auto simp: poke_Ret_iff)

lemma poke_nth_other:
  assumes "poke r off xs = Ret r'" and "i < off \<or> off + length xs \<le> i" and "i < length r"
  shows "r' ! i = r ! i"
proof -
  have r': "r' = take off r @ xs @ drop (off + length xs) r" and le: "off + length xs \<le> length r"
    using assms(1) by (auto simp: poke_Ret_iff)
  show ?thesis using assms(2,3) le unfolding r' by (auto simp: nth_append min_def)
qed

lemma take_poke:
  "poke r off xs = Ret r' \<Longrightarrow> take (off + length xs) r' = take off r @ xs"
  by (auto simp: poke_Ret_iff)

section \<open>C strings\<close>

text \<open>
  The value of a \<open>char *\<close> argument is the \<open>string\<close> in front of its terminator.
  A character array that the code fills in place is a region of characters whose string is
  what precedes its first NUL; reading the string of a region without a NUL runs past its end.
\<close>

definition nul :: char where
  "nul = CHR 0x00"

abbreviation slash :: char where
  "slash \<equiv> CHR ''/''"

definition cstr :: "char list \<Rightarrow> string" where
  "cstr r = takeWhile (\<lambda>c. c \<noteq> nul) r"

definition read_cstr :: "char list \<Rightarrow> string outcome" where
  "read_cstr r = (if nul \<in> set r then Ret (cstr r) else Fault Out_of_bounds)"

definition is_cstr :: "string \<Rightarrow> bool" where
  "is_cstr s \<longleftrightarrow> nul \<notin> set s"

lemma is_cstr_simps [simp]:
  "is_cstr []" "is_cstr (c # s) \<longleftrightarrow> c \<noteq> nul \<and> is_cstr s"
  "is_cstr (s @ t) \<longleftrightarrow> is_cstr s \<and> is_cstr t"
  by (auto simp: is_cstr_def)

lemma is_cstr_cstr [simp]: "is_cstr (cstr r)"
  by (auto simp: is_cstr_def cstr_def dest: set_takeWhileD)

lemma cstr_terminated [simp]: "is_cstr s \<Longrightarrow> cstr (s @ nul # r) = s"
  by (auto simp: cstr_def is_cstr_def takeWhile_tail intro: takeWhile_eq_all_conv [THEN iffD2])

lemma cstr_id: "is_cstr s \<Longrightarrow> cstr s = s"
  by (auto simp: cstr_def is_cstr_def intro: takeWhile_eq_all_conv [THEN iffD2])

lemma cstr_Nil [simp]: "cstr [] = []" and cstr_nul [simp]: "cstr (nul # r) = []"
  by (simp_all add: cstr_def)

lemma cstr_split: "nul \<in> set r \<Longrightarrow> \<exists>rest. r = cstr r @ nul # rest"
proof (induction r)
  case (Cons c r)
  then show ?case by (cases "c = nul") (auto simp: cstr_def)
qed simp

lemma length_cstr_less: "nul \<in> set r \<Longrightarrow> length (cstr r) < length r"
proof -
  assume "nul \<in> set r"
  then obtain i where i: "i < length r" "r ! i = nul" by (auto simp: in_set_conv_nth)
  have "length (takeWhile (\<lambda>c. c \<noteq> nul) r) \<le> i"
  proof (rule ccontr)
    assume "\<not> ?thesis"
    then have lt: "i < length (takeWhile (\<lambda>c. c \<noteq> nul) r)" by simp
    then have "takeWhile (\<lambda>c. c \<noteq> nul) r ! i \<noteq> nul" by (auto dest: nth_mem set_takeWhileD)
    with lt i show False by (simp add: takeWhile_nth)
  qed
  with i show ?thesis by (simp add: cstr_def)
qed

text \<open>
  \<open>strncmp_eq s t n\<close> is the test \<open>strncmp(s, t, n) == 0\<close>: the first \<open>n\<close>
  characters agree, terminator included. Called with \<open>n = strlen(s)\<close> it is a prefix test,
  with \<open>n = strlen(s) + 1\<close> an equality test.
\<close>

definition strncmp_eq :: "string \<Rightarrow> string \<Rightarrow> nat \<Rightarrow> bool" where
  "strncmp_eq s t n \<longleftrightarrow> take n (s @ [nul]) = take n (t @ [nul])"

lemma strncmp_eq_prefix:
  assumes "is_cstr s"
  shows "strncmp_eq s t (length s) \<longleftrightarrow> prefix s t"
proof -
  have "take (length s) (t @ [nul]) = s \<longleftrightarrow> prefix s t"
  proof
    assume eq: "take (length s) (t @ [nul]) = s"
    have "length s \<le> length t"
    proof (rule ccontr)
      assume "\<not> length s \<le> length t"
      then have "nul \<in> set (take (length s) (t @ [nul]))" by simp
      with eq assms show False by (simp add: is_cstr_def)
    qed
    with eq show "prefix s t" by (metis diff_is_0_eq prefixI take0 append_Nil2 take_append append_take_drop_id)
  qed (auto simp: prefix_def)
  then show ?thesis by (auto simp: strncmp_eq_def)
qed

lemma strncmp_eq_Suc:
  assumes "is_cstr s" and "is_cstr t"
  shows "strncmp_eq s t (length s + 1) \<longleftrightarrow> s = t"
proof
  assume "strncmp_eq s t (length s + 1)"
  then have eq: "take (length s + 1) (t @ [nul]) = s @ [nul]" by (simp add: strncmp_eq_def)
  then have "prefix (s @ [nul]) (t @ [nul])" by (metis take_is_prefix)
  then have "prefix (s @ [nul]) t \<or> s @ [nul] = t @ [nul]" by (auto simp: prefix_snoc)
  then show "s = t" using assms by (auto simp: is_cstr_def prefix_def)
qed (simp add: strncmp_eq_def)

section \<open>Bytes and characters, little endian numbers\<close>

definition byte_of_char :: "char \<Rightarrow> byte" where
  "byte_of_char c = of_char c"

definition char_of_byte :: "byte \<Rightarrow> char" where
  "char_of_byte b = char_of (unat b)"

lemma unat_byte_of_char [simp]: "unat (byte_of_char c) = of_char c"
proof -
  have "byte_of_char c = of_nat (of_char c)" by (simp only: byte_of_char_def of_nat_of_char)
  then show ?thesis by (simp only: unat_of_nat) (simp add: take_bit_eq_mod)
qed

lemma unat_byte_less [simp]: "unat (b :: byte) < 256"
  using unsigned_less [of b, where ?'a = nat] by simp

lemma char_of_byte_of_char [simp]: "char_of_byte (byte_of_char c) = c"
  by (simp add: char_of_byte_def)

lemma byte_of_char_of_byte [simp]: "byte_of_char (char_of_byte b) = b"
  by (simp add: word_eq_iff_unsigned [where ?'a = nat] char_of_byte_def)

definition bytes_of_string :: "string \<Rightarrow> byte list" where
  "bytes_of_string s = map byte_of_char s"

definition string_of_bytes :: "byte list \<Rightarrow> string" where
  "string_of_bytes bs = map char_of_byte bs"

lemma string_of_bytes_of_string [simp]: "string_of_bytes (bytes_of_string s) = s"
  by (simp add: string_of_bytes_def bytes_of_string_def comp_def)

lemma bytes_of_string_of_bytes [simp]: "bytes_of_string (string_of_bytes bs) = bs"
  by (simp add: string_of_bytes_def bytes_of_string_def comp_def)

lemma length_bytes_of_string [simp]: "length (bytes_of_string s) = length s"
  by (simp add: bytes_of_string_def)

lemma length_string_of_bytes [simp]: "length (string_of_bytes s) = length s"
  by (simp add: string_of_bytes_def)

fun le_bytes :: "nat \<Rightarrow> nat \<Rightarrow> byte list" where
  "le_bytes 0 v = []"
| "le_bytes (Suc n) v = of_nat (v mod 256) # le_bytes n (v div 256)"

fun le_val :: "byte list \<Rightarrow> nat" where
  "le_val [] = 0"
| "le_val (b # bs) = unat b + 256 * le_val bs"

lemma length_le_bytes [simp]: "length (le_bytes n v) = n"
  by (induction n arbitrary: v) auto

lemma le_val_bound: "le_val bs < 256 ^ length bs"
proof (induction bs)
  case (Cons b bs)
  then show ?case using unat_byte_less [of b] by (simp del: unat_byte_less)
qed simp

lemma le_val_le_bytes: "le_val (le_bytes n v) = v mod 256 ^ n"
proof (induction n arbitrary: v)
  case (Suc n)
  have "unat (of_nat (v mod 256) :: byte) = v mod 256" by (simp add: unat_of_nat)
  with Suc show ?case by (simp add: mod_mult2_eq)
qed simp

lemma le_bytes_le_val: "le_bytes (length bs) (le_val bs) = bs"
proof (induction bs)
  case (Cons b bs)
  have "unat b < 256" by simp
  with Cons show ?case by simp
qed simp

end
