(* ===== verification/Filesystem.thy ===== *)
theory Filesystem
  imports Cand_Base "HOL-Library.AList"
begin

text \<open>
  The file system as the daemon sees it through POSIX calls: a table from absolute paths to files
  and directories. It has no symbolic links, permissions or space limits, relative paths start
  at the root (the working directory of the service), and the order of the table is the order in
  which \<^verbatim>\<open>readdir\<close> yields the entries of a directory. The kernel's \<^verbatim>\<open>sendfile\<close> is a parameter.
\<close>

section \<open>Paths\<close>

type_synonym path = "string list"

fun split_slash :: "string \<Rightarrow> string list" where
  "split_slash [] = [[]]"
| "split_slash (c # cs) =
     (if c = slash then [] # split_slash cs
      else (case split_slash cs of [] \<Rightarrow> [[c]] | w # ws \<Rightarrow> (c # w) # ws))"

definition path_push :: "path \<Rightarrow> string \<Rightarrow> path" where
  "path_push acc w =
     (if w = [] \<or> w = ''.'' then acc else if w = ''..'' then butlast acc else acc @ [w])"

definition resolve :: "string \<Rightarrow> path" where
  "resolve s = foldl path_push [] (split_slash s)"

definition plain_name :: "string \<Rightarrow> bool" where
  "plain_name n \<longleftrightarrow> n \<noteq> [] \<and> slash \<notin> set n \<and> n \<noteq> ''.'' \<and> n \<noteq> ''..'' \<and> is_cstr n"

section \<open>The table of files\<close>

datatype node = File "byte list" | Dir

type_synonym fsys = "(path \<times> node) list"

definition ENOENT :: int where "ENOENT = 2"
definition EBUSY :: int where "EBUSY = 16"
definition EEXIST :: int where "EEXIST = 17"
definition ENOTDIR :: int where "ENOTDIR = 20"
definition EISDIR :: int where "EISDIR = 21"
definition EINVAL :: int where "EINVAL = 22"
definition ENOTEMPTY :: int where "ENOTEMPTY = 39"

lemmas errno_defs = ENOENT_def EBUSY_def EEXIST_def ENOTDIR_def EISDIR_def EINVAL_def ENOTEMPTY_def

definition fs_node :: "fsys \<Rightarrow> string \<Rightarrow> node option" where
  "fs_node fs s =
     (if s = [] then None
      else case map_of fs (resolve s) of
          Some (File d) \<Rightarrow> if last s = slash then None else Some (File d)
        | n \<Rightarrow> n)"

definition children :: "fsys \<Rightarrow> path \<Rightarrow> string list" where
  "children fs p = map (\<lambda>(q, n). last q) (filter (\<lambda>(q, n). q \<noteq> [] \<and> butlast q = p) fs)"

definition readdir_names :: "fsys \<Rightarrow> path \<Rightarrow> string list" where
  "readdir_names fs p = ''.'' # ''..'' # children fs p"

text \<open>Opening for reading succeeds on a directory too, as \<^verbatim>\<open>fopen(path, "r")\<close> does on Linux.\<close>

definition fs_open_rd :: "fsys \<Rightarrow> string \<Rightarrow> int + node" where
  "fs_open_rd fs s = (case fs_node fs s of None \<Rightarrow> Inl ENOENT | Some n \<Rightarrow> Inr n)"

text \<open>Opening with create and truncate: the result is the table with the file emptied.\<close>

definition fs_create :: "fsys \<Rightarrow> string \<Rightarrow> int + fsys" where
  "fs_create fs s =
     (if s = [] then Inl ENOENT
      else let p = resolve s in
        case map_of fs p of
          Some Dir \<Rightarrow> Inl EISDIR
        | Some (File _) \<Rightarrow>
            if last s = slash then Inl ENOTDIR else Inr (AList.update p (File []) fs)
        | None \<Rightarrow>
            if last s = slash then Inl EISDIR
            else if map_of fs (butlast p) = Some Dir then Inr (AList.update p (File []) fs)
            else Inl (if map_of fs (butlast p) = None then ENOENT else ENOTDIR))"

definition fs_mkdir :: "fsys \<Rightarrow> string \<Rightarrow> int + fsys" where
  "fs_mkdir fs s =
     (if s = [] then Inl ENOENT
      else let p = resolve s in
        if map_of fs p \<noteq> None then Inl EEXIST
        else if map_of fs (butlast p) = Some Dir then Inr (AList.update p Dir fs)
        else Inl (if map_of fs (butlast p) = None then ENOENT else ENOTDIR))"

definition fs_remove :: "fsys \<Rightarrow> string \<Rightarrow> int + fsys" where
  "fs_remove fs s = (case fs_node fs s of
       None \<Rightarrow> Inl ENOENT
     | Some (File _) \<Rightarrow> Inr (AList.delete (resolve s) fs)
     | Some Dir \<Rightarrow>
         if resolve s = [] then Inl EBUSY
         else if children fs (resolve s) \<noteq> [] then Inl ENOTEMPTY
         else Inr (AList.delete (resolve s) fs))"

section \<open>Open files\<close>

text \<open>
  An open \<^verbatim>\<open>FILE\<close>: the file it was opened on and its position. What is written is in the file at
  once, and a file is not removed while it is open: the buffering of the C library and the life of
  an unlinked file are left out.
\<close>

record fhandle =
  fh_path :: path
  fh_pos :: nat

definition fh_content :: "fsys \<Rightarrow> fhandle \<Rightarrow> byte list" where
  "fh_content fs h = (case map_of fs (fh_path h) of Some (File d) \<Rightarrow> d | _ \<Rightarrow> [])"

text \<open>
  \<^verbatim>\<open>fread(buf, n, 1, fp)\<close> stores what is left of the file, at most \<open>n\<close> bytes; from a directory
  nothing can be read. \<^verbatim>\<open>fwrite(buf, n, 1, fp)\<close> writes over the file from its position.
\<close>

definition fread :: "fsys \<Rightarrow> fhandle \<Rightarrow> byte list \<Rightarrow> nat \<Rightarrow> (byte list \<times> fhandle) outcome" where
  "fread fs h buf n =
     (let bs = take n (drop (fh_pos h) (fh_content fs h)) in
      bind_outcome (poke buf 0 bs) (\<lambda>buf'. Ret (buf', h\<lparr>fh_pos := fh_pos h + length bs\<rparr>)))"

definition fwrite :: "fsys \<Rightarrow> fhandle \<Rightarrow> byte list \<Rightarrow> nat \<Rightarrow> (fsys \<times> fhandle) outcome" where
  "fwrite fs h buf n =
     bind_outcome (peek buf 0 n) (\<lambda>bs.
     case map_of fs (fh_path h) of
       Some (File d) \<Rightarrow>
         Ret (AList.update (fh_path h) (File (take (fh_pos h) d @ bs @ drop (fh_pos h + n) d)) fs,
              h\<lparr>fh_pos := fh_pos h + n\<rparr>)
     | _ \<Rightarrow> Ret (fs, h\<lparr>fh_pos := fh_pos h + n\<rparr>))"

section \<open>Well-formed tables\<close>

text \<open>
  Well-formed tables: keys are distinct, the root is a directory, every entry has a directory
  above it, and the components of a key are names a directory can hold.
\<close>

definition wf_fs :: "fsys \<Rightarrow> bool" where
  "wf_fs fs \<longleftrightarrow> distinct (map fst fs) \<and> map_of fs [] = Some Dir
     \<and> (\<forall>(p, n) \<in> set fs. list_all plain_name p \<and> (p \<noteq> [] \<longrightarrow> map_of fs (butlast p) = Some Dir))"

section \<open>Facts about paths\<close>

lemma split_slash_not_Nil [simp]: "split_slash s \<noteq> []"
  by (induction s) (auto split: list.splits)

lemma split_slash_append: "split_slash (s @ slash # t) = split_slash s @ split_slash t"
  by (induction s) (auto split: list.splits)

lemma split_slash_word [simp]: "slash \<notin> set w \<Longrightarrow> split_slash w = [w]"
  by (induction w) auto

lemma split_slash_words:
  "is_cstr s \<Longrightarrow> w \<in> set (split_slash s) \<Longrightarrow> slash \<notin> set w \<and> is_cstr w"
  by (induction s arbitrary: w) (fastforce split: list.splits if_splits)+

lemma plain_path_push: "plain_name w \<Longrightarrow> path_push acc w = acc @ [w]"
  by (simp add: plain_name_def path_push_def)

lemma resolve_snoc_name: "plain_name n \<Longrightarrow> resolve (d @ slash # n) = resolve d @ [n]"
  by (simp add: resolve_def split_slash_append plain_path_push) (simp add: plain_name_def plain_path_push)

lemma resolve_trailing_slash [simp]: "resolve (d @ [slash]) = resolve d"
  using split_slash_append [of d "[]"] by (simp add: resolve_def path_push_def)

lemma resolve_root_name: "plain_name n \<Longrightarrow> resolve (slash # n) = [n]"
  using resolve_snoc_name [of n "[]"] by (simp add: resolve_def path_push_def)

lemma resolve_name: "plain_name n \<Longrightarrow> resolve n = [n]"
  by (simp add: resolve_def plain_name_def path_push_def)

lemma plain_foldl_push:
  "list_all plain_name acc \<Longrightarrow> \<forall>w \<in> set ws. slash \<notin> set w \<and> is_cstr w \<Longrightarrow>
     list_all plain_name (foldl path_push acc ws)"
proof (induction ws arbitrary: acc)
  case (Cons w ws)
  have "list_all plain_name (path_push acc w)"
    using Cons.prems by (auto simp: path_push_def plain_name_def list_all_iff dest: in_set_butlastD)
  with Cons show ?case by simp
qed simp

lemma resolve_plain: "is_cstr s \<Longrightarrow> list_all plain_name (resolve s)"
  unfolding resolve_def by (rule plain_foldl_push) (auto dest: split_slash_words)

lemma plain_name_last: "plain_name n \<Longrightarrow> last n \<noteq> slash"
  by (auto simp: plain_name_def dest: last_in_set)

section \<open>Facts about the table\<close>

lemma map_of_update [simp]: "map_of (AList.update p v fs) = (map_of fs)(p \<mapsto> v)"
  by (rule update_conv')

lemma map_of_delete [simp]: "map_of (AList.delete p fs) = (map_of fs)(p := None)"
  by (rule delete_conv')

lemma children_cons:
  "children ((q, n) # fs) p = (if q \<noteq> [] \<and> butlast q = p then last q # children fs p else children fs p)"
  by (simp add: children_def)

lemma children_Nil [simp]: "children [] p = []"
  by (simp add: children_def)

lemma children_update:
  "children (AList.update q v fs) p =
     (if map_of fs q = None \<and> q \<noteq> [] \<and> butlast q = p then children fs p @ [last q] else children fs p)"
  by (induction fs) (auto simp: children_cons)

lemma in_children_iff:
  assumes "distinct (map fst fs)"
  shows "c \<in> set (children fs p) \<longleftrightarrow> map_of fs (p @ [c]) \<noteq> None"
proof -
  have "c \<in> set (children fs p) \<longleftrightarrow> (\<exists>q n. (q, n) \<in> set fs \<and> q \<noteq> [] \<and> butlast q = p \<and> last q = c)"
    by (force simp: children_def)
  also have "\<dots> \<longleftrightarrow> (\<exists>n. (p @ [c], n) \<in> set fs)"
    by (metis append_butlast_last_id butlast_snoc last_snoc snoc_eq_iff_butlast)
  also have "\<dots> \<longleftrightarrow> map_of fs (p @ [c]) \<noteq> None"
    using assms by (metis map_of_eq_Some_iff not_Some_eq)
  finally show ?thesis .
qed

lemma distinct_children: "distinct (map fst fs) \<Longrightarrow> distinct (children fs p)"
proof (induction fs)
  case (Cons e fs)
  obtain q n where e: "e = (q, n)" by (cases e)
  have "last q \<notin> set (children fs p)" if "q \<noteq> []" "butlast q = p"
  proof -
    have "p @ [last q] = q" using that by auto
    moreover have "map_of fs q = None" using Cons.prems e by (simp add: map_of_eq_None_iff)
    ultimately show ?thesis using Cons.prems in_children_iff [of fs "last q" p] by simp
  qed
  with Cons e show ?case by (auto simp: children_cons)
qed simp

lemma wf_fs_root: "wf_fs fs \<Longrightarrow> map_of fs [] = Some Dir"
  and wf_fs_distinct: "wf_fs fs \<Longrightarrow> distinct (map fst fs)"
  by (simp_all add: wf_fs_def)

lemma wf_fs_parent: "wf_fs fs \<Longrightarrow> map_of fs p = Some n \<Longrightarrow> p \<noteq> [] \<Longrightarrow> map_of fs (butlast p) = Some Dir"
  by (fastforce simp: wf_fs_def dest: map_of_SomeD)

lemma wf_fs_plain: "wf_fs fs \<Longrightarrow> map_of fs p = Some n \<Longrightarrow> list_all plain_name p"
  by (fastforce simp: wf_fs_def dest: map_of_SomeD)

lemma wf_fs_children_plain:
  assumes "wf_fs fs" and "c \<in> set (children fs p)"
  shows "plain_name c"
proof -
  obtain n where "map_of fs (p @ [c]) = Some n"
    using assms in_children_iff [OF wf_fs_distinct] by (auto simp: wf_fs_def)
  from wf_fs_plain [OF assms(1) this] show ?thesis by simp
qed

lemma wf_fsI:
  assumes "distinct (map fst fs)" and "map_of fs [] = Some Dir"
    and "\<And>p n. map_of fs p = Some n \<Longrightarrow> list_all plain_name p"
    and "\<And>p n. map_of fs p = Some n \<Longrightarrow> p \<noteq> [] \<Longrightarrow> map_of fs (butlast p) = Some Dir"
  shows "wf_fs fs"
  using assms by (auto simp: wf_fs_def)

lemma butlast_neq_self: "p \<noteq> [] \<Longrightarrow> butlast p \<noteq> p"
  by (metis append_butlast_last_id not_Cons_self2 append_self_conv)

text \<open>Writing a file, or making a directory where nothing was, keeps the table well-formed.\<close>

lemma wf_fs_put:
  assumes wf: "wf_fs fs" and "p \<noteq> []" and "list_all plain_name p"
    and "map_of fs (butlast p) = Some Dir" and "map_of fs p \<noteq> Some Dir"
  shows "wf_fs (AList.update p v fs)"
proof (rule wf_fsI)
  show "distinct (map fst (AList.update p v fs))" using wf by (simp add: wf_fs_def distinct_update)
  show "map_of (AList.update p v fs) [] = Some Dir" using assms by (simp add: wf_fs_root)
  show "list_all plain_name q" if "map_of (AList.update p v fs) q = Some n" for q n
    using that assms wf_fs_plain [OF wf] by (auto split: if_splits)
  show "map_of (AList.update p v fs) (butlast q) = Some Dir"
    if "map_of (AList.update p v fs) q = Some n" "q \<noteq> []" for q n
    using that assms wf_fs_parent [OF wf] butlast_neq_self [of q] by (cases "q = p") auto
qed

lemma wf_fs_delete:
  assumes wf: "wf_fs fs" and "p \<noteq> []" and "children fs p = []"
  shows "wf_fs (AList.delete p fs)"
proof (rule wf_fsI)
  show "distinct (map fst (AList.delete p fs))" using wf by (simp add: wf_fs_def distinct_delete)
  show "map_of (AList.delete p fs) [] = Some Dir" using assms by (simp add: wf_fs_root)
  show "list_all plain_name q" if "map_of (AList.delete p fs) q = Some n" for q n
    using that wf_fs_plain [OF wf] by (auto split: if_splits)
  show "map_of (AList.delete p fs) (butlast q) = Some Dir"
    if "map_of (AList.delete p fs) q = Some n" "q \<noteq> []" for q n
  proof -
    have q: "map_of fs q = Some n" using that by (auto split: if_splits)
    have "butlast q \<noteq> p"
      using that q assms(3) in_children_iff [OF wf_fs_distinct [OF wf], of "last q" "butlast q"] by auto
    with wf_fs_parent [OF wf q that(2)] show ?thesis by simp
  qed
qed

lemma file_no_children:
  assumes "wf_fs fs" and "map_of fs p = Some (File d)"
  shows "children fs p = []"
proof (rule ccontr)
  assume "children fs p \<noteq> []"
  then obtain c where "c \<in> set (children fs p)" by (cases "children fs p") auto
  then obtain n where "map_of fs (p @ [c]) = Some n"
    using in_children_iff [OF wf_fs_distinct [OF assms(1)]] by auto
  from wf_fs_parent [OF assms(1) this] assms(2) show False by simp
qed

lemma wf_fs_create: "wf_fs fs \<Longrightarrow> is_cstr s \<Longrightarrow> fs_create fs s = Inr fs' \<Longrightarrow> wf_fs fs'"
proof -
  assume wf: "wf_fs fs" and s: "is_cstr s" and c: "fs_create fs s = Inr fs'"
  have r: "resolve s \<noteq> []" "map_of fs (resolve s) \<noteq> Some Dir" "fs' = AList.update (resolve s) (File []) fs"
    and d: "map_of fs (butlast (resolve s)) = Some Dir \<or> (\<exists>n. map_of fs (resolve s) = Some n)"
    using c wf_fs_root [OF wf]
    by (auto simp: fs_create_def Let_def split: if_splits option.splits node.splits)
  moreover have "map_of fs (butlast (resolve s)) = Some Dir" using d r(1) wf_fs_parent [OF wf] by blast
  ultimately have "resolve s \<noteq> []" "map_of fs (resolve s) \<noteq> Some Dir"
    "fs' = AList.update (resolve s) (File []) fs" "map_of fs (butlast (resolve s)) = Some Dir" by auto
  then show ?thesis using wf_fs_put [OF wf] resolve_plain [OF s] by simp
qed

lemma wf_fs_mkdir: "wf_fs fs \<Longrightarrow> is_cstr s \<Longrightarrow> fs_mkdir fs s = Inr fs' \<Longrightarrow> wf_fs fs'"
proof -
  assume wf: "wf_fs fs" and s: "is_cstr s" and c: "fs_mkdir fs s = Inr fs'"
  have "resolve s \<noteq> []" "map_of fs (resolve s) = None" "fs' = AList.update (resolve s) Dir fs"
    "map_of fs (butlast (resolve s)) = Some Dir"
    using c wf_fs_root [OF wf]
    by (auto simp: fs_mkdir_def Let_def split: if_splits)
  then show ?thesis using wf_fs_put [OF wf] resolve_plain [OF s] by simp
qed

lemma wf_fs_remove: "wf_fs fs \<Longrightarrow> fs_remove fs s = Inr fs' \<Longrightarrow> wf_fs fs'"
proof -
  assume wf: "wf_fs fs" and r: "fs_remove fs s = Inr fs'"
  have "resolve s \<noteq> []" "children fs (resolve s) = []" "fs' = AList.delete (resolve s) fs"
    using r wf_fs_root [OF wf] file_no_children [OF wf]
    by (auto simp: fs_remove_def fs_node_def split: if_splits option.splits node.splits)
  then show ?thesis using wf_fs_delete [OF wf] by simp
qed

end
