(* ===== verification/Cand_System.thy ===== *)
theory Cand_System
  imports Filesystem
begin

text \<open>
  Model of \<^verbatim>\<open>src/common/system.c\<close>: time, the shell command runner, files, directories and paths.
  Every path buffer the callers hand to \<^verbatim>\<open>path_join\<close> is as large as the length they pass, so that
  length is the size of the output object here.
\<close>

section \<open>Clocks\<close>

text \<open>\<^verbatim>\<open>struct timespec\<close> as \<^verbatim>\<open>clock_gettime\<close> fills it and \<^verbatim>\<open>nanosleep\<close> takes it.\<close>

record timespec =
  tv_sec :: nat
  tv_nsec :: nat

definition sleep_ms :: "u32 \<Rightarrow> timespec" where
  "sleep_ms ms = \<lparr>tv_sec = unat (ms div 1000), tv_nsec = unat ((ms mod 1000) * 1000000)\<rparr>"

definition sleep_us :: "u64 \<Rightarrow> timespec" where
  "sleep_us us = \<lparr>tv_sec = unat (us div 1000000), tv_nsec = unat ((us mod 1000000) * 1000)\<rparr>"

definition get_uptime_s :: "timespec \<Rightarrow> u32" where
  "get_uptime_s ts = of_nat (tv_sec ts)"

definition get_uptime_ms :: "timespec \<Rightarrow> u32" where
  "get_uptime_ms ts = ucast ((of_nat (tv_sec ts) :: u64) * 1000 + of_nat (tv_nsec ts) div 1000000)"

definition get_uptime_us :: "timespec \<Rightarrow> u64" where
  "get_uptime_us ts = of_nat (tv_sec ts) * 1000000 + of_nat (tv_nsec ts) div 1000"

definition get_unix_time_s :: "nat \<Rightarrow> u32" where
  "get_unix_time_s rawtime = of_nat rawtime"

section \<open>The shell command runner\<close>

text \<open>
  The loop over \<^verbatim>\<open>fgetc\<close>: the output of the command is a list of characters, and the guard is the
  one of the source, on \<^verbatim>\<open>int\<close>. \<open>sh\<close> stands for \<^verbatim>\<open>popen\<close>: an error number or the output.
\<close>

fun read_pipe :: "char list \<Rightarrow> nat \<Rightarrow> int \<Rightarrow> char list \<Rightarrow> (nat \<times> char list) outcome" where
  "read_pipe [] out_len out_max_len out = Ret (out_len, out)"
| "read_pipe (c # cs) out_len out_max_len out =
     (if int out_len > out_max_len - 1 then Ret (out_len, out)
      else bind_outcome (poke out out_len [c]) (read_pipe cs (out_len + 1) out_max_len))"

definition run_bash_command ::
  "(string \<Rightarrow> int + char list) \<Rightarrow> string \<Rightarrow> char list \<Rightarrow> int \<Rightarrow> (int \<times> char list) outcome" where
  "run_bash_command sh cmd out out_max_len = (case sh cmd of
       Inl e \<Rightarrow> Ret (- e, out)
     | Inr cs \<Rightarrow>
         bind_outcome (read_pipe cs 0 out_max_len out) (\<lambda>(out_len, out1).
         bind_outcome (poke out1 out_len [nul]) (\<lambda>out2. Ret (int (out_len + 1), out2))))"

section \<open>Paths\<close>

definition PATH_MAX :: nat where "PATH_MAX = 4096"

definition basename :: "string \<Rightarrow> string" where
  "basename s =
     (if s = [] then ''.''
      else let t = rev (dropWhile (\<lambda>c. c = slash) (rev s))
           in if t = [] then ''/'' else rev (takeWhile (\<lambda>c. c \<noteq> slash) (rev t)))"

definition path_join :: "string \<Rightarrow> string \<Rightarrow> nat \<Rightarrow> (int \<times> string option) outcome" where
  "path_join head tail out_len =
     (let head_startswith_slash = (take 1 head = ''/'');
          tail_startswith_slash = (take 1 tail = ''/'');
          head_is_root = (length head = 1 \<and> head_startswith_slash);
          tail_is_root = (length tail = 1 \<and> tail_startswith_slash);
          emit = (\<lambda>s. if length s < out_len then Ret (0, Some s) else Fault Out_of_bounds)
      in if tail_is_root \<or> (head_is_root \<and> out_len < 2) then Ret (- EINVAL, None)
         else if head_is_root then (if tail_startswith_slash then emit tail else emit (slash # tail))
         else if head = [] then Fault Out_of_bounds
         else if last head = slash then emit (head @ tail)
         else emit (head @ slash # tail))"

section \<open>Files\<close>

text \<open>
  The kernel: \<open>sendfile_k off n\<close> is the outcome of \<^verbatim>\<open>sendfile\<close> at offset \<open>off\<close> with \<open>n\<close> bytes left,
  an error number or the count transferred, and \<open>dir_size_k\<close> is what \<^verbatim>\<open>fstat\<close> gives as the size of
  a directory.
\<close>

record kern =
  sendfile_k :: "nat \<Rightarrow> nat \<Rightarrow> int + nat"
  dir_size_k :: nat

definition is_file :: "fsys \<Rightarrow> string \<Rightarrow> bool" where
  "is_file fs path = (case fs_open_rd fs path of Inl _ \<Rightarrow> False | Inr _ \<Rightarrow> True)"

definition is_dir :: "fsys \<Rightarrow> string \<Rightarrow> bool" where
  "is_dir fs path = (fs_node fs path = Some Dir)"

text \<open>The test every directory loop uses to skip the entries \<^verbatim>\<open>.\<close> and \<^verbatim>\<open>..\<close>.\<close>

definition is_dot_entry :: "string \<Rightarrow> bool" where
  "is_dot_entry d_name \<longleftrightarrow>
     strncmp_eq d_name ''.'' (length d_name) \<or> strncmp_eq d_name ''..'' (length d_name)"

fun scan_dir :: "string list \<Rightarrow> string \<Rightarrow> bool" where
  "scan_dir [] file_name = False"
| "scan_dir (d # ds) file_name =
     (if is_dot_entry d then scan_dir ds file_name
      else if strncmp_eq d file_name (length d) then True
      else scan_dir ds file_name)"

definition is_file_in_dir :: "fsys \<Rightarrow> string \<Rightarrow> string \<Rightarrow> bool" where
  "is_file_in_dir fs dir_path file_name =
     (if is_dir fs dir_path then scan_dir (readdir_names fs (resolve dir_path)) file_name else False)"

text \<open>
  The copy loop. \<^verbatim>\<open>sendfile\<close> advances \<^verbatim>\<open>offset\<close> by the count it transferred, since its address is
  passed, and the loop then adds the count once more.
\<close>

fun copy_loop :: "kern \<Rightarrow> nat \<Rightarrow> byte list \<Rightarrow> nat \<Rightarrow> byte list \<Rightarrow> (int \<times> byte list) outcome" where
  "copy_loop k 0 src offset dst = Fault Out_of_fuel"
| "copy_loop k (Suc fuel) src offset dst =
     (if offset < length src then
        (case sendfile_k k offset (length src - offset) of
           Inl e \<Rightarrow> Ret (- e, dst)
         | Inr written \<Rightarrow>
             copy_loop k fuel src (offset + written + written) (dst @ take written (drop offset src)))
      else Ret (0, dst))"

text \<open>
  The destination of a copy into a directory is built in a block local array that is used after
  its block; the model keeps its contents, as compiled code does.
\<close>

definition copy_target :: "fsys \<Rightarrow> string \<Rightarrow> string \<Rightarrow> string outcome" where
  "copy_target fs src dest =
     (if is_dir fs dest
      then bind_outcome (path_join dest (basename src) PATH_MAX)
             (\<lambda>(r, out). case out of None \<Rightarrow> Fault Uninitialised | Some t \<Rightarrow> Ret t)
      else Ret dest)"

definition copy_file :: "kern \<Rightarrow> fsys \<Rightarrow> string \<Rightarrow> string \<Rightarrow> (int \<times> fsys) outcome" where
  "copy_file k fs src dest = (case fs_open_rd fs src of
       Inl e \<Rightarrow> Ret (- e, fs)
     | Inr _ \<Rightarrow>
         bind_outcome (copy_target fs src dest) (\<lambda>tmp.
           case fs_create fs tmp of
             Inl e \<Rightarrow> Ret (- e, fs)
           | Inr fs1 \<Rightarrow>
               (case map_of fs1 (resolve src) of
                  Some (File d) \<Rightarrow>
                    bind_outcome (copy_loop k (Suc (length d)) d 0 [])
                      (\<lambda>(r, out). Ret (r, AList.update (resolve tmp) (File out) fs1))
                | _ \<Rightarrow> Ret (if 0 < dir_size_k k then - EINVAL else 0, fs1))))"

text \<open>\<^verbatim>\<open>remove\<close> with the error convention of the sources: 0, or minus the error number.\<close>

definition remove_file :: "fsys \<Rightarrow> string \<Rightarrow> int \<times> fsys" where
  "remove_file fs path = (case fs_remove fs path of Inl e \<Rightarrow> (- e, fs) | Inr fs' \<Rightarrow> (0, fs'))"

definition move_file :: "kern \<Rightarrow> fsys \<Rightarrow> string \<Rightarrow> string \<Rightarrow> (int \<times> fsys) outcome" where
  "move_file k fs src dest =
     bind_outcome (copy_file k fs src dest)
       (\<lambda>(r, fs1). if 0 \<le> r then Ret (remove_file fs1 src) else Ret (r, fs1))"

text \<open>
  The check sum of a file: \<open>crc32\<close> is the function of the compression library. An empty file is left with
  whatever \<^verbatim>\<open>errno\<close> holds as the result, and the caller's variable is not set; the second component says
  whether it was. A directory can be opened but not read.
\<close>

definition ENOMEM :: int where "ENOMEM = 12"

definition get_file_crc32 ::
  "(byte list \<Rightarrow> u32) \<Rightarrow> kern \<Rightarrow> bool \<Rightarrow> int \<Rightarrow> fsys \<Rightarrow> string option \<Rightarrow> int \<times> u32 option" where
  "get_file_crc32 crc32 k malloc_ok errno fs file_path = (case file_path of
       None \<Rightarrow> (- EINVAL, None)
     | Some p \<Rightarrow>
         (case fs_open_rd fs p of
            Inl e \<Rightarrow> (- e, None)
          | Inr (File d) \<Rightarrow>
              if length d = 0 then (- errno, None)
              else if \<not> malloc_ok then (- ENOMEM, None)
              else (0, Some (crc32 d))
          | Inr Dir \<Rightarrow>
              if dir_size_k k = 0 then (- errno, None)
              else if \<not> malloc_ok then (- ENOMEM, None)
              else (- 1, None)))"

definition check_file_crc32_match ::
  "(byte list \<Rightarrow> u32) \<Rightarrow> kern \<Rightarrow> bool \<Rightarrow> int \<Rightarrow> fsys \<Rightarrow> string option \<Rightarrow> string option \<Rightarrow> bool outcome" where
  "check_file_crc32_match crc32 k malloc_ok errno fs file_path_1 file_path_2 =
     (let (r1, crc1) = get_file_crc32 crc32 k malloc_ok errno fs file_path_1;
          (r2, crc2) = get_file_crc32 crc32 k malloc_ok errno fs file_path_2
      in if r1 \<noteq> 0 \<or> r2 \<noteq> 0 then Ret False
         else case (crc1, crc2) of (Some c1, Some c2) \<Rightarrow> Ret (c1 = c2) | _ \<Rightarrow> Fault Uninitialised)"

section \<open>Directories\<close>

fun mkdir_loop :: "fsys \<Rightarrow> string \<Rightarrow> nat list \<Rightarrow> int \<times> fsys" where
  "mkdir_loop fs path [] = (0, fs)"
| "mkdir_loop fs path (i # is) =
     (if i = length path \<or> path ! i = slash then
        if is_dir fs (take i path) then mkdir_loop fs path is
        else (case fs_mkdir fs (take i path) of
                Inl e \<Rightarrow> (- 1, fs)
              | Inr fs' \<Rightarrow> mkdir_loop fs' path is)
      else mkdir_loop fs path is)"

definition mkdir_path :: "fsys \<Rightarrow> string option \<Rightarrow> int \<times> fsys" where
  "mkdir_path fs path = (case path of
       None \<Rightarrow> (- EINVAL, fs)
     | Some s \<Rightarrow> mkdir_loop fs s [1..<min (length s + 1) (PATH_MAX - 1)])"

fun clear_loop :: "fsys \<Rightarrow> string \<Rightarrow> string list \<Rightarrow> int \<times> fsys" where
  "clear_loop fs path [] = (0, fs)"
| "clear_loop fs path (d # ds) =
     (if is_dot_entry d then clear_loop fs path ds
      else let filepath = (if last path = slash then path @ d else path @ slash # d)
           in case fs_remove fs filepath of
                Inl e \<Rightarrow> (- 1, fs)
              | Inr fs' \<Rightarrow> clear_loop fs' path ds)"

definition clear_dir :: "fsys \<Rightarrow> string \<Rightarrow> int \<times> fsys" where
  "clear_dir fs path =
     (if is_dir fs path then clear_loop fs path (readdir_names fs (resolve path)) else (- ENOENT, fs))"

fun count_entries :: "string list \<Rightarrow> int \<Rightarrow> int" where
  "count_entries [] count = count"
| "count_entries (d # ds) count = (if is_dot_entry d then count_entries ds count else count_entries ds (count + 1))"

definition files_in_dir :: "fsys \<Rightarrow> string \<Rightarrow> int" where
  "files_in_dir fs path =
     (if is_dir fs path then count_entries (readdir_names fs (resolve path)) 0 else - ENOENT)"


section \<open>Facts about paths\<close>

lemma plain_name_no_slash: "plain_name n \<Longrightarrow> \<forall>c \<in> set n. c \<noteq> slash"
  by (auto simp: plain_name_def)

lemma basename_snoc_name: "plain_name n \<Longrightarrow> basename (d @ slash # n) = n"
proof -
  assume n: "plain_name n"
  have "dropWhile (\<lambda>c. c = slash) (rev n @ slash # rev d) = rev n @ slash # rev d"
    using n by (cases "rev n") (auto simp: plain_name_def)
  moreover have "takeWhile (\<lambda>c. c \<noteq> slash) (rev n @ slash # rev d) = rev n"
    using plain_name_no_slash [OF n] by (simp add: takeWhile_append)
  ultimately show ?thesis by (simp add: basename_def)
qed

lemma basename_name: "plain_name n \<Longrightarrow> basename n = n"
proof -
  assume n: "plain_name n"
  have "dropWhile (\<lambda>c. c = slash) (rev n) = rev n"
    using n by (cases "rev n") (auto simp: plain_name_def)
  with n plain_name_no_slash [OF n] show ?thesis by (auto simp: basename_def plain_name_def)
qed

definition joined :: "string \<Rightarrow> string \<Rightarrow> string" where
  "joined head name = (if last head = slash then head @ name else head @ slash # name)"

lemma joined_facts:
  assumes "head \<noteq> []" and "plain_name name"
  shows "resolve (joined head name) = resolve head @ [name]" and "basename (joined head name) = name"
    and "last (joined head name) \<noteq> slash" and "length (joined head name) \<le> length head + length name + 1"
    and "joined head name \<noteq> []"
proof -
  obtain h where "last head = slash \<Longrightarrow> head = h @ [slash]"
    using assms(1) by (metis append_butlast_last_id)
  then have j: "resolve (joined head name) = resolve head @ [name] \<and> basename (joined head name) = name"
    using resolve_snoc_name [OF assms(2)] basename_snoc_name [OF assms(2)]
    by (cases "last head = slash") (auto simp: joined_def)
  then show "resolve (joined head name) = resolve head @ [name]" and "basename (joined head name) = name"
    by auto
  show "last (joined head name) \<noteq> slash"
    using assms(2) plain_name_last by (auto simp: joined_def plain_name_def)
qed (use assms in \<open>auto simp: joined_def\<close>)

lemma path_join_plain:
  assumes "head \<noteq> []" and "plain_name name"
  shows "path_join head name out_len =
    (if head = ''/'' \<and> out_len < 2 then Ret (- EINVAL, None)
     else if length (joined head name) < out_len then Ret (0, Some (joined head name))
     else Fault Out_of_bounds)"
proof -
  have name: "take 1 name \<noteq> ''/''" using assms(2) by (cases name) (auto simp: plain_name_def)
  show ?thesis
  proof (cases "head = ''/''")
    case True
    with name show ?thesis by (auto simp: path_join_def joined_def Let_def)
  next
    case False
    then have "\<not> (length head = 1 \<and> take 1 head = ''/'')" by (cases head) auto
    with name False assms(1) show ?thesis by (auto simp: path_join_def joined_def Let_def)
  qed
qed

text \<open>
  Joining a directory path and a plain file name names the entry of that directory, and the
  result fits its buffer; if it would not fit, the buffer is overrun, because the length that is
  passed is only looked at when the head is the root.
\<close>

lemma path_join_names_entry:
  assumes "head \<noteq> []" and "plain_name name"
  shows "(\<exists>s. path_join head name out_len = Ret (0, Some s) \<and> length s < out_len
            \<and> resolve s = resolve head @ [name] \<and> basename s = name)
         \<or> out_len \<le> length head + length name + 1
           \<and> path_join head name out_len \<in> {Ret (- EINVAL, None), Fault Out_of_bounds}"
  using joined_facts [OF assms] assms by (auto simp: path_join_plain)

lemma path_join_names_entry_witness:
  "\<exists>s. path_join ''/var/cache'' ''log.txt'' 256 = Ret (0, Some s)
      \<and> resolve s = resolve ''/var/cache'' @ [''log.txt'']"
  using path_join_names_entry [of "''/var/cache''" "''log.txt''" 256]
  by (auto simp: plain_name_def nul_def)

lemma path_join_fits:
  assumes "head \<noteq> []" and "plain_name name" and "length head + length name + 1 < out_len"
  shows "path_join head name out_len = Ret (0, Some (joined head name))"
  using joined_facts(4) [OF assms(1,2)] assms by (auto simp: path_join_plain)


section \<open>Copying files\<close>

text \<open>
  What is known of \<^verbatim>\<open>sendfile\<close>: it fails or makes progress. The stronger \<open>full_sendfile\<close>, a call
  transfers all that is left, holds for files below its limit on one call when nothing interrupts it.
\<close>

definition progress_sendfile :: "kern \<Rightarrow> bool" where
  "progress_sendfile k \<longleftrightarrow>
     (\<forall>off n. 0 < n \<longrightarrow> (case sendfile_k k off n of Inl e \<Rightarrow> 0 < e | Inr m \<Rightarrow> 0 < m \<and> m \<le> n))"

definition full_sendfile :: "kern \<Rightarrow> bool" where
  "full_sendfile k \<longleftrightarrow> (\<forall>off n. 0 < n \<longrightarrow> sendfile_k k off n = Inr n)"

lemma copy_loop_full: "full_sendfile k \<Longrightarrow> copy_loop k (Suc (length d)) d 0 [] = Ret (0, d)"
  by (cases d) (auto simp: full_sendfile_def)

lemma copy_loop_returns:
  "progress_sendfile k \<Longrightarrow> length d - off < fuel \<Longrightarrow> \<exists>r out. copy_loop k fuel d off dst = Ret (r, out) \<and> r \<le> 0"
proof (induction k fuel d off dst rule: copy_loop.induct)
  case (2 k fuel d off dst)
  show ?case
  proof (cases "off < length d")
    case True
    with "2.prems"(1) have "case sendfile_k k off (length d - off) of Inl e \<Rightarrow> 0 < e | Inr m \<Rightarrow> 0 < m \<and> m \<le> length d - off"
      unfolding progress_sendfile_def by (metis zero_less_diff)
    then show ?thesis
      using True "2.prems" "2.IH" [OF True] by (auto split: sum.splits)
  qed simp
qed simp

lemma fs_create_ok:
  assumes "s \<noteq> []" and "last s \<noteq> slash" and "map_of fs (resolve s) \<noteq> Some Dir"
    and "map_of fs (butlast (resolve s)) = Some Dir"
  shows "fs_create fs s = Inr (AList.update (resolve s) (File []) fs)"
  using assms by (auto simp: fs_create_def Let_def split: option.splits node.splits)

lemma fs_node_file:
  "fs_node fs s = Some (File d) \<longleftrightarrow> s \<noteq> [] \<and> last s \<noteq> slash \<and> map_of fs (resolve s) = Some (File d)"
  by (auto simp: fs_node_def split: option.splits node.splits if_splits)

lemma fs_node_dir: "fs_node fs s = Some Dir \<longleftrightarrow> s \<noteq> [] \<and> map_of fs (resolve s) = Some Dir"
  by (auto simp: fs_node_def split: option.splits node.splits if_splits)

lemma copy_target_dir:
  assumes "is_dir fs dest" and "plain_name (basename src)"
    and "length dest + length (basename src) + 1 < PATH_MAX"
  shows "copy_target fs src dest = Ret (joined dest (basename src))"
proof -
  have "dest \<noteq> []" using assms(1) by (auto simp: is_dir_def fs_node_def)
  from path_join_fits [OF this assms(2,3)] assms(1) show ?thesis by (simp add: copy_target_def)
qed

lemma copy_file_to:
  assumes "full_sendfile k" and "fs_node fs src = Some (File d)"
    and "copy_target fs src dest = Ret tmp" and "fs_create fs tmp = Inr (AList.update (resolve tmp) (File []) fs)"
    and "resolve tmp \<noteq> resolve src"
  shows "copy_file k fs src dest = Ret (0, AList.update (resolve tmp) (File d) fs)"
proof -
  have "map_of fs (resolve src) = Some (File d)" using assms(2) by (simp add: fs_node_file)
  then show ?thesis
    using assms copy_loop_full [OF assms(1), of d] by (simp add: copy_file_def fs_open_rd_def)
qed

text \<open>
  Copying a file into a directory stores exactly its contents under its base name there and
  changes nothing else, provided \<^verbatim>\<open>sendfile\<close> transfers everything it is asked for.
\<close>

lemma copy_file_into_dir:
  assumes "full_sendfile k" and "fs_node fs src = Some (File d)" and "fs_node fs dest = Some Dir"
    and "plain_name (basename src)" and "length dest + length (basename src) + 1 < PATH_MAX"
    and "map_of fs (resolve dest @ [basename src]) \<noteq> Some Dir"
    and "resolve src \<noteq> resolve dest @ [basename src]"
  shows "\<exists>fs'. copy_file k fs src dest = Ret (0, fs')
      \<and> map_of fs' = (map_of fs)(resolve dest @ [basename src] \<mapsto> File d)"
proof -
  have dest: "dest \<noteq> []" "map_of fs (resolve dest) = Some Dir" using assms(3) by (simp_all add: fs_node_dir)
  note j = joined_facts [OF dest(1) assms(4)]
  have "copy_target fs src dest = Ret (joined dest (basename src))"
    using assms by (intro copy_target_dir) (simp_all add: is_dir_def)
  from copy_file_to [OF assms(1,2) this] show ?thesis
    using j dest assms(6,7) fs_create_ok [OF j(5) j(3)] by simp
qed

lemma copy_file_into_dir_witness:
  "\<exists>fs'. copy_file \<lparr>sendfile_k = (\<lambda>off n. Inr n), dir_size_k = 4096\<rparr>
       [([], Dir), ([''tmp''], Dir), ([''cache''], Dir), ([''tmp'', ''a''], File [1, 2, 3])] ''/tmp/a'' ''/cache''
     = Ret (0, fs') \<and> map_of fs' [''cache'', ''a''] = Some (File [1, 2, 3])"
proof -
  let ?k = "\<lparr>sendfile_k = (\<lambda>off n. Inr n), dir_size_k = 4096\<rparr> :: kern"
  let ?fs = "[([], Dir), ([''tmp''], Dir), ([''cache''], Dir), ([''tmp'', ''a''], File [1, 2, 3])] :: fsys"
  have r: "resolve ''/tmp/a'' = [''tmp'', ''a'']" "resolve ''/cache'' = [''cache'']" "basename ''/tmp/a'' = ''a''"
    by (simp_all add: resolve_def path_push_def basename_def)
  show ?thesis
    using copy_file_into_dir [of ?k ?fs "''/tmp/a''" "[1, 2, 3]" "''/cache''"]
    by (auto simp: r full_sendfile_def fs_node_def plain_name_def nul_def PATH_MAX_def)
qed

text \<open>
  C30: the copy loop always comes to an end with a status of 0 or a negative error number, however
  little \<^verbatim>\<open>sendfile\<close> transfers per call.
\<close>

theorem copy_loop_terminates:
  assumes "progress_sendfile k"
  shows "\<exists>r out. copy_loop k (Suc (length d)) d 0 [] = Ret (r, out) \<and> r \<le> 0"
  using copy_loop_returns [OF assms, of d 0 "Suc (length d)" "[]"] by simp

theorem copy_loop_terminates_witness:
  "\<exists>r out. copy_loop \<lparr>sendfile_k = (\<lambda>off n. Inr 1), dir_size_k = 0\<rparr> (Suc (length [7, 8, 9 :: byte])) [7, 8, 9] 0 []
     = Ret (r, out) \<and> r \<le> 0"
  by (rule copy_loop_terminates) (simp add: progress_sendfile_def)

text \<open>
  When \<^verbatim>\<open>sendfile\<close> transfers at least half of a file but not all of it in its first call, the rest
  is silently lost: the loop counts the transferred bytes twice, stops, and reports success.
\<close>

lemma copy_loop_short_count_loses_tail:
  assumes "sendfile_k k 0 (length d) = Inr m" and "0 < m" and "m < length d" and "length d \<le> 2 * m"
  shows "copy_loop k (Suc (length d)) d 0 [] = Ret (0, take m d)"
proof -
  obtain n where n: "length d = Suc n" using assms by (cases "length d") auto
  have "copy_loop k (Suc (Suc n)) d 0 [] = copy_loop k (Suc n) d (m + m) (take m d)"
    using assms n by simp
  also have "\<dots> = Ret (0, take m d)" using assms n by simp
  finally show ?thesis using n by simp
qed

lemma copy_loop_short_count_loses_tail_witness:
  "copy_loop \<lparr>sendfile_k = (\<lambda>off n. Inr 2), dir_size_k = 0\<rparr> (Suc (length [7, 8, 9 :: byte])) [7, 8, 9] 0 [] = Ret (0, [7, 8])"
  using copy_loop_short_count_loses_tail [of "\<lparr>sendfile_k = (\<lambda>off n. Inr 2), dir_size_k = 0\<rparr>" "[7, 8, 9]" 2] by simp

lemma move_file_result:
  assumes "full_sendfile k" and "fs_node fs src = Some (File d)" and "fs_node fs dest = Some Dir"
    and "plain_name (basename src)" and "length dest + length (basename src) + 1 < PATH_MAX"
    and "map_of fs (resolve dest @ [basename src]) \<noteq> Some Dir"
  shows "\<exists>fs'. move_file k fs src dest = Ret (0, fs')
      \<and> map_of fs' = (if resolve src = resolve dest @ [basename src] then (map_of fs)(resolve src := None)
                      else (map_of fs)(resolve dest @ [basename src] \<mapsto> File d, resolve src := None))"
proof -
  have dest: "dest \<noteq> []" "map_of fs (resolve dest) = Some Dir" using assms(3) by (simp_all add: fs_node_dir)
  have src: "src \<noteq> []" "last src \<noteq> slash" "map_of fs (resolve src) = Some (File d)"
    using assms(2) by (simp_all add: fs_node_file)
  note j = joined_facts [OF dest(1) assms(4)]
  define p where "p = resolve dest @ [basename src]"
  have t: "copy_target fs src dest = Ret (joined dest (basename src))"
    using assms by (intro copy_target_dir) (simp_all add: is_dir_def)
  have c: "fs_create fs (joined dest (basename src)) = Inr (AList.update p (File []) fs)"
    using fs_create_ok [OF j(5) j(3)] j(1) dest assms(6) by (simp add: p_def)
  show ?thesis
  proof (cases "resolve src = p")
    case True
    have "copy_file k fs src dest = Ret (0, AList.update p (File []) fs)"
      using t c True src j(1) by (simp add: copy_file_def fs_open_rd_def assms(2) p_def)
    then show ?thesis
      using True src by (simp add: move_file_def remove_file_def fs_remove_def fs_node_def p_def)
  next
    case False
    then have "copy_file k fs src dest = Ret (0, AList.update p (File d) fs)"
      using copy_file_to [OF assms(1,2) t] c j(1) by (simp add: p_def)
    then show ?thesis
      using False src by (simp add: move_file_def remove_file_def fs_remove_def fs_node_def p_def)
  qed
qed

text \<open>
  Moving a file into another directory leaves its contents there and nothing at the source; moving
  a file onto its own path empties it and then removes it.
\<close>

lemma move_file_moves_or_destroys:
  assumes "full_sendfile k" and "fs_node fs src = Some (File d)" and "fs_node fs dest = Some Dir"
    and "plain_name (basename src)" and "length dest + length (basename src) + 1 < PATH_MAX"
    and "map_of fs (resolve dest @ [basename src]) \<noteq> Some Dir"
  shows "\<exists>fs'. move_file k fs src dest = Ret (0, fs')
      \<and> map_of fs' = (if resolve src = resolve dest @ [basename src] then (map_of fs)(resolve src := None)
                      else (map_of fs)(resolve dest @ [basename src] \<mapsto> File d, resolve src := None))"
  using move_file_result [OF assms] .

lemma move_file_moves_or_destroys_witness:
  "\<exists>fs'. move_file \<lparr>sendfile_k = (\<lambda>off n. Inr n), dir_size_k = 4096\<rparr>
       [([], Dir), ([''tmp''], Dir), ([''tmp'', ''a''], File [1, 2, 3])] ''/tmp/a'' ''/tmp''
     = Ret (0, fs') \<and> map_of fs' [''tmp'', ''a''] = None"
proof -
  let ?k = "\<lparr>sendfile_k = (\<lambda>off n. Inr n), dir_size_k = 4096\<rparr> :: kern"
  let ?fs = "[([], Dir), ([''tmp''], Dir), ([''tmp'', ''a''], File [1, 2, 3])] :: fsys"
  have r: "resolve ''/tmp/a'' = [''tmp'', ''a'']" "resolve ''/tmp'' = [''tmp'']" "basename ''/tmp/a'' = ''a''"
    by (simp_all add: resolve_def path_push_def basename_def)
  show ?thesis
    using move_file_moves_or_destroys [of ?k ?fs "''/tmp/a''" "[1, 2, 3]" "''/tmp''"]
    by (auto simp: r full_sendfile_def fs_node_def plain_name_def nul_def PATH_MAX_def)
qed


section \<open>Directories\<close>

lemma plain_not_dot_entry: "plain_name n \<Longrightarrow> \<not> is_dot_entry n"
proof -
  assume n: "plain_name n"
  then have c: "is_cstr n" by (simp add: plain_name_def)
  have "\<not> prefix n ''.''" "\<not> prefix n ''..''"
    using n by (auto simp: plain_name_def prefix_Cons)
  then show ?thesis using c by (simp add: is_dot_entry_def strncmp_eq_prefix)
qed

lemma dot_entries [simp]: "is_dot_entry ''.''" "is_dot_entry ''..''"
  by (simp_all add: is_dot_entry_def strncmp_eq_def)

lemma count_entries_plain:
  "\<forall>n \<in> set ns. plain_name n \<Longrightarrow> count_entries ns c = c + int (length ns)"
  by (induction ns arbitrary: c) (auto simp: plain_not_dot_entry)

lemma scan_dir_plain:
  "\<forall>n \<in> set ns. plain_name n \<Longrightarrow> scan_dir ns f \<longleftrightarrow> (\<exists>n \<in> set ns. prefix n f)"
  by (induction ns) (auto simp: plain_not_dot_entry strncmp_eq_prefix plain_name_def)

text \<open>
  The number of files is the number of entries of the directory, and \<^verbatim>\<open>-ENOENT\<close> when there is
  no such directory. The membership test finds every file of the directory, but it compares only
  the length of the entry: any entry that is a prefix of the name asked for is taken for it.
\<close>

lemma directory_queries:
  assumes "wf_fs fs"
  shows "files_in_dir fs d =
      (if is_dir fs d then int (length (children fs (resolve d))) else - ENOENT)
    \<and> (is_file_in_dir fs d f \<longleftrightarrow>
        is_dir fs d \<and> (\<exists>n. map_of fs (resolve d @ [n]) \<noteq> None \<and> prefix n f))"
proof -
  have plain: "\<forall>n \<in> set (children fs (resolve d)). plain_name n"
    using wf_fs_children_plain [OF assms] by blast
  have "n \<in> set (children fs (resolve d)) \<longleftrightarrow> map_of fs (resolve d @ [n]) \<noteq> None" for n
    by (rule in_children_iff [OF wf_fs_distinct [OF assms]])
  with plain show ?thesis
    by (auto simp: files_in_dir_def is_file_in_dir_def readdir_names_def count_entries_plain scan_dir_plain)
qed

lemma directory_queries_witness:
  "files_in_dir [([], Dir), ([''a''], File [])] ''/'' = 1
   \<and> is_file_in_dir [([], Dir), ([''a''], File [])] ''/'' ''abc''"
proof -
  let ?fs = "[([], Dir), ([''a''], File [])] :: fsys"
  have wf: "wf_fs ?fs" by (simp add: wf_fs_def plain_name_def nul_def)
  have "resolve ''/'' = []" by (simp add: resolve_def path_push_def)
  then show ?thesis
    using directory_queries [OF wf, of "''/''" "''abc''"]
    by (simp add: is_dir_def fs_node_def children_def)
qed

lemma mkdir_loop_spec:
  assumes "mkdir_loop fs s is = (0, fs')" and "wf_fs fs" and "is_cstr s" and "s \<noteq> []" and "0 \<notin> set is"
  shows "wf_fs fs' \<and> map_of fs \<subseteq>\<^sub>m map_of fs'
    \<and> (\<forall>i \<in> set is. i = length s \<or> s ! i = slash \<longrightarrow> is_dir fs' (take i s))"
  using assms
proof (induction fs s "is" rule: mkdir_loop.induct)
  case (2 fs s i "is")
  have mono: "map_of f \<subseteq>\<^sub>m map_of g \<Longrightarrow> is_dir f p \<Longrightarrow> is_dir g p" for f g p
    by (auto simp: is_dir_def fs_node_dir map_le_def dom_def)
  have cs: "is_cstr (take i s)" using "2.prems"(3) by (auto simp: is_cstr_def dest: in_set_takeD)
  have ne: "take i s \<noteq> []" using "2.prems" by auto
  show ?case
  proof (cases "(i = length s \<or> s ! i = slash) \<and> \<not> is_dir fs (take i s)")
    case False
    then have "mkdir_loop fs s is = (0, fs')" using "2.prems"(1) by (auto split: if_splits)
    moreover have "wf_fs fs' \<and> map_of fs \<subseteq>\<^sub>m map_of fs'
        \<and> (\<forall>i \<in> set is. i = length s \<or> s ! i = slash \<longrightarrow> is_dir fs' (take i s))"
      using calculation False "2.IH" "2.prems" by (cases "i = length s \<or> s ! i = slash") auto
    ultimately show ?thesis using False mono by auto
  next
    case True
    then obtain fs1 where m: "fs_mkdir fs (take i s) = Inr fs1" and l: "mkdir_loop fs1 s is = (0, fs')"
      using "2.prems"(1) by (auto split: sum.splits)
    have fs1: "fs1 = AList.update (resolve (take i s)) Dir fs" "map_of fs (resolve (take i s)) = None"
      using m by (auto simp: fs_mkdir_def Let_def split: if_splits)
    have "wf_fs fs' \<and> map_of fs1 \<subseteq>\<^sub>m map_of fs'
        \<and> (\<forall>i \<in> set is. i = length s \<or> s ! i = slash \<longrightarrow> is_dir fs' (take i s))"
      using True m l "2.IH"(2) [of fs1] wf_fs_mkdir [OF _ cs m] "2.prems" by auto
    moreover have "is_dir fs1 (take i s)" using fs1 ne by (simp add: is_dir_def fs_node_dir)
    moreover have "map_of fs \<subseteq>\<^sub>m map_of fs1" using fs1 by (auto simp: map_le_def)
    ultimately show ?thesis using mono map_le_trans by auto
  qed
qed simp

text \<open>
  When \<^verbatim>\<open>mkdir_path\<close> reports success, the whole path exists as a directory, everything that
  existed before is still there unchanged, and the file system is well-formed.
\<close>

lemma mkdir_path_makes_directory:
  assumes "mkdir_path fs (Some s) = (0, fs')" and "wf_fs fs" and "is_cstr s" and "s \<noteq> []"
    and "length s + 1 < PATH_MAX"
  shows "is_dir fs' s \<and> map_of fs \<subseteq>\<^sub>m map_of fs' \<and> wf_fs fs'"
proof -
  let ?is = "[1..<min (length s + 1) (PATH_MAX - 1)]"
  have "mkdir_loop fs s ?is = (0, fs')" using assms(1) by (simp add: mkdir_path_def)
  moreover have "0 \<notin> set ?is" by simp
  ultimately have spec: "wf_fs fs' \<and> map_of fs \<subseteq>\<^sub>m map_of fs'
      \<and> (\<forall>i \<in> set ?is. i = length s \<or> s ! i = slash \<longrightarrow> is_dir fs' (take i s))"
    by (rule mkdir_loop_spec [OF _ assms(2-4)])
  have "length s \<in> set ?is" using assms(4,5) by (cases s) auto
  with spec have "is_dir fs' (take (length s) s)" by blast
  with spec show ?thesis by simp
qed

lemma mkdir_path_makes_directory_witness:
  "\<exists>fs'. mkdir_path [([], Dir)] (Some ''/a/b'') = (0, fs') \<and> is_dir fs' ''/a/b''"
proof -
  let ?fs' = "[([], Dir), ([''a''], Dir), ([''a'', ''b''], Dir)] :: fsys"
  have run: "mkdir_path [([], Dir)] (Some ''/a/b'') = (0, ?fs')"
    by (simp add: mkdir_path_def PATH_MAX_def upt_rec is_dir_def fs_node_def fs_mkdir_def resolve_def path_push_def)
  have wf: "wf_fs [([], Dir)]" by (simp add: wf_fs_def)
  show ?thesis
    using mkdir_path_makes_directory [OF run wf] run by (auto simp: nul_def PATH_MAX_def)
qed


lemma clear_loop_spec:
  assumes "wf_fs fs" and "is_dir fs path" and "distinct ds"
    and "\<forall>d \<in> set ds. plain_name d \<and> (\<exists>c. map_of fs (resolve path @ [d]) = Some (File c))"
  shows "\<exists>fs'. clear_loop fs path ds = (0, fs') \<and> wf_fs fs'
    \<and> map_of fs' = (\<lambda>q. if q \<in> (\<lambda>d. resolve path @ [d]) ` set ds then None else map_of fs q)"
  using assms
proof (induction ds arbitrary: fs)
  case (Cons d ds)
  obtain c where d: "plain_name d" "map_of fs (resolve path @ [d]) = Some (File c)" using Cons.prems(4) by auto
  have path: "path \<noteq> []" "map_of fs (resolve path) = Some Dir"
    using Cons.prems(2) by (simp_all add: is_dir_def fs_node_dir)
  note j = joined_facts [OF path(1) d(1)]
  have rm: "fs_remove fs (joined path d) = Inr (AList.delete (resolve path @ [d]) fs)"
    using j d by (simp add: fs_remove_def fs_node_def)
  then have wf: "wf_fs (AList.delete (resolve path @ [d]) fs)" by (rule wf_fs_remove [OF Cons.prems(1)])
  have "\<exists>fs'. clear_loop (AList.delete (resolve path @ [d]) fs) path ds = (0, fs') \<and> wf_fs fs'
    \<and> map_of fs' = (\<lambda>q. if q \<in> (\<lambda>d. resolve path @ [d]) ` set ds then None
                       else map_of (AList.delete (resolve path @ [d]) fs) q)"
    using Cons.prems path wf by (intro Cons.IH) (auto simp: is_dir_def fs_node_dir)
  moreover have "clear_loop fs path (d # ds) = clear_loop (AList.delete (resolve path @ [d]) fs) path ds"
    using rm plain_not_dot_entry [OF d(1)] by (simp add: joined_def split: if_splits)
  moreover have "(\<lambda>q. if q \<in> (\<lambda>d. resolve path @ [d]) ` set ds then None
        else map_of (AList.delete (resolve path @ [d]) fs) q)
      = (\<lambda>q. if q \<in> (\<lambda>d. resolve path @ [d]) ` set (d # ds) then None else map_of fs q)"
    by (rule ext) auto
  ultimately show ?case by (simp del: clear_loop.simps)
qed auto

text \<open>
  Clearing a directory that holds only files succeeds, empties it, and touches nothing else.
\<close>

lemma clear_dir_empties:
  assumes "wf_fs fs" and "is_dir fs path"
    and "\<forall>d \<in> set (children fs (resolve path)). \<exists>c. map_of fs (resolve path @ [d]) = Some (File c)"
  shows "\<exists>fs'. clear_dir fs path = (0, fs') \<and> files_in_dir fs' path = 0
    \<and> (\<forall>q. butlast q \<noteq> resolve path \<or> q = [] \<longrightarrow> map_of fs' q = map_of fs q)"
proof -
  let ?p = "resolve path"
  note dist = wf_fs_distinct [OF assms(1)]
  have "\<forall>d \<in> set (children fs ?p). plain_name d \<and> (\<exists>c. map_of fs (?p @ [d]) = Some (File c))"
    using assms wf_fs_children_plain [OF assms(1)] by blast
  from clear_loop_spec [OF assms(1,2) distinct_children [OF dist] this]
  obtain fs' where fs': "clear_loop fs path (children fs ?p) = (0, fs')" "wf_fs fs'"
    and m: "map_of fs' = (\<lambda>q. if q \<in> (\<lambda>d. ?p @ [d]) ` set (children fs ?p) then None else map_of fs q)"
    by blast
  have "map_of fs' (?p @ [c]) = None" for c using m in_children_iff [OF dist, of c ?p] by auto
  then have "children fs' ?p = []"
    using in_children_iff [OF wf_fs_distinct [OF fs'(2)], of _ ?p] by (cases "children fs' ?p") auto
  moreover have "is_dir fs' path" using assms(2) m by (auto simp: is_dir_def fs_node_dir)
  moreover have "\<forall>q. butlast q \<noteq> ?p \<or> q = [] \<longrightarrow> map_of fs' q = map_of fs q" using m by auto
  ultimately show ?thesis
    using fs'(1) assms(2) by (simp add: clear_dir_def files_in_dir_def readdir_names_def)
qed

lemma clear_dir_empties_witness:
  "\<exists>fs'. clear_dir [([], Dir), ([''d''], Dir), ([''d'', ''x''], File [1])] ''/d'' = (0, fs') \<and> files_in_dir fs' ''/d'' = 0"
proof -
  let ?fs = "[([], Dir), ([''d''], Dir), ([''d'', ''x''], File [1])] :: fsys"
  have wf: "wf_fs ?fs" by (simp add: wf_fs_def plain_name_def nul_def)
  have "resolve ''/d'' = [''d'']" by (simp add: resolve_def path_push_def)
  then show ?thesis
    using clear_dir_empties [OF wf, of "''/d''"] by (auto simp: is_dir_def fs_node_def children_def)
qed

section \<open>The shell command runner\<close>

lemma read_pipe_eq:
  assumes "n + min (length cs) (m - n) \<le> length out" and "n \<le> m"
  shows "read_pipe cs n (int m) out =
    Ret (n + min (length cs) (m - n),
         take n out @ take (m - n) cs @ drop (n + min (length cs) (m - n)) out)"
  using assms
proof (induction cs arbitrary: n out)
  case (Cons c cs)
  show ?case
  proof (cases "n < m")
    case True
    then have p: "poke out n [c] = Ret (take n out @ [c] @ drop (n + 1) out)" using Cons.prems by simp
    let ?out = "take n out @ [c] @ drop (n + 1) out"
    have *: "Suc n + min (length cs) (m - Suc n) = n + min (length (c # cs)) (m - n)" using True by auto
    define K where "K = Suc n + min (length cs) (m - Suc n)"
    have "n < length out" using Cons.prems(1) True by auto
    then have tk: "take (Suc n) ?out = take n out @ [c]" and dr: "drop K ?out = drop K out"
      by (simp_all add: K_def add.commute)
    have "read_pipe cs (Suc n) (int m) ?out =
        Ret (K, take (Suc n) ?out @ take (m - Suc n) cs @ drop K ?out)"
      unfolding K_def using Cons.prems True * by (intro Cons.IH) auto
    note IH = this [unfolded tk dr]
    have "take (m - n) (c # cs) = c # take (m - Suc n) cs" using True by (simp add: take_Cons')
    then show ?thesis using True p IH * [folded K_def] by simp
  next
    case False
    with Cons.prems show ?thesis by simp
  qed
qed simp

text \<open>
  A command whose output is shorter than the buffer comes back whole and terminated, and the
  returned length counts the terminator. Output that fills the buffer makes the final store of the
  terminator write one byte past its end.
\<close>

lemma run_bash_command_result:
  assumes "sh cmd = Inr cs"
  shows "run_bash_command sh cmd out (int (length out)) =
    (if length cs < length out
     then Ret (int (length cs) + 1, cs @ nul # drop (length cs + 1) out)
     else Fault Out_of_bounds)"
proof -
  have "read_pipe cs 0 (int (length out)) out = Ret (min (length cs) (length out),
      take (length out) cs @ drop (min (length cs) (length out)) out)"
    using read_pipe_eq [of 0 cs "length out" out] by simp
  then show ?thesis using assms by (auto simp: run_bash_command_def)
qed

lemma run_bash_command_result_witness:
  "run_bash_command (\<lambda>c. Inr ''ok'') ''true'' (replicate 4 nul) (int (length (replicate 4 nul)))
     = Ret (3, ''ok'' @ [nul, nul])
   \<and> run_bash_command (\<lambda>c. Inr ''long'') ''true'' (replicate 4 nul) (int (length (replicate 4 nul))) = Fault Out_of_bounds"
  using run_bash_command_result [of "\<lambda>c. Inr ''ok''" "''true''" "''ok''" "replicate 4 nul"]
    run_bash_command_result [of "\<lambda>c. Inr ''long''" "''true''" "''long''" "replicate 4 nul"]
  by (simp add: numeral_eq_Suc)

section \<open>Clocks\<close>

text \<open>
  The pause requested from \<^verbatim>\<open>nanosleep\<close> is valid, below one second in its nanosecond part, and it
  is exactly the number of milliseconds or microseconds asked for.
\<close>

lemma sleep_requests_exact:
  "tv_nsec (sleep_ms ms) < 10 ^ 9 \<and> tv_sec (sleep_ms ms) * 10 ^ 9 + tv_nsec (sleep_ms ms) = unat ms * 10 ^ 6
   \<and> tv_nsec (sleep_us us) < 10 ^ 9 \<and> tv_sec (sleep_us us) * 10 ^ 9 + tv_nsec (sleep_us us) = unat us * 10 ^ 3"
proof -
  have m: "unat (ms mod 1000 * 1000000) = unat ms mod 1000 * 1000000"
    by (simp add: unat_word_ariths unat_mod_distrib)
  have u: "unat (us mod 1000000 * 1000) = unat us mod 1000000 * 1000"
    by (simp add: unat_word_ariths unat_mod_distrib)
  have split: "n div b * (b * c) + n mod b * c = n * c" for n b c :: nat
    by (metis add_mult_distrib div_mult_mod_eq mult.assoc)
  have "unat ms mod 1000 < 1000" "unat us mod 1000000 < 1000000" by simp_all
  then show ?thesis
    unfolding sleep_ms_def sleep_us_def timespec.simps m u
    using split [of "unat ms" 1000 1000000] split [of "unat us" 1000000 1000]
    by (simp add: unat_div_distrib)
qed

end
