(* ===== verification/Fcache.thy ===== *)
theory Fcache
  imports Cand_System
begin

text \<open>
  Model of \<^verbatim>\<open>src/common/fcache.c\<close>, the file cache behind the file transfer objects and the IPC
  responder: a directory guarded by a mutex. Each operation is the whole C function; it takes and
  returns the file system and the cache. The theory ends with the cache as an abstract store of
  named byte strings, stated as a locale and interpreted on the operations.
\<close>

section \<open>The cache and its operations\<close>

record fcache =
  dir_path :: string
  mutex_locked :: bool

text \<open>
  Locking a mutex that is already held blocks. No other thread gives it back in a sequential
  run, so this is a deadlock here.
\<close>

definition mutex_lock :: "fcache \<Rightarrow> fcache outcome" where
  "mutex_lock c = (if mutex_locked c then Fault Deadlock else Ret (c\<lparr>mutex_locked := True\<rparr>))"

definition mutex_unlock :: "fcache \<Rightarrow> fcache" where
  "mutex_unlock c = c\<lparr>mutex_locked := False\<rparr>"

definition fcache_init :: "bool \<Rightarrow> fsys \<Rightarrow> string option \<Rightarrow> (fcache option \<times> fsys) outcome" where
  "fcache_init malloc_ok fs path =
     (let (r, fs1) = mkdir_path fs path in
      if r < 0 then Ret (None, fs1)
      else if \<not> malloc_ok then Ret (None, fs1)
      else case path of
          None \<Rightarrow> Fault Null_pointer
        | Some s \<Rightarrow> if length s + 1 \<le> PATH_MAX then Ret (Some \<lparr>dir_path = s, mutex_locked = False\<rparr>, fs1)
                    else Fault Out_of_bounds)"

definition fcache_add ::
  "kern \<Rightarrow> fsys \<Rightarrow> fcache option \<Rightarrow> string \<Rightarrow> bool \<Rightarrow> (int \<times> fsys \<times> fcache option) outcome" where
  "fcache_add k fs cache file_path consume = (case cache of
       None \<Rightarrow> Ret (- EINVAL, fs, cache)
     | Some c \<Rightarrow>
         if \<not> is_file fs file_path then Ret (- EINVAL, fs, cache)
         else bind_outcome (mutex_lock c) (\<lambda>c1.
              bind_outcome (if consume then move_file k fs file_path (dir_path c1)
                            else copy_file k fs file_path (dir_path c1)) (\<lambda>(r, fs1).
              Ret (r, fs1, Some (mutex_unlock c1)))))"

definition fcache_add_new ::
  "fsys \<Rightarrow> fcache option \<Rightarrow> string option \<Rightarrow> byte list option \<Rightarrow> u32 \<Rightarrow> (int \<times> fsys \<times> fcache option) outcome" where
  "fcache_add_new fs cache file_name file_data file_data_len = (case (cache, file_name, file_data) of
       (Some c, Some name, Some data) \<Rightarrow>
         if file_data_len = 0 then Ret (- EINVAL, fs, cache)
         else bind_outcome (path_join (dir_path c) name PATH_MAX) (\<lambda>(r, out).
           case out of
             None \<Rightarrow> Ret (r, fs, cache)
           | Some buffer \<Rightarrow>
               bind_outcome (mutex_lock c) (\<lambda>c1.
               case fs_create fs buffer of
                 Inl e \<Rightarrow> Ret (r, fs, Some (mutex_unlock c1))
               | Inr fs1 \<Rightarrow>
                   bind_outcome (peek data 0 (unat file_data_len)) (\<lambda>bs.
                   Ret (r, AList.update (resolve buffer) (File bs) fs1, Some (mutex_unlock c1)))))
     | _ \<Rightarrow> Ret (- EINVAL, fs, cache))"

definition fcache_delete ::
  "fsys \<Rightarrow> fcache option \<Rightarrow> string option \<Rightarrow> (int \<times> fsys \<times> fcache option) outcome" where
  "fcache_delete fs cache file_name = (case (cache, file_name) of
       (Some c, Some name) \<Rightarrow>
         bind_outcome (path_join (dir_path c) name PATH_MAX) (\<lambda>(r, out).
           case out of
             None \<Rightarrow> Ret (r, fs, cache)
           | Some buffer \<Rightarrow>
               bind_outcome (mutex_lock c) (\<lambda>c1.
               let (r1, fs1) = remove_file fs buffer in Ret (r1, fs1, Some (mutex_unlock c1))))
     | _ \<Rightarrow> Ret (- EINVAL, fs, cache))"

definition fcache_copy ::
  "kern \<Rightarrow> fsys \<Rightarrow> fcache option \<Rightarrow> string option \<Rightarrow> string \<Rightarrow> (int \<times> fsys \<times> fcache option) outcome" where
  "fcache_copy k fs cache file_name dest_dir = (case (cache, file_name) of
       (Some c, Some name) \<Rightarrow>
         if \<not> is_dir fs dest_dir then Ret (- EINVAL, fs, cache)
         else bind_outcome (path_join (dir_path c) name PATH_MAX) (\<lambda>(r, out).
           case out of
             None \<Rightarrow> Ret (r, fs, cache)
           | Some buffer \<Rightarrow>
               bind_outcome (mutex_lock c) (\<lambda>c1.
               bind_outcome (copy_file k fs buffer dest_dir) (\<lambda>(r1, fs1).
               Ret (r1, fs1, Some (mutex_unlock c1)))))
     | _ \<Rightarrow> Ret (- EINVAL, fs, cache))"

definition fcache_move ::
  "kern \<Rightarrow> fsys \<Rightarrow> fcache option \<Rightarrow> string option \<Rightarrow> string \<Rightarrow> (int \<times> fsys \<times> fcache option) outcome" where
  "fcache_move k fs cache file_name dest_dir = (case (cache, file_name) of
       (Some c, Some name) \<Rightarrow>
         if \<not> is_dir fs dest_dir then Ret (- EINVAL, fs, cache)
         else bind_outcome (path_join (dir_path c) name PATH_MAX) (\<lambda>(r, out).
           case out of
             None \<Rightarrow> Ret (r, fs, cache)
           | Some buffer \<Rightarrow>
               bind_outcome (mutex_lock c) (\<lambda>c1.
               bind_outcome (move_file k fs buffer dest_dir) (\<lambda>(r1, fs1).
               Ret (r1, fs1, Some (mutex_unlock c1)))))
     | _ \<Rightarrow> Ret (- EINVAL, fs, cache))"

definition fcache_size :: "fsys \<Rightarrow> fcache option \<Rightarrow> (u32 \<times> fcache option) outcome" where
  "fcache_size fs cache = (case cache of
       None \<Rightarrow> Ret (0, cache)
     | Some c \<Rightarrow>
         bind_outcome (mutex_lock c) (\<lambda>c1.
         Ret (of_int (files_in_dir fs (dir_path c1)), Some (mutex_unlock c1))))"

text \<open>A null argument returns \<^verbatim>\<open>-EINVAL\<close> as a \<^verbatim>\<open>bool\<close>, which is true.\<close>

definition fcache_file_exist :: "fsys \<Rightarrow> fcache option \<Rightarrow> string option \<Rightarrow> (bool \<times> fcache option) outcome" where
  "fcache_file_exist fs cache file_name = (case (cache, file_name) of
       (Some c, Some name) \<Rightarrow>
         bind_outcome (mutex_lock c) (\<lambda>c1.
         Ret (is_file_in_dir fs (dir_path c1) name, Some (mutex_unlock c1)))
     | _ \<Rightarrow> Ret (- EINVAL \<noteq> 0, cache))"

section \<open>The listing\<close>

text \<open>
  The buffer of the listing doubles until the next name fits. Both ways out of the inner loop that
  give up, no memory and the hard limit of 10024 bytes, free the buffer, set it to null and
  leave only the inner loop: the statement that follows writes through the null pointer.
  \<open>junk\<close> is what fresh memory contains.
\<close>

fun json_grow :: "(nat \<Rightarrow> bool) \<Rightarrow> char \<Rightarrow> nat \<Rightarrow> char list \<Rightarrow> nat \<Rightarrow> nat \<Rightarrow> (char list \<times> nat) outcome" where
  "json_grow malloc_ok junk 0 buf sz need = Fault Out_of_fuel"
| "json_grow malloc_ok junk (Suc fuel) buf sz need =
     (if need > sz then
        if \<not> malloc_ok (sz * 2) then Fault Null_pointer
        else if sz * 2 > 10024 then Fault Null_pointer
        else json_grow malloc_ok junk fuel (buf @ replicate sz junk) (sz * 2) need
      else Ret (buf, sz))"

definition strcat_region :: "char list \<Rightarrow> string \<Rightarrow> char list outcome" where
  "strcat_region buf s =
     bind_outcome (read_cstr buf) (\<lambda>t. poke buf (length t) (s @ [nul]))"

definition json_entry ::
  "(nat \<Rightarrow> bool) \<Rightarrow> char \<Rightarrow> string \<Rightarrow> char list \<times> nat \<times> nat \<Rightarrow> (char list \<times> nat \<times> nat) outcome" where
  "json_entry malloc_ok junk d_name st = (case st of (buf, sz, offset) \<Rightarrow>
     bind_outcome (json_grow malloc_ok junk 8 buf sz (offset + length d_name + 5)) (\<lambda>(buf1, sz1).
     bind_outcome
       (if offset = 1
        then bind_outcome (poke buf1 1 [CHR 0x22]) (\<lambda>b.
             bind_outcome (poke b 2 [nul]) (\<lambda>b'. Ret (b', offset + 1)))
        else bind_outcome (strcat_region buf1 [CHR '','', CHR '' '', CHR 0x22]) (\<lambda>b.
             Ret (b, offset + 3))) (\<lambda>(buf2, offset2).
     bind_outcome (strcat_region buf2 d_name) (\<lambda>buf3.
     let offset3 = offset2 + length d_name in
     bind_outcome (poke buf3 offset3 [CHR 0x22]) (\<lambda>buf4.
     bind_outcome (poke buf4 (offset3 + 1) [nul]) (\<lambda>buf5.
     Ret (buf5, sz1, offset3 + 1)))))))"

fun json_loop ::
  "(nat \<Rightarrow> bool) \<Rightarrow> char \<Rightarrow> string list \<Rightarrow> char list \<times> nat \<times> nat \<Rightarrow> (char list \<times> nat \<times> nat) outcome" where
  "json_loop malloc_ok junk [] st = Ret st"
| "json_loop malloc_ok junk (d # ds) st =
     (if is_dot_entry d then json_loop malloc_ok junk ds st
      else bind_outcome (json_entry malloc_ok junk d st) (json_loop malloc_ok junk ds))"

definition fcache_list_files_as_json ::
  "(nat \<Rightarrow> bool) \<Rightarrow> char \<Rightarrow> fsys \<Rightarrow> fcache option \<Rightarrow> (char list option \<times> fcache option) outcome" where
  "fcache_list_files_as_json malloc_ok junk fs cache = (case cache of
       None \<Rightarrow> Ret (None, cache)
     | Some c \<Rightarrow>
         if \<not> malloc_ok 256 then Ret (None, cache)
         else
           bind_outcome (poke (replicate 256 junk) 0 [CHR ''['', nul]) (\<lambda>buf.
           bind_outcome (mutex_lock c) (\<lambda>c1.
           if \<not> is_dir fs (dir_path c1) then Ret (None, Some c1)
           else
             bind_outcome (json_loop malloc_ok junk (readdir_names fs (resolve (dir_path c1))) (buf, 256, 1))
               (\<lambda>(buf1, sz, offset).
             bind_outcome (poke buf1 offset [CHR '']'']) (\<lambda>buf2.
             bind_outcome (poke buf2 (offset + 1) [nul]) (\<lambda>buf3.
             Ret (Some buf3, Some (mutex_unlock c1))))))))"


section \<open>Facts about the operations\<close>

definition entry_path :: "fcache \<Rightarrow> string \<Rightarrow> path" where
  "entry_path c n = resolve (dir_path c) @ [n]"

text \<open>
  A usable cache: its directory exists, holds files only, leaves room in a path buffer for
  the longest file name (255 characters), and its mutex is free.
\<close>

definition cache_ok :: "fsys \<Rightarrow> fcache \<Rightarrow> bool" where
  "cache_ok fs c \<longleftrightarrow> wf_fs fs \<and> is_dir fs (dir_path c) \<and> \<not> mutex_locked c
     \<and> length (dir_path c) + 257 < PATH_MAX \<and> (\<forall>n. map_of fs (entry_path c n) \<noteq> Some Dir)"

definition cache_name :: "string \<Rightarrow> bool" where
  "cache_name n \<longleftrightarrow> plain_name n \<and> length n \<le> 255"

definition cache_get :: "fsys \<Rightarrow> fcache \<Rightarrow> string \<Rightarrow> byte list option" where
  "cache_get fs c n = (case map_of fs (entry_path c n) of Some (File d) \<Rightarrow> Some d | _ \<Rightarrow> None)"

lemma cache_dir: "cache_ok fs c \<Longrightarrow> dir_path c \<noteq> []"
  "cache_ok fs c \<Longrightarrow> map_of fs (resolve (dir_path c)) = Some Dir"
  by (simp_all add: cache_ok_def is_dir_def fs_node_dir)

lemma mutex_lock_unlock [simp]: "\<not> mutex_locked c \<Longrightarrow> mutex_unlock (c\<lparr>mutex_locked := True\<rparr>) = c"
  by (cases c) (simp add: mutex_unlock_def)

lemma cache_ok_lock: "cache_ok fs c \<Longrightarrow> mutex_lock c = Ret (c\<lparr>mutex_locked := True\<rparr>)"
  by (simp add: cache_ok_def mutex_lock_def)

lemma cache_path:
  assumes "cache_ok fs c" and "cache_name n"
  shows "path_join (dir_path c) n PATH_MAX = Ret (0, Some (joined (dir_path c) n))"
    and "resolve (joined (dir_path c) n) = entry_path c n"
    and "joined (dir_path c) n \<noteq> []" and "last (joined (dir_path c) n) \<noteq> slash"
proof -
  note d = cache_dir [OF assms(1)]
  have n: "plain_name n" "length n \<le> 255" using assms(2) by (simp_all add: cache_name_def)
  show "path_join (dir_path c) n PATH_MAX = Ret (0, Some (joined (dir_path c) n))"
    using path_join_fits [OF d(1) n(1)] n(2) assms(1) by (simp add: cache_ok_def)
qed (use joined_facts cache_dir(1) [OF assms(1)] assms(2) in \<open>simp_all add: entry_path_def cache_name_def\<close>)

lemma cache_create:
  assumes "cache_ok fs c" and "cache_name n"
  shows "fs_create fs (joined (dir_path c) n) = Inr (AList.update (entry_path c n) (File []) fs)"
  using fs_create_ok [of "joined (dir_path c) n" fs] cache_path [OF assms] cache_dir [OF assms(1)] assms(1)
  by (simp add: entry_path_def cache_ok_def)

lemma cache_ok_put:
  assumes "cache_ok fs c" and "cache_name n"
  shows "cache_ok (AList.update (entry_path c n) (File d) fs) c"
proof -
  have ne: "resolve (dir_path c) \<noteq> entry_path c n" by (simp add: entry_path_def)
  have "list_all plain_name (entry_path c n)"
    using assms wf_fs_plain [OF _ cache_dir(2) [OF assms(1)]] by (simp add: entry_path_def cache_ok_def cache_name_def)
  then have "wf_fs (AList.update (entry_path c n) (File d) fs)"
    using assms cache_dir [OF assms(1)] by (intro wf_fs_put) (auto simp: entry_path_def cache_ok_def)
  then show ?thesis using assms ne by (auto simp: cache_ok_def is_dir_def fs_node_dir)
qed

lemma cache_ok_delete:
  assumes "cache_ok fs c" and "map_of fs (entry_path c n) = Some (File d)"
  shows "cache_ok (AList.delete (entry_path c n) fs) c"
proof -
  have ne: "resolve (dir_path c) \<noteq> entry_path c n" by (simp add: entry_path_def)
  have "wf_fs (AList.delete (entry_path c n) fs)"
    using assms file_no_children by (intro wf_fs_delete) (auto simp: entry_path_def cache_ok_def)
  then show ?thesis using assms ne by (auto simp: cache_ok_def is_dir_def fs_node_dir)
qed

lemma cache_get_put [simp]:
  "cache_get (AList.update (entry_path c n) (File d) fs) c = (cache_get fs c)(n \<mapsto> d)"
  by (auto simp: cache_get_def entry_path_def fun_eq_iff)

lemma cache_get_delete [simp]:
  "cache_get (AList.delete (entry_path c n) fs) c = (cache_get fs c)(n := None)"
  by (auto simp: cache_get_def entry_path_def fun_eq_iff)

lemma fcache_add_new_ok:
  assumes "cache_ok fs c" and "cache_name n" and "d \<noteq> []" and "length d < 2 ^ 32"
  shows "fcache_add_new fs (Some c) (Some n) (Some d) (of_nat (length d)) =
    Ret (0, AList.update (entry_path c n) (File d) fs, Some c)"
proof -
  have u: "unat (of_nat (length d) :: u32) = length d" using assms(4) by (simp add: unat_of_nat)
  then have nz: "(of_nat (length d) :: u32) \<noteq> 0" using assms(3) by (metis length_0_conv unat_0)
  show ?thesis
    using assms(1) cache_path [OF assms(1,2)] cache_ok_lock [OF assms(1)] cache_create [OF assms(1,2)] u nz
    by (simp add: fcache_add_new_def cache_ok_def)
qed

lemma fcache_delete_ok:
  assumes "cache_ok fs c" and "cache_name n"
  shows "fcache_delete fs (Some c) (Some n) =
    (if cache_get fs c n = None then Ret (- ENOENT, fs, Some c)
     else Ret (0, AList.delete (entry_path c n) fs, Some c))"
proof -
  have nd: "map_of fs (entry_path c n) \<noteq> Some Dir" using assms(1) by (simp add: cache_ok_def)
  have "remove_file fs (joined (dir_path c) n) =
      (if cache_get fs c n = None then (- ENOENT, fs) else (0, AList.delete (entry_path c n) fs))"
    using cache_path [OF assms] nd
    by (auto simp: remove_file_def fs_remove_def fs_node_def cache_get_def split: option.splits node.splits)
  then show ?thesis
    using assms(1) cache_path [OF assms] cache_ok_lock [OF assms(1)]
    by (simp add: fcache_delete_def cache_ok_def)
qed


text \<open>Adding a file that the cache may consume moves it into the directory of the cache.\<close>

lemma fcache_add_consume_ok:
  assumes "full_sendfile k" and "is_dir fs (dir_path c)" and "\<not> mutex_locked c" and "fs_node fs src = Some (File d)"
    and "plain_name (basename src)" and "length (dir_path c) + length (basename src) + 1 < PATH_MAX"
    and "map_of fs (entry_path c (basename src)) \<noteq> Some Dir" and "resolve src \<noteq> entry_path c (basename src)"
  shows "\<exists>fs'. fcache_add k fs (Some c) src True = Ret (0, fs', Some c)
    \<and> map_of fs' = (map_of fs)(entry_path c (basename src) \<mapsto> File d, resolve src := None)"
proof -
  have "fs_node fs (dir_path c) = Some Dir" using assms(2) by (simp add: is_dir_def)
  from move_file_result [OF assms(1,4) this assms(5,6)] assms(7,8)
  obtain fs' where "move_file k fs src (dir_path c) = Ret (0, fs')"
    "map_of fs' = (map_of fs)(entry_path c (basename src) \<mapsto> File d, resolve src := None)"
    by (auto simp: entry_path_def)
  with assms(3,4) show ?thesis by (auto simp: fcache_add_def is_file_def fs_open_rd_def mutex_lock_def)
qed


section \<open>The cache as a store of named files\<close>

text \<open>
  The contract the clients of the cache rely on, over any state type: adding makes a name stand
  for the data, deleting makes it stand for nothing and reports an absent name, and neither
  touches another name. What follows from it for whole sequences of operations is proved here
  once, in the locale.
\<close>

datatype ('n, 'd) store_op = Add_op 'n 'd | Del_op 'n

fun spec_op :: "('n \<rightharpoonup> 'd) \<Rightarrow> ('n, 'd) store_op \<Rightarrow> ('n \<rightharpoonup> 'd)" where
  "spec_op m (Add_op n d) = m(n \<mapsto> d)"
| "spec_op m (Del_op n) = m(n := None)"

fun run_ops ::
  "('st \<Rightarrow> 'n \<Rightarrow> 'd \<Rightarrow> (int \<times> 'st) outcome) \<Rightarrow> ('st \<Rightarrow> 'n \<Rightarrow> (int \<times> 'st) outcome) \<Rightarrow>
   'st \<Rightarrow> ('n, 'd) store_op list \<Rightarrow> 'st outcome" where
  "run_ops add del s [] = Ret s"
| "run_ops add del s (Add_op n d # ops) = bind_outcome (add s n d) (\<lambda>(r, s'). run_ops add del s' ops)"
| "run_ops add del s (Del_op n # ops) = bind_outcome (del s n) (\<lambda>(r, s'). run_ops add del s' ops)"

fun valid_op :: "('n \<Rightarrow> bool) \<Rightarrow> ('d \<Rightarrow> bool) \<Rightarrow> ('n, 'd) store_op \<Rightarrow> bool" where
  "valid_op vn vd (Add_op n d) \<longleftrightarrow> vn n \<and> vd d"
| "valid_op vn vd (Del_op n) \<longleftrightarrow> vn n"

locale file_store =
  fixes get :: "'st \<Rightarrow> 'n \<Rightarrow> 'd option"
    and add :: "'st \<Rightarrow> 'n \<Rightarrow> 'd \<Rightarrow> (int \<times> 'st) outcome"
    and del :: "'st \<Rightarrow> 'n \<Rightarrow> (int \<times> 'st) outcome"
    and ok :: "'st \<Rightarrow> bool"
    and valid_name :: "'n \<Rightarrow> bool"
    and valid_data :: "'d \<Rightarrow> bool"
  assumes add_spec: "ok s \<Longrightarrow> valid_name n \<Longrightarrow> valid_data d \<Longrightarrow>
      \<exists>s'. add s n d = Ret (0, s') \<and> ok s' \<and> get s' = (get s)(n \<mapsto> d)"
    and del_present: "ok s \<Longrightarrow> valid_name n \<Longrightarrow> get s n \<noteq> None \<Longrightarrow>
      \<exists>s'. del s n = Ret (0, s') \<and> ok s' \<and> get s' = (get s)(n := None)"
    and del_absent: "ok s \<Longrightarrow> valid_name n \<Longrightarrow> get s n = None \<Longrightarrow> \<exists>r < 0. del s n = Ret (r, s)"
begin

lemma del_spec: "ok s \<Longrightarrow> valid_name n \<Longrightarrow> \<exists>r s'. del s n = Ret (r, s') \<and> ok s' \<and> get s' = (get s)(n := None)"
  using del_present [of s n] del_absent [of s n] by (cases "get s n = None") (auto simp: fun_upd_idem)

lemma run_refines:
  "ok s \<Longrightarrow> list_all (valid_op valid_name valid_data) ops \<Longrightarrow>
     \<exists>s'. run_ops add del s ops = Ret s' \<and> ok s' \<and> get s' = foldl spec_op (get s) ops"
proof (induction ops arbitrary: s)
  case (Cons op ops)
  have ops: "list_all (valid_op valid_name valid_data) ops" using Cons.prems(2) by simp
  show ?case
  proof (cases op)
    case (Add_op n d)
    then obtain s' where "add s n d = Ret (0, s')" "ok s'" "get s' = (get s)(n \<mapsto> d)"
      using add_spec [of s n d] Cons.prems by auto
    moreover from this obtain t where "run_ops add del s' ops = Ret t" "ok t" "get t = foldl spec_op (get s') ops"
      using Cons.IH [of s'] ops by blast
    ultimately show ?thesis by (simp add: Add_op)
  next
    case (Del_op n)
    then obtain r s' where "del s n = Ret (r, s')" "ok s'" "get s' = (get s)(n := None)"
      using del_spec [of s n] Cons.prems by auto
    moreover from this obtain t where "run_ops add del s' ops = Ret t" "ok t" "get t = foldl spec_op (get s') ops"
      using Cons.IH [of s'] ops by blast
    ultimately show ?thesis by (simp add: Del_op)
  qed
qed simp

end

text \<open>The operations of the cache in the shape of the contract.\<close>

definition store_get :: "fsys \<times> fcache \<Rightarrow> string \<Rightarrow> byte list option" where
  "store_get st = cache_get (fst st) (snd st)"

definition with_cache :: "(int \<times> fsys \<times> fcache option) outcome \<Rightarrow> (int \<times> (fsys \<times> fcache)) outcome" where
  "with_cache m = bind_outcome m
     (\<lambda>(r, fs, c). case c of None \<Rightarrow> Fault Null_pointer | Some c' \<Rightarrow> Ret (r, (fs, c')))"

definition store_add :: "fsys \<times> fcache \<Rightarrow> string \<Rightarrow> byte list \<Rightarrow> (int \<times> (fsys \<times> fcache)) outcome" where
  "store_add st n d =
     with_cache (fcache_add_new (fst st) (Some (snd st)) (Some n) (Some d) (of_nat (length d)))"

definition store_del :: "fsys \<times> fcache \<Rightarrow> string \<Rightarrow> (int \<times> (fsys \<times> fcache)) outcome" where
  "store_del st n = with_cache (fcache_delete (fst st) (Some (snd st)) (Some n))"

definition file_data_ok :: "byte list \<Rightarrow> bool" where
  "file_data_ok d \<longleftrightarrow> d \<noteq> [] \<and> length d < 2 ^ 32"

interpretation cache: file_store store_get store_add store_del "\<lambda>st. cache_ok (fst st) (snd st)" cache_name file_data_ok
proof
  fix s :: "fsys \<times> fcache" and n d
  assume "cache_ok (fst s) (snd s)" "cache_name n" "file_data_ok d"
  then show "\<exists>s'. store_add s n d = Ret (0, s') \<and> cache_ok (fst s') (snd s') \<and> store_get s' = (store_get s)(n \<mapsto> d)"
    using cache_ok_put
    by (auto simp: store_add_def store_get_def with_cache_def file_data_ok_def fcache_add_new_ok)
next
  fix s :: "fsys \<times> fcache" and n
  assume ok: "cache_ok (fst s) (snd s)" "cache_name n" and "store_get s n \<noteq> None"
  then obtain d where "map_of (fst s) (entry_path (snd s) n) = Some (File d)"
    by (auto simp: store_get_def cache_get_def split: option.splits node.splits)
  with ok \<open>store_get s n \<noteq> None\<close>
  show "\<exists>s'. store_del s n = Ret (0, s') \<and> cache_ok (fst s') (snd s') \<and> store_get s' = (store_get s)(n := None)"
    using cache_ok_delete by (auto simp: store_del_def store_get_def with_cache_def fcache_delete_ok)
next
  fix s :: "fsys \<times> fcache" and n
  assume "cache_ok (fst s) (snd s)" "cache_name n" and "store_get s n = None"
  then show "\<exists>r < 0. store_del s n = Ret (r, s)"
    by (auto simp: store_del_def store_get_def with_cache_def fcache_delete_ok ENOENT_def)
qed

text \<open>
  C4: any sequence of \<^verbatim>\<open>fcache_add_new\<close> and \<^verbatim>\<open>fcache_delete\<close> calls on a usable cache runs to its end,
  leaves the cache usable with its mutex free, and has on the contents of the cache exactly the
  effect of the same updates on a finite map from names to data.
\<close>

theorem fcache_refines_map:
  assumes "cache_ok fs c" and "list_all (valid_op cache_name file_data_ok) ops"
  shows "\<exists>fs' c'. run_ops store_add store_del (fs, c) ops = Ret (fs', c') \<and> cache_ok fs' c'
    \<and> cache_get fs' c' = foldl spec_op (cache_get fs c) ops"
  using cache.run_refines [of "(fs, c)" ops] assms by (auto simp: store_get_def)

theorem fcache_refines_map_witness:
  "\<exists>fs' c'. run_ops store_add store_del
       ([([], Dir), ([''c''], Dir)], \<lparr>dir_path = ''/c'', mutex_locked = False\<rparr>)
       [Add_op ''a'' [1], Add_op ''b'' [2], Del_op ''a''] = Ret (fs', c')
     \<and> cache_get fs' c' ''a'' = None \<and> cache_get fs' c' ''b'' = Some [2]"
proof -
  let ?fs = "[([], Dir), ([''c''], Dir)] :: fsys"
  let ?c = "\<lparr>dir_path = ''/c'', mutex_locked = False\<rparr> :: fcache"
  have "resolve ''/c'' = [''c'']" by (simp add: resolve_def path_push_def)
  then have "cache_ok ?fs ?c"
    by (auto simp: cache_ok_def wf_fs_def plain_name_def nul_def is_dir_def fs_node_def PATH_MAX_def entry_path_def)
  then show ?thesis
    using fcache_refines_map [of ?fs ?c "[Add_op ''a'' [1], Add_op ''b'' [2], Del_op ''a'']"]
    by (auto simp: cache_name_def plain_name_def nul_def file_data_ok_def)
qed


section \<open>Correctness of the listing\<close>

definition json_quote :: "string \<Rightarrow> string" where
  "json_quote n = CHR 0x22 # n @ [CHR 0x22]"

text \<open>The array the listing promises.\<close>

fun json_array :: "string list \<Rightarrow> string" where
  "json_array [] = ''[]''"
| "json_array (n # ns) = ''['' @ json_quote n @ concat (map (\<lambda>m. '', '' @ json_quote m) ns) @ '']''"

text \<open>What one round of the loop appends to the text built so far.\<close>

definition json_step :: "string \<Rightarrow> string \<Rightarrow> string" where
  "json_step t n = (if length t = 1 then t @ json_quote n else t @ '', '' @ json_quote n)"

lemma length_json_step:
  "length (json_step t n) = length t + length n + (if length t = 1 then 2 else 4)"
  by (simp add: json_step_def json_quote_def)

lemma json_steps_cons:
  "1 < length t \<Longrightarrow> foldl json_step t ns = t @ concat (map (\<lambda>m. '', '' @ json_quote m) ns)"
  by (induction ns arbitrary: t) (auto simp: json_step_def)

lemma json_array_steps: "json_array ns = foldl json_step ''['' ns @ '']''"
  by (cases ns) (auto simp: json_steps_cons json_step_def json_quote_def)

lemma length_json_steps: "length t \<le> length (foldl json_step t ns)"
proof (induction ns arbitrary: t)
  case (Cons n ns)
  have "length t \<le> length (json_step t n)" by (simp add: length_json_step)
  with Cons [of "json_step t n"] show ?case by simp
qed simp

lemma json_grow_ok:
  assumes "malloc_ok = (\<lambda>_. True)" and "need \<le> 8192"
  shows "sz = 256 * 2 ^ i \<Longrightarrow> i \<le> 5 \<Longrightarrow> 5 - i < fuel \<Longrightarrow>
    \<exists>j \<ge> i. j \<le> 5 \<and> need \<le> 256 * 2 ^ j
      \<and> json_grow malloc_ok junk fuel buf sz need = Ret (buf @ replicate (256 * 2 ^ j - sz) junk, 256 * 2 ^ j)"
proof (induction fuel arbitrary: i sz buf)
  case (Suc fuel)
  show ?case
  proof (cases "sz < need")
    case True
    then have "i \<noteq> 5" using assms(2) Suc.prems by auto
    then have i: "i \<le> 4" using Suc.prems by simp
    then have "(2 ^ i :: nat) \<le> 2 ^ 4" by (intro power_increasing) auto
    then have lim: "sz * 2 \<le> 10024" using Suc.prems(1) by simp
    have "5 - Suc i < fuel" "Suc i \<le> 5" "sz * 2 = 256 * 2 ^ Suc i" using Suc.prems i by simp_all
    then obtain j where j: "Suc i \<le> j" "j \<le> 5" "need \<le> 256 * 2 ^ j"
      "json_grow malloc_ok junk fuel (buf @ replicate sz junk) (sz * 2) need
         = Ret ((buf @ replicate sz junk) @ replicate (256 * 2 ^ j - sz * 2) junk, 256 * 2 ^ j)"
      using Suc.IH [of "sz * 2" "Suc i" "buf @ replicate sz junk"] by blast
    have "(2 ^ Suc i :: nat) \<le> 2 ^ j" using j(1) by (intro power_increasing) auto
    then have "sz + (256 * 2 ^ j - sz * 2) = 256 * 2 ^ j - sz" using Suc.prems(1) by simp
    then have "replicate sz junk @ replicate (256 * 2 ^ j - sz * 2) junk = replicate (256 * 2 ^ j - sz) junk"
      by (simp add: replicate_add [symmetric])
    with j lim True assms(1) show ?thesis by (intro exI [of _ j]) simp
  next
    case False
    with Suc.prems show ?thesis by (intro exI [of _ i]) simp
  qed
qed simp

text \<open>The fuel is never what ends the growing: either the name fits, or the limit stops it.\<close>

lemma json_grow_enough_fuel:
  "sz = 256 * 2 ^ i \<Longrightarrow> i \<le> 6 \<Longrightarrow> 6 - i < fuel \<Longrightarrow> json_grow malloc_ok junk fuel buf sz need \<noteq> Fault Out_of_fuel"
proof (induction fuel arbitrary: i sz buf)
  case (Suc fuel)
  have "\<not> sz * 2 \<le> 10024" if "i = 6" using that Suc.prems by simp
  moreover have "json_grow malloc_ok junk fuel (buf @ replicate sz junk) (sz * 2) need \<noteq> Fault Out_of_fuel" if "i \<noteq> 6"
    using that Suc.prems by (intro Suc.IH [of _ "Suc i"]) auto
  ultimately show ?case by (auto simp: not_less)
qed simp

lemma strcat_region_ok:
  assumes "is_cstr t" and "length s \<le> length rest"
  shows "strcat_region (t @ nul # rest) s = Ret (t @ s @ nul # drop (length s) rest)"
proof -
  obtain m where "length rest = length s + m" using assms(2) le_Suc_ex by blast
  then show ?thesis using assms by (simp add: strcat_region_def read_cstr_def)
qed

lemma append_char:
  assumes "0 < length rest"
  shows "bind_outcome (poke (t @ nul # rest) (length t) [c]) (\<lambda>b. poke b (length t + 1) [nul])
    = Ret (t @ [c] @ nul # drop 1 rest)"
  using assms by (cases rest) simp_all


text \<open>
  The state of the loop over a text: the buffer holds the text and its terminator, and its size is
  one of the sizes reached by doubling.
\<close>

definition json_inv :: "char list \<times> nat \<times> nat \<Rightarrow> string \<Rightarrow> bool" where
  "json_inv st t \<longleftrightarrow> (case st of (buf, sz, offset) \<Rightarrow>
     is_cstr t \<and> t \<noteq> [] \<and> offset = length t \<and> length buf = sz \<and> (\<exists>rest. buf = t @ nul # rest)
     \<and> (\<exists>i \<le> 5. sz = 256 * 2 ^ i))"

lemma json_entry_ok:
  assumes inv: "json_inv st t" and n: "is_cstr n" and mem: "malloc_ok = (\<lambda>_. True)"
    and need: "length t + length n + 5 \<le> 8192"
  shows "\<exists>st'. json_entry malloc_ok junk n st = Ret st' \<and> json_inv st' (json_step t n)"
proof -
  obtain buf sz rest i where st: "st = (buf, sz, length t)" and buf: "buf = t @ nul # rest" "length buf = sz"
    and t: "is_cstr t" "t \<noteq> []" and i: "i \<le> 5" "sz = 256 * 2 ^ i"
    using inv by (cases st) (auto simp: json_inv_def)
  have fuel: "5 - i < 8" by simp
  obtain j where j: "j \<le> 5" "length t + length n + 5 \<le> 256 * 2 ^ j"
    "json_grow malloc_ok junk 8 buf sz (length t + length n + 5)
       = Ret (buf @ replicate (256 * 2 ^ j - sz) junk, 256 * 2 ^ j)" "i \<le> j"
    using json_grow_ok [OF mem need i(2,1), of 8 junk buf] fuel by blast
  define rest1 where "rest1 = rest @ replicate (256 * 2 ^ j - sz) junk"
  have "(2 ^ i :: nat) \<le> 2 ^ j" using j(4) by (intro power_increasing) auto
  then have "256 * 2 ^ i \<le> (256 * 2 ^ j :: nat)" by linarith
  then have "sz \<le> 256 * 2 ^ j" using i(2) by (simp only:)
  then have len: "length (t @ nul # rest1) = 256 * 2 ^ j" using buf by (simp add: rest1_def)
  have room: "length n + 4 \<le> length rest1" using len j(2) by simp
  have grow: "json_grow malloc_ok junk 8 buf sz (length t + length n + 5) = Ret (t @ nul # rest1, 256 * 2 ^ j)"
    using j(3) buf by (simp add: rest1_def)
  define sep where "sep = (if length t = 1 then [CHR 0x22] else [CHR '','', CHR '' '', CHR 0x22])"
  have sep: "length sep \<le> 3" "is_cstr sep" "json_step t n = t @ sep @ n @ [CHR 0x22]"
    by (auto simp: sep_def json_step_def json_quote_def nul_def)
  obtain r1 where r1: "drop (length sep) rest1 = r1" "length n + 1 \<le> length r1" using room sep by simp
  obtain r2 where r2: "drop (length n) r1 = r2" "0 < length r2" using r1 by simp
  have "(if length t = 1
        then bind_outcome (poke (t @ nul # rest1) 1 [CHR 0x22]) (\<lambda>b.
             bind_outcome (poke b 2 [nul]) (\<lambda>b'. Ret (b', length t + 1)))
        else bind_outcome (strcat_region (t @ nul # rest1) [CHR '','', CHR '' '', CHR 0x22]) (\<lambda>b.
             Ret (b, length t + 3)))
      = Ret (t @ sep @ nul # r1, length (t @ sep))"
  proof (cases "length t = 1")
    case True
    then obtain c where "t = [c]" by (cases t) auto
    with room r1 show ?thesis by (cases rest1) (auto simp: sep_def)
  next
    case False
    then show ?thesis using strcat_region_ok [OF t(1), of sep rest1] room r1 sep by (simp add: sep_def)
  qed
  moreover have "strcat_region ((t @ sep) @ nul # r1) n = Ret ((t @ sep @ n) @ nul # r2)"
    using strcat_region_ok [of "t @ sep" n r1] t sep r1 r2 by simp
  moreover have "bind_outcome (poke ((t @ sep @ n) @ nul # r2) (length (t @ sep @ n)) [CHR 0x22])
      (\<lambda>b. bind_outcome (poke b (length (t @ sep @ n) + 1) [nul]) (\<lambda>b'. Ret (b', sz', length (t @ sep @ n) + 1)))
      = Ret (json_step t n @ nul # drop 1 r2, sz', length (json_step t n))" for sz' :: nat
    using append_char [OF r2(2), of "t @ sep @ n" "CHR 0x22"] sep(3)
    by (simp flip: bind_outcome_assoc)
  ultimately have "json_entry malloc_ok junk n st
      = Ret (json_step t n @ nul # drop 1 r2, 256 * 2 ^ j, length (json_step t n))"
    unfolding json_entry_def st prod.case grow bind_outcome.simps Let_def by (simp add: add.assoc)
  moreover have "length (json_step t n @ nul # drop 1 r2) = 256 * 2 ^ j"
    using len r1 r2 room sep by (auto simp: sep(3))
  ultimately show ?thesis using t n sep j(1) by (auto simp: json_inv_def nul_def)
qed

lemma json_loop_ok:
  assumes "malloc_ok = (\<lambda>_. True)"
  shows "json_inv st t \<Longrightarrow> \<forall>n \<in> set ns. plain_name n \<Longrightarrow> length (foldl json_step t ns) + 3 \<le> 8192 \<Longrightarrow>
    \<exists>st'. json_loop malloc_ok junk ns st = Ret st' \<and> json_inv st' (foldl json_step t ns)"
proof (induction ns arbitrary: st t)
  case (Cons n ns)
  have n: "is_cstr n" "\<not> is_dot_entry n" using Cons.prems(2) plain_not_dot_entry by (auto simp: plain_name_def)
  have "length (json_step t n) \<le> length (foldl json_step (json_step t n) ns)" by (rule length_json_steps)
  then have "length t + length n + 5 \<le> 8192" using Cons.prems(3) by (simp add: length_json_step split: if_splits)
  then obtain st' where "json_entry malloc_ok junk n st = Ret st'" "json_inv st' (json_step t n)"
    using json_entry_ok [OF Cons.prems(1) n(1) assms] by blast
  moreover have "\<exists>st''. json_loop malloc_ok junk ns st' = Ret st'' \<and> json_inv st'' (foldl json_step (json_step t n) ns)"
    using Cons.prems calculation(2) by (intro Cons.IH) auto
  ultimately show ?case using n by auto
qed simp

text \<open>
  The listing of a usable cache is the JSON array of the names in it, in directory order, as long
  as its text is shorter than 8190 characters and its length is not one of the buffer sizes,
  and the mutex is free afterwards.
\<close>

lemma fcache_list_files_as_json_correct:
  assumes "cache_ok fs c" and "malloc_ok = (\<lambda>_. True)"
    and "names = children fs (resolve (dir_path c))"
    and "length (json_array names) < 8190" and "length (json_array names) \<notin> {256, 512, 1024, 2048, 4096}"
  shows "\<exists>buf. fcache_list_files_as_json malloc_ok junk fs (Some c) = Ret (Some buf, Some c)
    \<and> read_cstr buf = Ret (json_array names)"
proof -
  let ?t = "foldl json_step ''['' names"
  have wf: "wf_fs fs" "is_dir fs (dir_path c)" "\<not> mutex_locked c" using assms(1) by (simp_all add: cache_ok_def)
  have plain: "\<forall>n \<in> set names. plain_name n" using wf_fs_children_plain [OF wf(1)] assms(3) by blast
  have "poke (replicate 256 junk) 0 [CHR ''['', nul] = Ret (''['' @ nul # replicate 254 junk)"
    by (simp add: poke_def numeral_eq_Suc)
  note init = this
  have inv0: "json_inv (''['' @ nul # replicate 254 junk, 256, 1) ''[''"
    by (auto simp: json_inv_def nul_def intro: exI [of _ 0])
  have "length ?t + 3 \<le> 8192" using assms(4) by (simp add: json_array_steps)
  then obtain st where loop: "json_loop malloc_ok junk names (''['' @ nul # replicate 254 junk, 256, 1) = Ret st"
    and inv: "json_inv st ?t"
    using json_loop_ok [OF assms(2) inv0 plain] by blast
  obtain buf sz where st: "st = (buf, sz, length ?t)" using inv by (cases st) (simp add: json_inv_def)
  obtain rest i where buf: "buf = ?t @ nul # rest" "length buf = sz" "is_cstr ?t" "i \<le> 5" "sz = 256 * 2 ^ i"
    using inv st by (auto simp: json_inv_def)
  have "i \<in> {0, 1, 2, 3, 4, 5}" using buf(4) by auto
  then have "sz \<noteq> length ?t + 1" using assms(4,5) buf(5) by (auto simp: json_array_steps)
  then have "0 < length rest" using buf(1,2) by (cases rest) auto
  note close = append_char [OF this, of ?t "CHR '']''"]
  have "bind_outcome (poke buf (length ?t) [CHR '']'']) (\<lambda>b2. bind_outcome (poke b2 (length ?t + 1) [nul])
      (\<lambda>b3. Ret (Some b3, Some c))) = Ret (Some (json_array names @ nul # drop 1 rest), Some c)"
    unfolding bind_outcome_assoc [symmetric] using close buf(1) by (simp add: json_array_steps)
  moreover have "is_cstr (json_array names)" using buf(3) by (simp add: json_array_steps nul_def)
  then have "read_cstr (json_array names @ nul # drop 1 rest) = Ret (json_array names)"
    by (simp add: read_cstr_def)
  ultimately show ?thesis
    using wf loop [unfolded st] init cache_ok_lock [OF assms(1)] assms(2,3)
    by (simp add: fcache_list_files_as_json_def readdir_names_def)
qed

lemma fcache_list_files_as_json_correct_witness:
  "\<exists>buf. fcache_list_files_as_json (\<lambda>_. True) CHR ''x''
       [([], Dir), ([''c''], Dir), ([''c'', ''a''], File [1]), ([''c'', ''b''], File [2])]
       (Some \<lparr>dir_path = ''/c'', mutex_locked = False\<rparr>)
     = Ret (Some buf, Some \<lparr>dir_path = ''/c'', mutex_locked = False\<rparr>)
   \<and> read_cstr buf = Ret [CHR ''['', CHR 0x22, CHR ''a'', CHR 0x22, CHR '','', CHR '' '', CHR 0x22, CHR ''b'', CHR 0x22, CHR '']'']"
proof -
  let ?fs = "[([], Dir), ([''c''], Dir), ([''c'', ''a''], File [1]), ([''c'', ''b''], File [2])] :: fsys"
  let ?c = "\<lparr>dir_path = ''/c'', mutex_locked = False\<rparr> :: fcache"
  have r: "resolve ''/c'' = [''c'']" by (simp add: resolve_def path_push_def)
  then have ok: "cache_ok ?fs ?c"
    by (auto simp: cache_ok_def wf_fs_def plain_name_def nul_def is_dir_def fs_node_def PATH_MAX_def entry_path_def)
  have "children ?fs (resolve (dir_path ?c)) = [''a'', ''b'']" by (simp add: r children_def)
  then show ?thesis
    using fcache_list_files_as_json_correct [OF ok refl refl, of "CHR ''x''"] by (simp add: json_quote_def)
qed



end
