(* ===== verification/Od_Ext.thy ===== *)
theory Od_Ext
  imports Fcache
begin

text \<open>
  Model of \<^verbatim>\<open>src/od_extensions/od_ext.c\<close>: the four helpers with which the object dictionary
  extensions serve a variable from a buffer or from a file, over as many calls as the peer needs.
  The width of \<^verbatim>\<open>OD_size_t\<close> is the type parameter \<open>'s\<close>, the CANopen stack fixes it. The contract of a
  segmented transfer is stated as two locales, one for each direction, and each is
  interpreted on the buffer version and on the file version.
\<close>

section \<open>The interface types of the object dictionary\<close>

datatype ODR = ODR_OK | ODR_PARTIAL | ODR_DEV_INCOMPAT | ODR_NO_DATA | ODR_DATA_LONG
  | ODR_SUB_NOT_EXIST | ODR_READONLY | ODR_WRITEONLY | ODR_DATA_LOC_CTRL

record 'w od_stream =
  dataOffset :: 'w
  dataLength :: 'w
  subIndex :: byte

section \<open>The helpers\<close>

text \<open>
  The part all four helpers share: how much of a variable of \<open>len\<close> cells this call
  transfers when the peer takes or brings \<open>count\<close> of them, and where it starts. The result is the return
  code, the stream, \<^verbatim>\<open>dataLenToCopy\<close>, \<^verbatim>\<open>dataLenRemain\<close> and the start; \<open>None\<close> is the size error.
\<close>

definition segment :: "'s::len word od_stream \<Rightarrow> 's word \<Rightarrow> 's word \<Rightarrow>
    (ODR \<times> 's word od_stream \<times> 's word \<times> 's word \<times> nat) option" where
  "segment s len count =
     (if dataOffset s > 0 \<or> len > count then
        if dataOffset s \<ge> len then None
        else
          let remain = len - dataOffset s; start = unat (dataOffset s) in
          if remain > count
          then Some (ODR_PARTIAL, s\<lparr>dataOffset := dataOffset s + count\<rparr>, count, remain, start)
          else Some (ODR_OK, s\<lparr>dataOffset := 0\<rparr>, remain, remain, start)
      else Some (ODR_OK, s, len, len, 0))"

text \<open>
  \<^verbatim>\<open>countRead\<close>, \<^verbatim>\<open>countWritten\<close> and \<^verbatim>\<open>dataWritten\<close> are pointers: an option is the pointer, null or with
  the value behind it.
\<close>

definition od_ext_read_data ::
  "'s::len word od_stream option \<Rightarrow> 'c list option \<Rightarrow> 's word \<Rightarrow> 's word option \<Rightarrow> 'c list option \<Rightarrow> nat \<Rightarrow>
   (ODR \<times> 's word od_stream option \<times> 'c list option \<times> 's word option) outcome" where
  "od_ext_read_data stream buf count countRead data dataLen = (case (stream, buf, countRead) of
       (Some s, Some b, Some cr) \<Rightarrow>
         (case data of
            None \<Rightarrow> Ret (ODR_NO_DATA, stream, buf, countRead)
          | Some d \<Rightarrow>
              let s1 = (if dataOffset s = 0 then s\<lparr>dataLength := of_nat dataLen\<rparr> else s) in
              case segment s1 (of_nat dataLen) count of
                None \<Rightarrow> Ret (ODR_DEV_INCOMPAT, Some s1, buf, countRead)
              | Some (code, s2, n, remain, start) \<Rightarrow>
                  bind_outcome (peek d start (unat n)) (\<lambda>bs.
                  bind_outcome (poke b 0 bs) (\<lambda>b'.
                  Ret (code, Some s2, Some b', Some n))))
     | _ \<Rightarrow> Ret (ODR_DEV_INCOMPAT, stream, buf, countRead))"

definition od_ext_write_data ::
  "'s::len word od_stream option \<Rightarrow> 'c list option \<Rightarrow> 's word \<Rightarrow> 's word option \<Rightarrow> 'c list option \<Rightarrow> nat \<Rightarrow> nat option \<Rightarrow>
   (ODR \<times> 's word od_stream option \<times> 's word option \<times> 'c list option \<times> nat option) outcome" where
  "od_ext_write_data stream buf count countWritten data dataMaxLen dataWritten = (case (stream, buf, countWritten) of
       (Some s, Some b, Some cw) \<Rightarrow>
         if unat (dataLength s) > dataMaxLen then Ret (ODR_DEV_INCOMPAT, stream, countWritten, data, dataWritten)
         else (case data of
            None \<Rightarrow> Ret (ODR_SUB_NOT_EXIST, stream, countWritten, data, dataWritten)
          | Some d \<Rightarrow>
             (case segment s (dataLength s) count of
                None \<Rightarrow> Ret (ODR_DEV_INCOMPAT, stream, countWritten, data, dataWritten)
              | Some (code, s2, n, remain, start) \<Rightarrow>
                  if n < count then Ret (ODR_DATA_LONG, Some s2, countWritten, data, dataWritten)
                  else if n \<le> remain \<and> n \<le> count then
                    bind_outcome (peek b 0 (unat n)) (\<lambda>bs.
                    bind_outcome (poke d start bs) (\<lambda>d'.
                    Ret (code, Some s2, Some n, Some d',
                         if dataOffset s2 = 0 \<and> dataWritten \<noteq> None
                         then Some (unat (dataLength s2)) else dataWritten)))
                  else Ret (ODR_DEV_INCOMPAT, Some s2, countWritten, data, dataWritten)))
     | _ \<Rightarrow> Ret (ODR_DEV_INCOMPAT, stream, countWritten, data, dataWritten))"

text \<open>
  \<open>fp\<close> is a pointer to a \<^verbatim>\<open>FILE\<close> pointer: the outer option is the pointer itself, the inner one what
  it points to. The reading helper does not test \<open>fp\<close> and looks through it at once.
\<close>

definition fclose :: "fhandle option option \<Rightarrow> fhandle option option outcome" where
  "fclose fp = (case fp of Some (Some h) \<Rightarrow> Ret (Some None) | _ \<Rightarrow> Fault Null_pointer)"

text \<open>The end of a file as \<^verbatim>\<open>ftell\<close> reports it; for a directory it is what the kernel says.\<close>

definition end_position :: "kern \<Rightarrow> node \<Rightarrow> nat" where
  "end_position k n = (case n of File d \<Rightarrow> length d | Dir \<Rightarrow> dir_size_k k)"

type_synonym 's read_file_result =
  "ODR \<times> 's od_stream option \<times> byte list option \<times> 's option \<times> fhandle option option"

definition read_file_open ::
  "kern \<Rightarrow> fsys \<Rightarrow> 's::len word od_stream \<Rightarrow> string \<Rightarrow> fhandle option option \<Rightarrow>
   ((ODR \<times> 's word od_stream \<times> fhandle option option) + ('s word od_stream \<times> fhandle option option)) outcome" where
  "read_file_open k fs s file_path fp = (case fp of
       None \<Rightarrow> Fault Null_pointer
     | Some _ \<Rightarrow>
         (case fs_open_rd fs file_path of
            Inl e \<Rightarrow> Ret (Inl (ODR_DEV_INCOMPAT, s, Some None))
          | Inr node \<Rightarrow>
              let s1 = s\<lparr>dataLength := of_nat (end_position k node)\<rparr> in
              if dataLength s1 = 0 then Ret (Inl (ODR_NO_DATA, s1, Some None))
              else Ret (Inr (s1, Some (Some \<lparr>fh_path = resolve file_path, fh_pos = 0\<rparr>)))))"

definition read_file_segment ::
  "fsys \<Rightarrow> 's::len word od_stream \<Rightarrow> byte list \<Rightarrow> 's word \<Rightarrow> 's word \<Rightarrow> fhandle option option \<Rightarrow>
   's word read_file_result outcome" where
  "read_file_segment fs s b count cr fp = (case segment s (dataLength s) count of
       None \<Rightarrow> bind_outcome (fclose fp) (\<lambda>fp'. Ret (ODR_DEV_INCOMPAT, Some s, Some b, Some cr, fp'))
     | Some (code, s2, n, remain, start) \<Rightarrow>
         (case fp of
            None \<Rightarrow> Ret (code, Some s2, Some b, Some n, None)
          | Some None \<Rightarrow> Fault Null_pointer
          | Some (Some h) \<Rightarrow>
              bind_outcome (fread fs h b (unat n)) (\<lambda>(b', h').
              Ret (code, Some s2, Some b', Some n, Some (if code \<noteq> ODR_PARTIAL then None else Some h')))))"

definition od_ext_read_file ::
  "kern \<Rightarrow> fsys \<Rightarrow> 's::len word od_stream option \<Rightarrow> byte list option \<Rightarrow> 's word \<Rightarrow> 's word option \<Rightarrow>
   string option \<Rightarrow> fhandle option option \<Rightarrow> 's word read_file_result outcome" where
  "od_ext_read_file k fs stream buf count countRead file_path fp = (case (stream, buf, countRead, file_path) of
       (Some s, Some b, Some cr, Some p) \<Rightarrow>
         if dataOffset s = 0 then
           bind_outcome (read_file_open k fs s p fp) (\<lambda>r. case r of
               Inl (code, s1, fp1) \<Rightarrow> Ret (code, Some s1, buf, countRead, fp1)
             | Inr (s1, fp1) \<Rightarrow> read_file_segment fs s1 b count cr fp1)
         else read_file_segment fs s b count cr fp
     | _ \<Rightarrow> Ret (ODR_DEV_INCOMPAT, stream, buf, countRead, fp))"

type_synonym 's write_file_result =
  "ODR \<times> fsys \<times> 's od_stream option \<times> 's option \<times> fhandle option option"

definition write_file_segment ::
  "fsys \<Rightarrow> 's::len word od_stream \<Rightarrow> byte list \<Rightarrow> 's word \<Rightarrow> 's word \<Rightarrow> fhandle option option \<Rightarrow>
   's word write_file_result outcome" where
  "write_file_segment fs s b count cw fp = (case segment s (dataLength s) count of
       None \<Rightarrow> bind_outcome (fclose fp) (\<lambda>fp'. Ret (ODR_DEV_INCOMPAT, fs, Some s, Some cw, fp'))
     | Some (code, s2, n, remain, start) \<Rightarrow>
         if n < count then
           bind_outcome (fclose fp) (\<lambda>fp'. Ret (ODR_DATA_LONG, fs, Some s2, Some cw, fp'))
         else if n \<le> remain \<and> n \<le> count then
           (case fp of
              Some (Some h) \<Rightarrow>
                bind_outcome (fwrite fs h b (unat n)) (\<lambda>(fs', h').
                Ret (code, fs', Some s2, Some n, Some (if code \<noteq> ODR_PARTIAL then None else Some h')))
            | _ \<Rightarrow> Ret (code, fs, Some s2, Some n, fp))
         else bind_outcome (fclose fp) (\<lambda>fp'. Ret (ODR_DEV_INCOMPAT, fs, Some s2, Some cw, fp')))"

definition od_ext_write_file ::
  "fsys \<Rightarrow> 's::len word od_stream option \<Rightarrow> byte list option \<Rightarrow> 's word \<Rightarrow> 's word option \<Rightarrow>
   string option \<Rightarrow> fhandle option option \<Rightarrow> 's word write_file_result outcome" where
  "od_ext_write_file fs stream buf count countWritten file_path fp = (case (stream, buf, countWritten, file_path, fp) of
       (Some s, Some b, Some cw, Some p, Some f) \<Rightarrow>
         if dataOffset s = 0 then
           (case fs_create fs p of
              Inl e \<Rightarrow> Ret (ODR_DEV_INCOMPAT, fs, stream, countWritten, Some None)
            | Inr fs1 \<Rightarrow>
                write_file_segment fs1 s b count cw (Some (Some \<lparr>fh_path = resolve p, fh_pos = 0\<rparr>)))
         else write_file_segment fs s b count cw fp
     | _ \<Rightarrow> Ret (ODR_DEV_INCOMPAT, fs, stream, countWritten, fp))"

section \<open>The arithmetic of a segment\<close>

lemma segment_more:
  fixes s :: "'s::len word od_stream"
  assumes "unat (dataOffset s) + unat count < unat len"
  shows "segment s len count = Some (ODR_PARTIAL, s\<lparr>dataOffset := dataOffset s + count\<rparr>, count,
           len - dataOffset s, unat (dataOffset s))"
    and "unat (dataOffset s + count) = unat (dataOffset s) + unat count"
    and "count \<le> len - dataOffset s"
proof -
  have "dataOffset s < len" using assms by (simp add: word_less_nat_alt)
  then have rem: "unat (len - dataOffset s) = unat len - unat (dataOffset s)" by (simp add: unat_sub order_less_imp_le)
  have "count < len" "count < len - dataOffset s" using assms rem by (simp_all add: word_less_nat_alt)
  with \<open>dataOffset s < len\<close>
  show "segment s len count = Some (ODR_PARTIAL, s\<lparr>dataOffset := dataOffset s + count\<rparr>, count,
      len - dataOffset s, unat (dataOffset s))"
    by (auto simp: segment_def)
  show "count \<le> len - dataOffset s" using \<open>count < len - dataOffset s\<close> by simp
  have "unat len < 2 ^ LENGTH('s)" by (rule unsigned_less)
  then show "unat (dataOffset s + count) = unat (dataOffset s) + unat count"
    using assms by (intro unat_add_lem [THEN iffD1]) linarith
qed

lemma segment_last:
  fixes s :: "'s::len word od_stream"
  assumes "unat (dataOffset s) < unat len" and "unat len \<le> unat (dataOffset s) + unat count"
  shows "segment s len count = Some (ODR_OK, s\<lparr>dataOffset := 0\<rparr>, len - dataOffset s, len - dataOffset s,
           unat (dataOffset s))"
    and "unat (len - dataOffset s) = unat len - unat (dataOffset s)"
proof -
  have lt: "dataOffset s < len" using assms by (simp add: word_less_nat_alt)
  then show rem: "unat (len - dataOffset s) = unat len - unat (dataOffset s)" by (simp add: unat_sub order_less_imp_le)
  have "\<not> count < len - dataOffset s" using assms rem by (simp add: word_less_nat_alt)
  with lt show "segment s len count = Some (ODR_OK, s\<lparr>dataOffset := 0\<rparr>, len - dataOffset s,
      len - dataOffset s, unat (dataOffset s))"
    by (cases "dataOffset s = 0") (auto simp: segment_def word_neq_0_conv Let_def)
qed

lemma unat_of_nat_len [simp]: "n < 2 ^ LENGTH('s::len) \<Longrightarrow> unat (of_nat n :: 's word) = n"
  by (simp add: unat_of_nat take_bit_nat_eq_self)

lemma segment_bounds:
  fixes s :: "'s::len word od_stream"
  assumes "segment s len count = Some (code, s', n, remain, start)"
  shows "start + unat n \<le> unat len" and "unat n \<le> unat count"
proof -
  have rem: "dataOffset s < len \<Longrightarrow> unat (len - dataOffset s) = unat len - unat (dataOffset s)"
    by (simp add: unat_sub order_less_imp_le)
  show "start + unat n \<le> unat len" and "unat n \<le> unat count"
    using assms rem
    by (auto simp: segment_def Let_def not_less not_le word_less_nat_alt word_le_nat_alt split: if_splits)
qed

lemma segment_keeps_length:
  "segment s len count = Some (code, s', n, remain, start) \<Longrightarrow> dataLength s' = dataLength s \<and> subIndex s' = subIndex s"
  by (auto simp: segment_def Let_def split: if_splits)

text \<open>
  The results of a write with valid pointers: either the buffer is as it was, or a stretch of it
  inside the announced length has been replaced.
\<close>

lemma od_ext_write_data_result:
  fixes s :: "'s::len word od_stream"
  assumes "od_ext_write_data (Some s) (Some b) count (Some cw) (Some d) m dw = Ret r"
  obtains (refused) code s' where "r = (code, Some s', Some cw, Some d, dw)" and "code \<noteq> ODR_OK"
      and "subIndex s' = subIndex s"
  | (stored) code s' n start bs dw' where "r = (code, Some s', Some n, Some (take start d @ bs @ drop (start + length bs) d), dw')"
      and "start + length bs \<le> unat (dataLength s)" and "unat (dataLength s) \<le> m" and "start + length bs \<le> length d"
      and "dw' = dw \<or> dw' = Some (unat (dataLength s))" and "subIndex s' = subIndex s"
proof (cases "unat (dataLength s) > m")
  case True
  with assms show ?thesis by (intro refused [of ODR_DEV_INCOMPAT s]) (auto simp: od_ext_write_data_def)
next
  case m: False
  show ?thesis
  proof (cases "segment s (dataLength s) count")
    case None
    with assms m show ?thesis by (intro refused [of ODR_DEV_INCOMPAT s]) (auto simp: od_ext_write_data_def)
  next
    case (Some q)
    then obtain code s' n remain start where q: "segment s (dataLength s) count = Some (code, s', n, remain, start)"
      by (cases q) auto
    note s' = segment_keeps_length [OF q] and b = segment_bounds [OF q]
    consider "n < count" | "\<not> n < count" "\<not> (n \<le> remain \<and> n \<le> count)" | "\<not> n < count" "n \<le> remain \<and> n \<le> count"
      by blast
    then show ?thesis
    proof cases
      case 1
      with assms m q s' show ?thesis by (intro refused [of ODR_DATA_LONG s']) (auto simp: od_ext_write_data_def)
    next
      case 2
      with assms m q s' show ?thesis by (intro refused [of ODR_DEV_INCOMPAT s']) (auto simp: od_ext_write_data_def)
    next
      case 3
      with assms m q obtain bs d' where "peek b 0 (unat n) = Ret bs" "poke d start bs = Ret d'"
        "r = (code, Some s', Some n, Some d', if dataOffset s' = 0 \<and> dw \<noteq> None then Some (unat (dataLength s')) else dw)"
        by (auto simp: od_ext_write_data_def bind_outcome_Ret_iff)
      with m b s' show ?thesis
        by (intro stored [of code s' n start bs "if dataOffset s' = 0 \<and> dw \<noteq> None then Some (unat (dataLength s')) else dw"])
          (auto simp: peek_Ret_iff poke_Ret_iff)
    qed
  qed
qed

lemma od_ext_read_data_safe:
  fixes s :: "'s::len word od_stream"
  assumes "unat count \<le> length b" and "dataLen \<le> length d"
  obtains code s' b' n where "od_ext_read_data (Some s) (Some b) count (Some cr) (Some d) dataLen
      = Ret (code, Some s', Some b', Some n)" and "subIndex s' = subIndex s" and "length b' = length b"
proof -
  define s1 where "s1 = (if dataOffset s = 0 then s\<lparr>dataLength := of_nat dataLen\<rparr> else s)"
  have s1: "subIndex s1 = subIndex s" by (simp add: s1_def)
  show ?thesis
  proof (cases "segment s1 (of_nat dataLen) count")
    case None
    then show ?thesis using that [of ODR_DEV_INCOMPAT s1 b cr] s1 by (simp add: od_ext_read_data_def Let_def s1_def)
  next
    case (Some q)
    then obtain code s' n remain start where q: "segment s1 (of_nat dataLen) count = Some (code, s', n, remain, start)"
      by (cases q) auto
    have "unat (of_nat dataLen :: 's word) \<le> dataLen" by (simp add: unat_of_nat take_bit_eq_mod)
    then have le: "start + unat n \<le> length d" "unat n \<le> length b" using segment_bounds [OF q] assms by auto
    then have m: "min (length d - start) (unat n) = unat n" by simp
    show ?thesis
      using that [of code s' "take (unat n) (drop start d) @ drop (unat n) b" n] q segment_keeps_length [OF q] s1 le m
      by (simp add: od_ext_read_data_def Let_def s1_def)
  qed
qed

section \<open>Segmented transfers\<close>

text \<open>
  The peer repeats a call while the answer is \<^verbatim>\<open>ODR_PARTIAL\<close>, and what it gets is the concatenation
  of the parts.
\<close>

fun upload ::
  "('st \<Rightarrow> nat \<Rightarrow> (ODR \<times> 'c list \<times> 'st) outcome) \<Rightarrow> 'st \<Rightarrow> nat list \<Rightarrow> (ODR \<times> 'c list \<times> 'st) outcome" where
  "upload rd st [] = Ret (ODR_PARTIAL, [], st)"
| "upload rd st (n # ns) =
     bind_outcome (rd st n) (\<lambda>(code, bs, st').
       if code = ODR_PARTIAL
       then bind_outcome (upload rd st' ns) (\<lambda>(code', cs, st''). Ret (code', bs @ cs, st''))
       else Ret (code, bs, st'))"

fun download ::
  "('st \<Rightarrow> 'c list \<Rightarrow> (ODR \<times> 'st) outcome) \<Rightarrow> 'st \<Rightarrow> 'c list list \<Rightarrow> (ODR \<times> 'st) outcome" where
  "download wr st [] = Ret (ODR_PARTIAL, st)"
| "download wr st (bs # bss) =
     bind_outcome (wr st bs) (\<lambda>(code, st').
       if code = ODR_PARTIAL then download wr st' bss else Ret (code, st'))"

text \<open>
  What a source of \<open>d\<close> promises, \<open>source_at st d p\<close> standing for "the first \<open>p\<close> cells have been
  delivered": each call delivers the next cells, as many as asked for, and after the last
  one the source is at the start again.
\<close>

locale segmented_source =
  fixes rd :: "'st \<Rightarrow> nat \<Rightarrow> (ODR \<times> 'c list \<times> 'st) outcome"
    and source_at :: "'st \<Rightarrow> 'c list \<Rightarrow> nat \<Rightarrow> bool"
    and valid_count :: "nat \<Rightarrow> bool"
  assumes rd_more: "source_at st d p \<Longrightarrow> valid_count n \<Longrightarrow> p + n < length d \<Longrightarrow>
      \<exists>st'. rd st n = Ret (ODR_PARTIAL, take n (drop p d), st') \<and> source_at st' d (p + n)"
    and rd_last: "source_at st d p \<Longrightarrow> valid_count n \<Longrightarrow> p < length d \<Longrightarrow> length d \<le> p + n \<Longrightarrow>
      \<exists>st'. rd st n = Ret (ODR_OK, drop p d, st') \<and> source_at st' d 0"
begin

lemma upload_complete:
  "source_at st d p \<Longrightarrow> p < length d \<Longrightarrow> list_all valid_count ns \<Longrightarrow> length d \<le> p + sum_list ns \<Longrightarrow>
     \<exists>st'. upload rd st ns = Ret (ODR_OK, drop p d, st') \<and> source_at st' d 0"
proof (induction ns arbitrary: st p)
  case (Cons n ns)
  show ?case
  proof (cases "p + n < length d")
    case True
    then obtain st1 where 1: "rd st n = Ret (ODR_PARTIAL, take n (drop p d), st1)" "source_at st1 d (p + n)"
      using rd_more Cons.prems by fastforce
    moreover obtain st2 where "upload rd st1 ns = Ret (ODR_OK, drop (p + n) d, st2)" "source_at st2 d 0"
      using Cons.IH [OF 1(2) True] Cons.prems by auto
    moreover have "take n (drop p d) @ drop (p + n) d = drop p d"
      by (metis append_take_drop_id drop_drop add.commute)
    ultimately show ?thesis by simp
  next
    case False
    then obtain st1 where "rd st n = Ret (ODR_OK, drop p d, st1)" "source_at st1 d 0"
      using rd_last Cons.prems by fastforce
    then show ?thesis by simp
  qed
qed simp

end

text \<open>
  What a sink promises, \<open>sink_got st L w\<close> standing for "of \<open>L\<close> announced cells the cells \<open>w\<close>
  have arrived": it takes segment after segment, reports the end exactly when the announced
  length has arrived, and refuses a segment that goes beyond it.
\<close>

locale segmented_sink =
  fixes wr :: "'st \<Rightarrow> 'c list \<Rightarrow> (ODR \<times> 'st) outcome"
    and sink_got :: "'st \<Rightarrow> nat \<Rightarrow> 'c list \<Rightarrow> bool"
    and sink_done :: "'st \<Rightarrow> 'c list \<Rightarrow> bool"
    and valid_count :: "nat \<Rightarrow> bool"
  assumes wr_more: "sink_got st L w \<Longrightarrow> valid_count (length bs) \<Longrightarrow> length w + length bs < L \<Longrightarrow>
      \<exists>st'. wr st bs = Ret (ODR_PARTIAL, st') \<and> sink_got st' L (w @ bs)"
    and wr_last: "sink_got st L w \<Longrightarrow> valid_count (length bs) \<Longrightarrow> bs \<noteq> [] \<Longrightarrow> length w + length bs = L \<Longrightarrow>
      \<exists>st'. wr st bs = Ret (ODR_OK, st') \<and> sink_done st' (w @ bs)"
    and wr_long: "sink_got st L w \<Longrightarrow> valid_count (length bs) \<Longrightarrow> length w < L \<Longrightarrow> L < length w + length bs \<Longrightarrow>
      \<exists>st'. wr st bs = Ret (ODR_DATA_LONG, st')"
begin

lemma download_complete:
  "sink_got st L w \<Longrightarrow> list_all (\<lambda>bs. bs \<noteq> [] \<and> valid_count (length bs)) bss \<Longrightarrow> bss \<noteq> [] \<Longrightarrow>
     length w + length (concat bss) = L \<Longrightarrow>
     \<exists>st'. download wr st bss = Ret (ODR_OK, st') \<and> sink_done st' (w @ concat bss)"
proof (induction bss arbitrary: st w)
  case (Cons bs bss)
  show ?case
  proof (cases "bss = []")
    case True
    then show ?thesis using wr_last [OF Cons.prems(1), of bs] Cons.prems by auto
  next
    case False
    then obtain b bss' where "bss = b # bss'" "b \<noteq> []" using Cons.prems(2) by (cases bss) auto
    then have "length w + length bs < L" using Cons.prems(4) by (auto simp: neq_Nil_conv)
    then obtain st1 where 1: "wr st bs = Ret (ODR_PARTIAL, st1)" "sink_got st1 L (w @ bs)"
      using wr_more [OF Cons.prems(1), of bs] Cons.prems(2) by auto
    moreover obtain st2 where "download wr st1 bss = Ret (ODR_OK, st2)" "sink_done st2 ((w @ bs) @ concat bss)"
      using Cons.IH [OF 1(2)] Cons.prems False by auto
    ultimately show ?thesis by simp
  qed
qed simp

lemma download_overrun:
  "sink_got st L w \<Longrightarrow> list_all (\<lambda>bs. valid_count (length bs)) bss \<Longrightarrow> valid_count (length bs) \<Longrightarrow>
     length w + length (concat bss) < L \<Longrightarrow> L < length w + length (concat bss) + length bs \<Longrightarrow>
     \<exists>st'. download wr st (bss @ [bs]) = Ret (ODR_DATA_LONG, st')"
proof (induction bss arbitrary: st w)
  case Nil
  then show ?case using wr_long [OF Nil.prems(1), of bs] by auto
next
  case (Cons b bss)
  then obtain st1 where 1: "wr st b = Ret (ODR_PARTIAL, st1)" "sink_got st1 L (w @ b)"
    using wr_more [OF Cons.prems(1), of b] by auto
  then show ?case using Cons.IH [OF 1(2)] Cons.prems by auto
qed

end

section \<open>The buffer helpers are a source and a sink\<close>

definition valid_count :: "'s::len itself \<Rightarrow> nat \<Rightarrow> bool" where
  "valid_count T n \<longleftrightarrow> 0 < n \<and> n < 2 ^ LENGTH('s)"

text \<open>
  One call of the reading helper with a buffer for \<open>n\<close> cells, which holds \<open>junk\<close> before. The cells
  delivered are the first \<^verbatim>\<open>countRead\<close> cells of the buffer.
\<close>

definition read_call ::
  "(ODR \<times> 's::len word od_stream option \<times> 'c list option \<times> 's word option) outcome \<Rightarrow> 'd \<Rightarrow>
   (ODR \<times> 'c list \<times> ('s word od_stream \<times> 'd)) outcome" where
  "read_call m d = bind_outcome m (\<lambda>r. case r of
       (code, Some s, Some b, Some cr) \<Rightarrow> Ret (code, take (unat cr) b, (s, d))
     | _ \<Rightarrow> Fault Null_pointer)"

definition read_data_call ::
  "'c \<Rightarrow> nat \<Rightarrow> 's::len word od_stream \<times> 'c list \<Rightarrow> nat \<Rightarrow> (ODR \<times> 'c list \<times> ('s word od_stream \<times> 'c list)) outcome" where
  "read_data_call junk dataLen st n = (case st of (s, r) \<Rightarrow>
     read_call (od_ext_read_data (Some s) (Some (replicate n junk)) (of_nat n) (Some 0) (Some r) dataLen) r)"

text \<open>The source over a buffer \<open>r\<close> whose first \<open>dataLen\<close> cells are the value.\<close>

definition data_source_at :: "'c list \<Rightarrow> nat \<Rightarrow> 's::len word od_stream \<times> 'c list \<Rightarrow> 'c list \<Rightarrow> nat \<Rightarrow> bool" where
  "data_source_at r dataLen st d p \<longleftrightarrow>
     snd st = r \<and> dataLen \<le> length r \<and> d = take dataLen r \<and> unat (dataOffset (fst st)) = p \<and> dataLen < 2 ^ LENGTH('s)"

interpretation data_source: segmented_source
  "read_data_call junk dataLen :: 's::len word od_stream \<times> 'c list \<Rightarrow> nat \<Rightarrow> _" "data_source_at r dataLen" "valid_count TYPE('s)"
proof
  fix st :: "'s word od_stream \<times> 'c list" and d p n
  assume src: "data_source_at r dataLen st d p" and n: "valid_count TYPE('s) n" and more: "p + n < length d"
  obtain s where st: "st = (s, r)" "unat (dataOffset s) = p" "dataLen < 2 ^ LENGTH('s)" "d = take dataLen r" "dataLen \<le> length r"
    using src by (cases st) (auto simp: data_source_at_def)
  have len: "length d = dataLen" using st by simp
  define s1 where "s1 = (if dataOffset s = 0 then s\<lparr>dataLength := of_nat dataLen\<rparr> else s)"
  have s1: "dataOffset s1 = dataOffset s" by (simp add: s1_def)
  have lt: "unat (dataOffset s1) + unat (of_nat n :: 's word) < unat (of_nat dataLen :: 's word)"
    using st n more s1 by (simp add: valid_count_def)
  note seg = segment_more [OF lt]
  have "read_data_call junk dataLen st n = Ret (ODR_PARTIAL, take n (drop p d), (s1\<lparr>dataOffset := dataOffset s1 + of_nat n\<rparr>, r))"
    using seg(1) st n more [unfolded len] s1
    by (simp add: read_data_call_def read_call_def od_ext_read_data_def valid_count_def drop_take flip: s1_def)
  then show "\<exists>st'. read_data_call junk dataLen st n = Ret (ODR_PARTIAL, take n (drop p d), st') \<and> data_source_at r dataLen st' d (p + n)"
    using seg(2) st n s1 by (simp add: data_source_at_def valid_count_def)
next
  fix st :: "'s word od_stream \<times> 'c list" and d p n
  assume src: "data_source_at r dataLen st d p" and n: "valid_count TYPE('s) n" and p: "p < length d" "length d \<le> p + n"
  obtain s where st: "st = (s, r)" "unat (dataOffset s) = p" "dataLen < 2 ^ LENGTH('s)" "d = take dataLen r" "dataLen \<le> length r"
    using src by (cases st) (auto simp: data_source_at_def)
  have len: "length d = dataLen" using st by simp
  define s1 where "s1 = (if dataOffset s = 0 then s\<lparr>dataLength := of_nat dataLen\<rparr> else s)"
  have s1: "dataOffset s1 = dataOffset s" by (simp add: s1_def)
  have le: "unat (dataOffset s1) < unat (of_nat dataLen :: 's word)"
      "unat (of_nat dataLen :: 's word) \<le> unat (dataOffset s1) + unat (of_nat n :: 's word)"
    using st n p s1 by (simp_all add: valid_count_def)
  note seg = segment_last [OF le]
  have "read_data_call junk dataLen st n = Ret (ODR_OK, drop p d, (s1\<lparr>dataOffset := 0\<rparr>, r))"
    using seg st n p [unfolded len] s1
    by (simp add: read_data_call_def read_call_def od_ext_read_data_def valid_count_def drop_take flip: s1_def)
  then show "\<exists>st'. read_data_call junk dataLen st n = Ret (ODR_OK, drop p d, st') \<and> data_source_at r dataLen st' d 0"
    using st by (simp add: data_source_at_def)
qed

definition write_data_call ::
  "nat \<Rightarrow> 's::len word od_stream \<times> 'c list \<times> nat option \<Rightarrow> 'c list \<Rightarrow>
   (ODR \<times> ('s word od_stream \<times> 'c list \<times> nat option)) outcome" where
  "write_data_call maxlen st bs = (case st of (s, d, dw) \<Rightarrow>
     bind_outcome (od_ext_write_data (Some s) (Some bs) (of_nat (length bs)) (Some 0) (Some d) maxlen dw) (\<lambda>r. case r of
       (code, Some s', _, Some d', dw') \<Rightarrow> Ret (code, (s', d', dw'))
     | _ \<Rightarrow> Fault Null_pointer))"

lemma write_data_call_Ret:
  assumes "write_data_call m (s, d, dw) bs = Ret (code, (s', d', dw'))"
  obtains cw where "od_ext_write_data (Some s) (Some bs) (of_nat (length bs)) (Some 0) (Some d) m dw
      = Ret (code, Some s', Some cw, Some d', dw')" and "subIndex s' = subIndex s"
proof -
  obtain r where r: "od_ext_write_data (Some s) (Some bs) (of_nat (length bs)) (Some 0) (Some d) m dw = Ret r"
    using assms by (auto simp: write_data_call_def bind_outcome_Ret_iff)
  then show ?thesis
    by (cases rule: od_ext_write_data_result) (use assms r that in \<open>auto simp: write_data_call_def\<close>)
qed

text \<open>
  The sink over a buffer: \<open>d0\<close> is the buffer before the transfer, whose cells past the ones that have
  arrived stay as they were.
\<close>

definition data_sink_got ::
  "nat \<Rightarrow> 'c list \<Rightarrow> 's::len word od_stream \<times> 'c list \<times> nat option \<Rightarrow> nat \<Rightarrow> 'c list \<Rightarrow> bool" where
  "data_sink_got maxlen d0 st L w \<longleftrightarrow> (case st of (s, d, dw) \<Rightarrow>
     unat (dataLength s) = L \<and> unat (dataOffset s) = length w \<and> L \<le> maxlen \<and> maxlen \<le> length d0
     \<and> length w \<le> L \<and> d = w @ drop (length w) d0 \<and> dw \<noteq> None)"

definition data_sink_done ::
  "'c list \<Rightarrow> 's::len word od_stream \<times> 'c list \<times> nat option \<Rightarrow> 'c list \<Rightarrow> bool" where
  "data_sink_done d0 st w \<longleftrightarrow> (case st of (s, d, dw) \<Rightarrow>
     dataOffset s = 0 \<and> d = w @ drop (length w) d0 \<and> dw = Some (length w))"

interpretation data_sink: segmented_sink
  "write_data_call maxlen :: 's::len word od_stream \<times> 'c list \<times> nat option \<Rightarrow> 'c list \<Rightarrow> _"
  "data_sink_got maxlen d0" "data_sink_done d0" "valid_count TYPE('s)"
proof
  fix st :: "'s word od_stream \<times> 'c list \<times> nat option" and L and w bs :: "'c list"
  assume got: "data_sink_got maxlen d0 st L w" and n: "valid_count TYPE('s) (length bs)"
    and more: "length w + length bs < L"
  obtain s d dw where st: "st = (s, d, dw)" by (cases st)
  note g = got [unfolded data_sink_got_def st prod.case]
  have lt: "unat (dataOffset s) + unat (of_nat (length bs) :: 's word) < unat (dataLength s)"
    using g n more by (simp add: valid_count_def)
  note seg = segment_more [OF lt]
  have "write_data_call maxlen st bs = Ret (ODR_PARTIAL, (s\<lparr>dataOffset := dataOffset s + of_nat (length bs)\<rparr>,
      (w @ bs) @ drop (length (w @ bs)) d0, dw))"
    using seg g n more
    by (auto simp: st write_data_call_def od_ext_write_data_def valid_count_def add.commute word_unat_eq_iff)
  then show "\<exists>st'. write_data_call maxlen st bs = Ret (ODR_PARTIAL, st') \<and> data_sink_got maxlen d0 st' L (w @ bs)"
    using seg(2) g n more by (simp add: data_sink_got_def valid_count_def)
next
  fix st :: "'s word od_stream \<times> 'c list \<times> nat option" and L and w bs :: "'c list"
  assume got: "data_sink_got maxlen d0 st L w" and n: "valid_count TYPE('s) (length bs)"
    and "bs \<noteq> []" and last: "length w + length bs = L"
  obtain s d dw where st: "st = (s, d, dw)" by (cases st)
  note g = got [unfolded data_sink_got_def st prod.case]
  have "unat (dataOffset s) < unat (dataLength s)"
    "unat (dataLength s) \<le> unat (dataOffset s) + unat (of_nat (length bs) :: 's word)"
    using g n last \<open>bs \<noteq> []\<close> by (auto simp: valid_count_def)
  note seg = segment_last [OF this]
  have eq: "dataLength s - dataOffset s = of_nat (length bs)"
    using seg(2) g n last by (simp add: word_unat_eq_iff valid_count_def)
  have "write_data_call maxlen st bs = Ret (ODR_OK, (s\<lparr>dataOffset := 0\<rparr>, (w @ bs) @ drop (length (w @ bs)) d0, Some L))"
    using seg(1) g n last eq
    by (auto simp: st write_data_call_def od_ext_write_data_def valid_count_def add.commute)
  then show "\<exists>st'. write_data_call maxlen st bs = Ret (ODR_OK, st') \<and> data_sink_done d0 st' (w @ bs)"
    using last by (simp add: data_sink_done_def)
next
  fix st :: "'s word od_stream \<times> 'c list \<times> nat option" and L and w bs :: "'c list"
  assume got: "data_sink_got maxlen d0 st L w" and n: "valid_count TYPE('s) (length bs)"
    and long: "length w < L" "L < length w + length bs"
  obtain s d dw where st: "st = (s, d, dw)" by (cases st)
  note g = got [unfolded data_sink_got_def st prod.case]
  have "unat (dataOffset s) < unat (dataLength s)"
    "unat (dataLength s) \<le> unat (dataOffset s) + unat (of_nat (length bs) :: 's word)"
    using g n long by (auto simp: valid_count_def)
  note seg = segment_last [OF this]
  have "dataLength s - dataOffset s < of_nat (length bs)"
    using seg(2) g n long by (simp add: word_less_nat_alt valid_count_def)
  then show "\<exists>st'. write_data_call maxlen st bs = Ret (ODR_DATA_LONG, st')"
    using seg(1) g by (auto simp: st write_data_call_def od_ext_write_data_def)
qed

section \<open>The file helpers are a source and a sink\<close>

definition read_file_call ::
  "kern \<Rightarrow> string \<Rightarrow> byte \<Rightarrow> 's::len word od_stream \<times> fsys \<times> fhandle option \<Rightarrow> nat \<Rightarrow>
   (ODR \<times> byte list \<times> ('s word od_stream \<times> fsys \<times> fhandle option)) outcome" where
  "read_file_call k file_path junk st n = (case st of (s, fs, fp) \<Rightarrow>
     bind_outcome
       (od_ext_read_file k fs (Some s) (Some (replicate n junk)) (of_nat n) (Some 0) (Some file_path) (Some fp)) (\<lambda>r. case r of
       (code, Some s', Some b, Some cr, Some fp') \<Rightarrow> Ret (code, take (unat cr) b, (s', fs, fp'))
     | _ \<Rightarrow> Fault Null_pointer))"

definition file_source_at ::
  "string \<Rightarrow> fsys \<Rightarrow> 's::len word od_stream \<times> fsys \<times> fhandle option \<Rightarrow> byte list \<Rightarrow> nat \<Rightarrow> bool" where
  "file_source_at file_path fs0 st d p \<longleftrightarrow> (case st of (s, fs, fp) \<Rightarrow>
     fs = fs0 \<and> fs_node fs file_path = Some (File d) \<and> length d < 2 ^ LENGTH('s) \<and> unat (dataOffset s) = p
     \<and> (0 < p \<longrightarrow> fp = Some \<lparr>fh_path = resolve file_path, fh_pos = p\<rparr> \<and> unat (dataLength s) = length d))"

text \<open>Opening the file brings the first call to the state the later calls start from.\<close>

lemma read_file_opened:
  fixes s :: "'s::len word od_stream"
  assumes "file_source_at file_path fs0 (s, fs, fp) d p" and "p < length d"
  obtains s1 where "dataOffset s1 = dataOffset s" and "unat (dataLength s1) = length d"
    and "od_ext_read_file k fs (Some s) (Some b) count (Some cr) (Some file_path) (Some fp)
       = read_file_segment fs s1 b count cr (Some (Some \<lparr>fh_path = resolve file_path, fh_pos = p\<rparr>))"
proof (cases "dataOffset s = 0")
  case True
  define s1 where "s1 = s\<lparr>dataLength := of_nat (length d)\<rparr>"
  have s1: "unat (dataLength s1) = length d" "dataLength s1 \<noteq> 0"
    using assms by (auto simp: s1_def file_source_at_def word_unat_eq_iff)
  moreover have "read_file_open k fs s file_path (Some fp) = Ret (Inr (s1, Some (Some \<lparr>fh_path = resolve file_path, fh_pos = 0\<rparr>)))"
    using assms s1 by (auto simp: read_file_open_def fs_open_rd_def file_source_at_def end_position_def s1_def)
  ultimately show ?thesis
    using that [of s1] True assms by (simp add: od_ext_read_file_def s1_def file_source_at_def)
next
  case False
  moreover have "0 < p" using assms False by (auto simp: file_source_at_def word_unat_eq_iff)
  ultimately show ?thesis
    using that [of s] assms by (simp add: od_ext_read_file_def file_source_at_def)
qed

interpretation file_source: segmented_source
  "read_file_call k file_path junk :: 's::len word od_stream \<times> fsys \<times> fhandle option \<Rightarrow> nat \<Rightarrow> _"
  "file_source_at file_path fs0" "valid_count TYPE('s)"
proof
  fix st :: "'s word od_stream \<times> fsys \<times> fhandle option" and d p n
  assume src: "file_source_at file_path fs0 st d p" and n: "valid_count TYPE('s) n" and more: "p + n < length d"
  obtain s fs fp where st: "st = (s, fs, fp)" by (cases st)
  have p: "unat (dataOffset s) = p" and d: "fh_content fs \<lparr>fh_path = resolve file_path, fh_pos = p\<rparr> = d"
    using src by (auto simp: st file_source_at_def fh_content_def fs_node_file)
  obtain s1 where s1: "dataOffset s1 = dataOffset s" "unat (dataLength s1) = length d"
    "od_ext_read_file k fs (Some s) (Some (replicate n junk)) (of_nat n) (Some 0) (Some file_path) (Some fp)
       = read_file_segment fs s1 (replicate n junk) (of_nat n) 0 (Some (Some \<lparr>fh_path = resolve file_path, fh_pos = p\<rparr>))"
    by (rule read_file_opened [OF src [unfolded st]]) (use more in auto)
  have "unat (dataOffset s1) + unat (of_nat n :: 's word) < unat (dataLength s1)"
    using s1 p n more by (simp add: valid_count_def)
  note seg = segment_more [OF this]
  have "read_file_call k file_path junk st n = Ret (ODR_PARTIAL, take n (drop p d),
      (s1\<lparr>dataOffset := dataOffset s1 + of_nat n\<rparr>, fs, Some \<lparr>fh_path = resolve file_path, fh_pos = p + n\<rparr>))"
    using seg(1) s1 p d n more
    by (simp add: st read_file_call_def read_file_segment_def fread_def valid_count_def Let_def)
  then show "\<exists>st'. read_file_call k file_path junk st n = Ret (ODR_PARTIAL, take n (drop p d), st')
      \<and> file_source_at file_path fs0 st' d (p + n)"
    using seg(2) s1 p n src by (auto simp: st file_source_at_def valid_count_def)
next
  fix st :: "'s word od_stream \<times> fsys \<times> fhandle option" and d p n
  assume src: "file_source_at file_path fs0 st d p" and n: "valid_count TYPE('s) n" and pd: "p < length d" "length d \<le> p + n"
  obtain s fs fp where st: "st = (s, fs, fp)" by (cases st)
  have p: "unat (dataOffset s) = p" and d: "fh_content fs \<lparr>fh_path = resolve file_path, fh_pos = p\<rparr> = d"
    using src by (auto simp: st file_source_at_def fh_content_def fs_node_file)
  obtain s1 where s1: "dataOffset s1 = dataOffset s" "unat (dataLength s1) = length d"
    "od_ext_read_file k fs (Some s) (Some (replicate n junk)) (of_nat n) (Some 0) (Some file_path) (Some fp)
       = read_file_segment fs s1 (replicate n junk) (of_nat n) 0 (Some (Some \<lparr>fh_path = resolve file_path, fh_pos = p\<rparr>))"
    by (rule read_file_opened [OF src [unfolded st]]) (use pd in auto)
  have "unat (dataOffset s1) < unat (dataLength s1)"
    "unat (dataLength s1) \<le> unat (dataOffset s1) + unat (of_nat n :: 's word)"
    using s1 p n pd by (simp_all add: valid_count_def)
  note seg = segment_last [OF this]
  have "read_file_call k file_path junk st n = Ret (ODR_OK, drop p d, (s1\<lparr>dataOffset := 0\<rparr>, fs, None))"
    using seg s1 p d n pd
    by (simp add: st read_file_call_def read_file_segment_def fread_def valid_count_def Let_def)
  then show "\<exists>st'. read_file_call k file_path junk st n = Ret (ODR_OK, drop p d, st') \<and> file_source_at file_path fs0 st' d 0"
    using src by (auto simp: st file_source_at_def)
qed

definition write_file_call ::
  "string \<Rightarrow> 's::len word od_stream \<times> fsys \<times> fhandle option \<Rightarrow> byte list \<Rightarrow>
   (ODR \<times> ('s word od_stream \<times> fsys \<times> fhandle option)) outcome" where
  "write_file_call file_path st bs = (case st of (s, fs, fp) \<Rightarrow>
     bind_outcome
       (od_ext_write_file fs (Some s) (Some bs) (of_nat (length bs)) (Some 0) (Some file_path) (Some fp)) (\<lambda>r. case r of
       (code, fs', Some s', Some cw, Some fp') \<Rightarrow> Ret (code, (s', fs', fp'))
     | _ \<Rightarrow> Fault Null_pointer))"

lemma od_ext_write_file_sub:
  "od_ext_write_file fs (Some s) (Some b) count (Some cw) (Some p) (Some f) = Ret (code, fs', Some s', cw', f') \<Longrightarrow>
     subIndex s' = subIndex s"
  by (auto simp: od_ext_write_file_def write_file_segment_def bind_outcome_Ret_iff dest: segment_keeps_length
      split: if_splits sum.splits option.splits)

lemma od_ext_read_file_sub:
  "od_ext_read_file k fs (Some s) (Some b) count (Some cr) (Some p) (Some f) = Ret (code, Some s', b', cr', f') \<Longrightarrow>
     subIndex s' = subIndex s"
  by (auto simp: od_ext_read_file_def read_file_open_def read_file_segment_def bind_outcome_Ret_iff Let_def
      dest: segment_keeps_length split: if_splits sum.splits option.splits)

lemma write_file_call_Ret:
  assumes "write_file_call p (s, fs, f) bs = Ret (code, (s', fs', f'))"
  obtains cw where "od_ext_write_file fs (Some s) (Some bs) (of_nat (length bs)) (Some 0) (Some p) (Some f)
      = Ret (code, fs', Some s', Some cw, Some f')" and "subIndex s' = subIndex s"
  using assms od_ext_write_file_sub
  by (fastforce simp: write_file_call_def bind_outcome_Ret_iff split: prod.splits option.splits)

lemma read_file_call_Ret:
  assumes "read_file_call k p junk (s, fs, f) n = Ret (code, bs, (s', fs', f'))"
  obtains b cr where "od_ext_read_file k fs (Some s) (Some (replicate n junk)) (of_nat n) (Some 0) (Some p) (Some f)
      = Ret (code, Some s', Some b, Some cr, Some f')" and "bs = take (unat cr) b" and "fs' = fs" and "subIndex s' = subIndex s"
  using assms od_ext_read_file_sub
  by (fastforce simp: read_file_call_def bind_outcome_Ret_iff split: prod.splits option.splits)

definition file_sink_got ::
  "string \<Rightarrow> fsys \<Rightarrow> 's::len word od_stream \<times> fsys \<times> fhandle option \<Rightarrow> nat \<Rightarrow> byte list \<Rightarrow> bool" where
  "file_sink_got file_path fs0 st L w \<longleftrightarrow> (case st of (s, fs, fp) \<Rightarrow>
     unat (dataLength s) = L \<and> unat (dataOffset s) = length w
     \<and> fs_create fs0 file_path = Inr (AList.update (resolve file_path) (File []) fs0)
     \<and> (if w = [] then fs = fs0
        else fs = AList.update (resolve file_path) (File w) fs0
          \<and> fp = Some \<lparr>fh_path = resolve file_path, fh_pos = length w\<rparr>))"

definition file_sink_done ::
  "string \<Rightarrow> fsys \<Rightarrow> 's::len word od_stream \<times> fsys \<times> fhandle option \<Rightarrow> byte list \<Rightarrow> bool" where
  "file_sink_done file_path fs0 st w \<longleftrightarrow> (case st of (s, fs, fp) \<Rightarrow>
     dataOffset s = 0 \<and> fs = AList.update (resolve file_path) (File w) fs0 \<and> fp = None)"

lemma write_file_opened:
  fixes s :: "'s::len word od_stream"
  assumes "file_sink_got file_path fs0 (s, fs, fp) L w"
  shows "od_ext_write_file fs (Some s) (Some b) count (Some cw) (Some file_path) (Some fp)
       = write_file_segment (AList.update (resolve file_path) (File w) fs0) s b count cw
           (Some (Some \<lparr>fh_path = resolve file_path, fh_pos = length w\<rparr>))"
proof (cases "w = []")
  case True
  with assms show ?thesis by (auto simp: file_sink_got_def od_ext_write_file_def word_unat_eq_iff)
next
  case False
  then have "dataOffset s \<noteq> 0" using assms by (auto simp: file_sink_got_def)
  with assms False show ?thesis by (simp add: file_sink_got_def od_ext_write_file_def)
qed

interpretation file_sink: segmented_sink
  "write_file_call file_path :: 's::len word od_stream \<times> fsys \<times> fhandle option \<Rightarrow> byte list \<Rightarrow> _"
  "file_sink_got file_path fs0" "file_sink_done file_path fs0" "valid_count TYPE('s)"
proof
  fix st :: "'s word od_stream \<times> fsys \<times> fhandle option" and L and w bs :: "byte list"
  assume got: "file_sink_got file_path fs0 st L w" and n: "valid_count TYPE('s) (length bs)"
    and more: "length w + length bs < L"
  obtain s fs fp where st: "st = (s, fs, fp)" by (cases st)
  note g = got [unfolded file_sink_got_def st prod.case]
  have "unat (dataOffset s) + unat (of_nat (length bs) :: 's word) < unat (dataLength s)"
    using g n more by (simp add: valid_count_def)
  note seg = segment_more [OF this]
  have "write_file_call file_path st bs = Ret (ODR_PARTIAL, (s\<lparr>dataOffset := dataOffset s + of_nat (length bs)\<rparr>,
      AList.update (resolve file_path) (File (w @ bs)) fs0,
      Some \<lparr>fh_path = resolve file_path, fh_pos = length (w @ bs)\<rparr>))"
    using seg(1,3) n unfolding write_file_call_def st prod.case write_file_opened [OF got [unfolded st]]
    by (simp add: write_file_segment_def fwrite_def valid_count_def)
  then show "\<exists>st'. write_file_call file_path st bs = Ret (ODR_PARTIAL, st') \<and> file_sink_got file_path fs0 st' L (w @ bs)"
    using seg(2) g n by (auto simp: file_sink_got_def valid_count_def)
next
  fix st :: "'s word od_stream \<times> fsys \<times> fhandle option" and L and w bs :: "byte list"
  assume got: "file_sink_got file_path fs0 st L w" and n: "valid_count TYPE('s) (length bs)"
    and ne: "bs \<noteq> []" and last: "length w + length bs = L"
  obtain s fs fp where st: "st = (s, fs, fp)" by (cases st)
  note g = got [unfolded file_sink_got_def st prod.case]
  have "unat (dataOffset s) < unat (dataLength s)"
    "unat (dataLength s) \<le> unat (dataOffset s) + unat (of_nat (length bs) :: 's word)"
    using g n last ne by (auto simp: valid_count_def)
  note seg = segment_last [OF this]
  have eq: "dataLength s - dataOffset s = of_nat (length bs)"
    using seg(2) g n last by (simp add: word_unat_eq_iff valid_count_def)
  have "write_file_call file_path st bs = Ret (ODR_OK, (s\<lparr>dataOffset := 0\<rparr>,
      AList.update (resolve file_path) (File (w @ bs)) fs0, None))"
    using seg(1) eq n unfolding write_file_call_def st prod.case write_file_opened [OF got [unfolded st]]
    by (simp add: write_file_segment_def fwrite_def valid_count_def)
  then show "\<exists>st'. write_file_call file_path st bs = Ret (ODR_OK, st') \<and> file_sink_done file_path fs0 st' (w @ bs)"
    by (simp add: file_sink_done_def)
next
  fix st :: "'s word od_stream \<times> fsys \<times> fhandle option" and L and w bs :: "byte list"
  assume got: "file_sink_got file_path fs0 st L w" and n: "valid_count TYPE('s) (length bs)"
    and long: "length w < L" "L < length w + length bs"
  obtain s fs fp where st: "st = (s, fs, fp)" by (cases st)
  note g = got [unfolded file_sink_got_def st prod.case]
  have "unat (dataOffset s) < unat (dataLength s)"
    "unat (dataLength s) \<le> unat (dataOffset s) + unat (of_nat (length bs) :: 's word)"
    using g n long by (auto simp: valid_count_def)
  note seg = segment_last [OF this]
  have "dataLength s - dataOffset s < of_nat (length bs)"
    using seg(2) g n long by (simp add: word_less_nat_alt valid_count_def)
  then show "\<exists>st'. write_file_call file_path st bs = Ret (ODR_DATA_LONG, st')"
    using seg(1) unfolding write_file_call_def st prod.case write_file_opened [OF got [unfolded st]]
    by (simp add: write_file_segment_def fclose_def)
qed

section \<open>Whole transfers\<close>

text \<open>Segments whose total is a length the stream can announce are themselves counts it can express.\<close>

lemma valid_segments:
  assumes "list_all (\<lambda>bs. bs \<noteq> []) bss" and "unat (len :: 's::len word) = length (concat bss)"
  shows "list_all (\<lambda>bs. bs \<noteq> [] \<and> valid_count TYPE('s) (length bs)) bss"
proof -
  have "length bs \<le> length (concat bss)" if "bs \<in> set bss" for bs
    using that by (induction bss) auto
  moreover have "length (concat bss) < 2 ^ LENGTH('s)" using unsigned_less [of len, where ?'a = nat] assms(2) by simp
  ultimately show ?thesis
    using assms(1) by (fastforce simp: valid_count_def list_all_iff intro: le_less_trans)
qed

text \<open>
  Reading the first \<^verbatim>\<open>dataLen\<close> cells of a buffer through \<^verbatim>\<open>od_ext_read_data\<close> in segments of any positive sizes
  that add up to enough delivers exactly these cells, ends with \<^verbatim>\<open>ODR_OK\<close>, and leaves the stream ready for
  the next transfer.
\<close>

lemma od_ext_read_data_uploads:
  fixes s :: "'s::len word od_stream"
  assumes "dataOffset s = 0" and "0 < dataLen" and "dataLen \<le> length r" and "dataLen < 2 ^ LENGTH('s)"
    and "list_all (valid_count TYPE('s)) ns" and "dataLen \<le> sum_list ns"
  shows "\<exists>s'. upload (read_data_call junk dataLen) (s, r) ns = Ret (ODR_OK, take dataLen r, (s', r)) \<and> dataOffset s' = 0"
  using data_source.upload_complete [of r dataLen "(s, r)" "take dataLen r" 0 ns junk] assms
  by (auto simp: data_source_at_def word_unat_eq_iff)

lemma od_ext_read_data_uploads_witness:
  "\<exists>s'. upload (read_data_call CHR ''?'' (length ''telemetry''))
       (\<lparr>dataOffset = 0 :: u32, dataLength = 0, subIndex = 1\<rparr>, ''telemetry...'') [4, 4, 4]
     = Ret (ODR_OK, ''telemetry'', (s', ''telemetry...'')) \<and> dataOffset s' = 0"
  using od_ext_read_data_uploads
    [of "\<lparr>dataOffset = 0 :: u32, dataLength = 0, subIndex = 1\<rparr>" "length ''telemetry''" "''telemetry...''" "[4, 4, 4]" "CHR ''?''"]
  by (simp add: valid_count_def)

text \<open>
  Writing a buffer through \<^verbatim>\<open>od_ext_write_data\<close> in any non-empty segments whose total is the announced length
  puts exactly the data into the front of the buffer, leaves the rest of it alone, reports
  the length through \<^verbatim>\<open>dataWritten\<close> and ends with \<^verbatim>\<open>ODR_OK\<close>.
\<close>

lemma od_ext_write_data_downloads:
  fixes s :: "'s::len word od_stream"
  assumes "dataOffset s = 0" and "bss \<noteq> []" and "list_all (\<lambda>bs. bs \<noteq> []) bss"
    and "unat (dataLength s) = length (concat bss)" and "length (concat bss) \<le> length d"
  shows "\<exists>s'. download (write_data_call (length d)) (s, d, Some m) bss
      = Ret (ODR_OK, (s', concat bss @ drop (length (concat bss)) d, Some (length (concat bss))))
    \<and> dataOffset s' = 0"
proof -
  have "list_all (\<lambda>bs. bs \<noteq> [] \<and> valid_count TYPE('s) (length bs)) bss"
    using valid_segments [OF assms(3,4)] .
  moreover have "data_sink_got (length d) d (s, d, Some m) (unat (dataLength s)) []"
    using assms by (simp add: data_sink_got_def)
  ultimately show ?thesis
    using data_sink.download_complete [of "length d" d "(s, d, Some m)" "unat (dataLength s)" "[]" bss] assms
    by (auto simp: data_sink_done_def)
qed

lemma od_ext_write_data_downloads_witness:
  "\<exists>s'. download (write_data_call (length ''........''))
       (\<lparr>dataOffset = 0 :: u32, dataLength = 5, subIndex = 1\<rparr>, ''........'', Some 0) [''ab'', ''cde'']
     = Ret (ODR_OK, (s', ''abcde...'', Some (length ''abcde''))) \<and> dataOffset s' = 0"
  using od_ext_write_data_downloads
    [of "\<lparr>dataOffset = 0 :: u32, dataLength = 5, subIndex = 1\<rparr>" "[''ab'', ''cde'']" "''........''" 0]
  by simp

text \<open>
  C3: reading a non-empty file through \<^verbatim>\<open>od_ext_read_file\<close> in segments of any positive sizes that add up to
  enough delivers exactly its contents and leaves the file system unchanged, whatever an earlier
  transfer left in the stream's length field and the file pointer.
\<close>

theorem od_ext_read_file_uploads:
  fixes s :: "'s::len word od_stream"
  assumes "dataOffset s = 0" and "fs_node fs file_path = Some (File d)" and "d \<noteq> []" and "length d < 2 ^ LENGTH('s)"
    and "list_all (valid_count TYPE('s)) ns" and "length d \<le> sum_list ns"
  shows "\<exists>s' fp'. upload (read_file_call k file_path junk) (s, fs, fp) ns = Ret (ODR_OK, d, (s', fs, fp'))
    \<and> dataOffset s' = 0"
  using file_source.upload_complete [of file_path fs "(s, fs, fp)" d 0 ns k junk] assms
  by (auto simp: file_source_at_def word_unat_eq_iff)

theorem od_ext_read_file_uploads_witness:
  "\<exists>s' fp'. upload (read_file_call \<lparr>sendfile_k = (\<lambda>off n. Inr n), dir_size_k = 4096\<rparr> ''/a'' 0)
       (\<lparr>dataOffset = 0 :: u32, dataLength = 0, subIndex = 1\<rparr>, [([], Dir), ([''a''], File [1, 2, 3])], None) [2, 2]
     = Ret (ODR_OK, [1, 2, 3], (s', [([], Dir), ([''a''], File [1, 2, 3])], fp')) \<and> dataOffset s' = 0"
proof -
  have "fs_node [([], Dir), ([''a''], File [1, 2, 3])] ''/a'' = Some (File [1, 2, 3])"
    by (simp add: fs_node_def resolve_def path_push_def)
  then show ?thesis
    using od_ext_read_file_uploads
      [of "\<lparr>dataOffset = 0 :: u32, dataLength = 0, subIndex = 1\<rparr>" "[([], Dir), ([''a''], File [1, 2, 3])]" "''/a''"
        "[1, 2, 3]" "[2, 2]" "\<lparr>sendfile_k = (\<lambda>off n. Inr n), dir_size_k = 4096\<rparr>" 0 None]
    by (auto simp: valid_count_def)
qed

text \<open>
  C2: writing a file through \<^verbatim>\<open>od_ext_write_file\<close> in any non-empty segments whose total is the announced length
  creates or replaces the file with exactly the data, closes it, touches no other path and ends with
  \<^verbatim>\<open>ODR_OK\<close>.
\<close>

theorem od_ext_write_file_downloads:
  fixes s :: "'s::len word od_stream"
  assumes "dataOffset s = 0" and "bss \<noteq> []" and "list_all (\<lambda>bs. bs \<noteq> []) bss"
    and "unat (dataLength s) = length (concat bss)"
    and "file_path \<noteq> []" and "last file_path \<noteq> slash" and "map_of fs (resolve file_path) \<noteq> Some Dir"
    and "map_of fs (butlast (resolve file_path)) = Some Dir"
  shows "\<exists>s' fs'. download (write_file_call file_path) (s, fs, fp) bss = Ret (ODR_OK, (s', fs', None))
    \<and> map_of fs' = (map_of fs)(resolve file_path \<mapsto> File (concat bss)) \<and> dataOffset s' = 0"
proof -
  have "file_sink_got file_path fs (s, fs, fp) (unat (dataLength s)) []"
    using assms fs_create_ok by (simp add: file_sink_got_def)
  moreover have "list_all (\<lambda>bs. bs \<noteq> [] \<and> valid_count TYPE('s) (length bs)) bss"
    using valid_segments [OF assms(3,4)] .
  ultimately show ?thesis
    using file_sink.download_complete [of file_path fs "(s, fs, fp)" "unat (dataLength s)" "[]" bss] assms
    by (auto simp: file_sink_done_def)
qed

theorem od_ext_write_file_downloads_witness:
  "\<exists>s' fs'. download (write_file_call ''/a'') (\<lparr>dataOffset = 0 :: u32, dataLength = 3, subIndex = 1\<rparr>,
       [([], Dir)], None) [[1, 2], [3]] = Ret (ODR_OK, (s', fs', None)) \<and> map_of fs' [''a''] = Some (File [1, 2, 3])"
proof -
  have "resolve ''/a'' = [''a'']" by (simp add: resolve_def path_push_def)
  then show ?thesis
    using od_ext_write_file_downloads
      [of "\<lparr>dataOffset = 0 :: u32, dataLength = 3, subIndex = 1\<rparr>" "[[1, 2], [3]]" "''/a''" "[([], Dir)]" None]
    by auto
qed

text \<open>
  C22: whatever the stream says, \<^verbatim>\<open>od_ext_read_data\<close> stays inside both buffers as long as the peer's
  buffer holds \<^verbatim>\<open>count\<close> cells and the variable's size fits its type, \<^verbatim>\<open>od_ext_write_data\<close> stays inside them as
  long as the peer brings \<^verbatim>\<open>count\<close> cells and \<^verbatim>\<open>dataMaxLen\<close> is the size of the buffer, and a segment beyond the
  announced length is refused with \<^verbatim>\<open>ODR_DATA_LONG\<close> without touching the buffer.
\<close>

theorem od_ext_data_memory_safe:
  fixes s :: "'s::len word od_stream"
  assumes "unat count \<le> length b" and "length d < 2 ^ LENGTH('s)"
  shows "(\<exists>r. od_ext_read_data (Some s) (Some b) count cr (Some d) (length d) = Ret r)
    \<and> (\<exists>r. od_ext_write_data (Some s) (Some b) count cr (Some d) (length d) dw = Ret r)
    \<and> (unat (dataLength s) \<le> length d \<and> dataOffset s < dataLength s
         \<and> unat (dataLength s) < unat (dataOffset s) + unat count \<and> cr \<noteq> None \<longrightarrow>
       (\<exists>s'. od_ext_write_data (Some s) (Some b) count cr (Some d) (length d) dw = Ret (ODR_DATA_LONG, s', cr, Some d, dw)))"
proof (intro conjI impI)
  show "\<exists>r. od_ext_read_data (Some s) (Some b) count cr (Some d) (length d) = Ret r"
    using assms segment_bounds [of _ "of_nat (length d) :: 's word" count]
    by (fastforce simp: od_ext_read_data_def Let_def split: option.splits)
  show "\<exists>r. od_ext_write_data (Some s) (Some b) count cr (Some d) (length d) dw = Ret r"
    using assms segment_bounds [of _ "dataLength s" count]
    by (fastforce simp: od_ext_write_data_def Let_def split: option.splits)
next
  assume long: "unat (dataLength s) \<le> length d \<and> dataOffset s < dataLength s
     \<and> unat (dataLength s) < unat (dataOffset s) + unat count \<and> cr \<noteq> None"
  then have seg: "segment s (dataLength s) count = Some (ODR_OK, s\<lparr>dataOffset := 0\<rparr>, dataLength s - dataOffset s,
      dataLength s - dataOffset s, unat (dataOffset s))"
    and n: "unat (dataLength s - dataOffset s) = unat (dataLength s) - unat (dataOffset s)"
    using segment_last [of s "dataLength s" count] by (simp_all add: word_less_nat_alt)
  have "dataLength s - dataOffset s < count" using n long by (auto simp: word_less_nat_alt)
  with seg long
  show "\<exists>s'. od_ext_write_data (Some s) (Some b) count cr (Some d) (length d) dw = Ret (ODR_DATA_LONG, s', cr, Some d, dw)"
    by (auto simp: od_ext_write_data_def)
qed

theorem od_ext_data_memory_safe_witness:
  "\<exists>s'. od_ext_write_data (Some \<lparr>dataOffset = 3 :: u32, dataLength = 4, subIndex = 1\<rparr>) (Some ''xyz'') 3 (Some 0)
       (Some ''abcd'') (length ''abcd'') None = Ret (ODR_DATA_LONG, s', Some 0, Some ''abcd'', None)"
  using od_ext_data_memory_safe
    [of 3 "''xyz''" "''abcd''" "\<lparr>dataOffset = 3 :: u32, dataLength = 4, subIndex = 1\<rparr>" "Some 0" None]
  by simp

end
