(* ===== verification/Os_Command.thy ===== *)
theory Os_Command
  imports Od_Ext
begin

text \<open>
  Model of \<^verbatim>\<open>src/od_extensions/os_command_ext.c\<close>: a shell command arrives over CAN, a thread runs it, and
  its output is read back. The two object dictionary handlers and the body of the thread's loop
  are whole functions; a step relation then interleaves the handlers with the thread while a
  command is running.
\<close>

section \<open>State and configuration\<close>

definition COMMAND_BUFFER_LEN :: nat where "COMMAND_BUFFER_LEN = 4096"
definition REPLY_BUFFER_LEN :: nat where "REPLY_BUFFER_LEN = 10024"

lemmas os_lens = COMMAND_BUFFER_LEN_def REPLY_BUFFER_LEN_def

text \<open>
  The subindices and status codes are generated into \<^verbatim>\<open>OD.h\<close>, and \<^verbatim>\<open>OD_readOriginal\<close> belongs to the CANopen
  stack: both are parameters.
\<close>

record 'w os_config =
  SUB_COMMAND :: byte
  SUB_STATUS :: byte
  SUB_REPLY :: byte
  NO_ERROR_NO_REPLY :: byte
  NO_ERROR_REPLY :: byte
  ERROR_NO_REPLY :: byte
  EXECUTING :: byte
  readOriginal :: "'w od_stream \<Rightarrow> char list \<Rightarrow> 'w \<Rightarrow> 'w \<Rightarrow> (ODR \<times> 'w od_stream \<times> char list \<times> 'w) outcome"

record os_state =
  running :: bool
  status :: byte
  command :: "char list"
  reply :: "char list"

definition os_init :: "'w os_config \<Rightarrow> os_state" where
  "os_init cfg = \<lparr>running = False, status = ERROR_NO_REPLY cfg, command = replicate COMMAND_BUFFER_LEN nul,
     reply = replicate REPLY_BUFFER_LEN nul\<rparr>"

section \<open>The handlers\<close>

text \<open>The CANopen stack calls a handler with pointers that are not null.\<close>

definition strlen :: "char list \<Rightarrow> nat outcome" where
  "strlen r = bind_outcome (read_cstr r) (\<lambda>s. Ret (length s))"

definition deref_read ::
  "(ODR \<times> 'w od_stream option \<times> 'c list option \<times> 'w option) outcome \<Rightarrow> (ODR \<times> 'w od_stream \<times> 'c list \<times> 'w) outcome" where
  "deref_read m = bind_outcome m (\<lambda>r. case r of
     (code, Some s, Some b, Some n) \<Rightarrow> Ret (code, s, b, n) | _ \<Rightarrow> Fault Null_pointer)"

definition os_command_read ::
  "'s::len word os_config \<Rightarrow> os_state \<Rightarrow> 's word od_stream \<Rightarrow> char list \<Rightarrow> 's word \<Rightarrow> 's word \<Rightarrow>
   (ODR \<times> 's word od_stream \<times> char list \<times> 's word) outcome" where
  "os_command_read cfg st stream buf count countRead =
     (if subIndex stream = 0 then readOriginal cfg stream buf count countRead
      else if subIndex stream = SUB_COMMAND cfg then
        bind_outcome (strlen (command st)) (\<lambda>n.
        deref_read (od_ext_read_data (Some stream) (Some buf) count (Some countRead) (Some (command st)) (n + 1)))
      else if subIndex stream = SUB_STATUS cfg then
        bind_outcome (poke buf 0 [char_of_byte (status st)]) (\<lambda>buf'. Ret (ODR_OK, stream, buf', 1))
      else if subIndex stream = SUB_REPLY cfg then
        bind_outcome (peek (reply st) 0 1) (\<lambda>c.
        if c = [nul] then Ret (ODR_NO_DATA, stream, buf, countRead)
        else bind_outcome (strlen (reply st)) (\<lambda>n.
          deref_read (od_ext_read_data (Some stream) (Some buf) count (Some countRead) (Some (reply st)) (n + 1))))
      else Ret (ODR_OK, stream, buf, countRead))"

definition os_command_write ::
  "'s::len word os_config \<Rightarrow> os_state \<Rightarrow> 's word od_stream \<Rightarrow> char list \<Rightarrow> 's word \<Rightarrow> 's word \<Rightarrow>
   (ODR \<times> os_state \<times> 's word od_stream \<times> 's word) outcome" where
  "os_command_write cfg st stream buf count countWritten =
     (if subIndex stream = SUB_COMMAND cfg then
        if status st = EXECUTING cfg then Ret (ODR_DATA_LOC_CTRL, st, stream, countWritten)
        else bind_outcome (od_ext_write_data (Some stream) (Some buf) count (Some countWritten)
                             (Some (command st)) (COMMAND_BUFFER_LEN - 1) (Some 0)) (\<lambda>r. case r of
            (code, Some stream', Some cw, Some command', Some command_len) \<Rightarrow>
              if code = ODR_OK
              then bind_outcome (poke command' command_len [nul]) (\<lambda>command''.
                   Ret (code, st\<lparr>command := command'', status := EXECUTING cfg\<rparr>, stream', cw))
              else Ret (code, st\<lparr>command := command'\<rparr>, stream', cw)
          | _ \<Rightarrow> Fault Null_pointer)
      else Ret (ODR_READONLY, st, stream, countWritten))"

section \<open>The thread\<close>

text \<open>
  The text for the log: a buffer of 50 characters that ends in dots. \<open>junk\<close> is what it holds
  before.
\<close>

definition os_command_message :: "char \<Rightarrow> string \<Rightarrow> string outcome" where
  "os_command_message junk cmd =
     bind_outcome (poke (replicate 50 junk) 46 [CHR ''.'', CHR ''.'', CHR ''.'', nul]) (\<lambda>m.
     bind_outcome (poke m 0 (take (min (length cmd + 1) 46) (cmd @ [nul]))) read_cstr)"

text \<open>What follows \<^verbatim>\<open>run_bash_command\<close>: the result decides the status.\<close>

definition os_command_result :: "'w os_config \<Rightarrow> os_state \<Rightarrow> int \<Rightarrow> char list \<Rightarrow> os_state outcome" where
  "os_command_result cfg st reply_len reply1 =
     (if reply_len < 0 then
        bind_outcome (poke reply1 0 [nul]) (\<lambda>r. Ret (st\<lparr>reply := r, status := ERROR_NO_REPLY cfg\<rparr>))
      else if reply_len = 0 then
        bind_outcome (poke reply1 0 [nul]) (\<lambda>r. Ret (st\<lparr>reply := r, status := NO_ERROR_NO_REPLY cfg\<rparr>))
      else
        bind_outcome (poke reply1 (nat (reply_len - 1)) [nul]) (\<lambda>r. Ret (st\<lparr>reply := r, status := NO_ERROR_REPLY cfg\<rparr>)))"

text \<open>One round of the loop after the pause; \<open>sh\<close> is the shell.\<close>

definition os_command_tick ::
  "'w os_config \<Rightarrow> (string \<Rightarrow> int + char list) \<Rightarrow> char \<Rightarrow> os_state \<Rightarrow> os_state outcome" where
  "os_command_tick cfg sh junk st =
     (if status st \<noteq> EXECUTING cfg then Ret st
      else bind_outcome (strlen (command st)) (\<lambda>n.
        if n = 0 then Ret (st\<lparr>status := ERROR_NO_REPLY cfg\<rparr>)
        else bind_outcome (os_command_message junk (cstr (command st))) (\<lambda>message.
          bind_outcome (run_bash_command sh (cstr (command st)) (reply st) (int REPLY_BUFFER_LEN)) (\<lambda>(reply_len, reply1).
          os_command_result cfg st reply_len reply1))))"

section \<open>Interleaving the handlers with the thread\<close>

text \<open>
  The thread runs beside the CANopen thread, which calls the handlers and, at the end,
  \<^verbatim>\<open>os_command_extension_free\<close>. The thread's counter says where it is: not yet running, at the head of its loop,
  in the pause, reading the output of the command character by character, with the rest of
  the output and the number of characters stored, or gone. A call from the bus may come between any
  two of its steps; memory is taken to be sequentially consistent.
\<close>

datatype thread_pc = Not_started | Loop_head | Asleep | Reading "char list" nat | Exited

inductive os_step ::
  "'s::len word os_config \<Rightarrow> (string \<Rightarrow> int + char list) \<Rightarrow> os_state \<times> thread_pc \<Rightarrow> os_state \<times> thread_pc \<Rightarrow> bool"
  for cfg :: "'s::len word os_config" and sh where
  thread_start: "os_step cfg sh (st, Not_started) (st\<lparr>running := True\<rparr>, Loop_head)"
| loop_again: "running st \<Longrightarrow> os_step cfg sh (st, Loop_head) (st, Asleep)"
| loop_exit: "\<not> running st \<Longrightarrow> os_step cfg sh (st, Loop_head) (st, Exited)"
| wake_idle: "status st \<noteq> EXECUTING cfg \<Longrightarrow> os_step cfg sh (st, Asleep) (st, Loop_head)"
| wake_empty: "status st = EXECUTING cfg \<Longrightarrow> read_cstr (command st) = Ret [] \<Longrightarrow>
     os_step cfg sh (st, Asleep) (st\<lparr>status := ERROR_NO_REPLY cfg\<rparr>, Loop_head)"
| wake_fail: "status st = EXECUTING cfg \<Longrightarrow> read_cstr (command st) = Ret cmd \<Longrightarrow> cmd \<noteq> [] \<Longrightarrow> sh cmd = Inl e \<Longrightarrow>
     os_command_result cfg st (- e) (reply st) = Ret st' \<Longrightarrow>
     os_step cfg sh (st, Asleep) (st', Loop_head)"
| wake_run: "status st = EXECUTING cfg \<Longrightarrow> read_cstr (command st) = Ret cmd \<Longrightarrow> cmd \<noteq> [] \<Longrightarrow> sh cmd = Inr cs \<Longrightarrow>
     os_step cfg sh (st, Asleep) (st, Reading cs 0)"
| store_char: "\<not> int n > int REPLY_BUFFER_LEN - 1 \<Longrightarrow> poke (reply st) n [c] = Ret r \<Longrightarrow>
     os_step cfg sh (st, Reading (c # cs) n) (st\<lparr>reply := r\<rparr>, Reading cs (n + 1))"
| store_end: "cs = [] \<or> int n > int REPLY_BUFFER_LEN - 1 \<Longrightarrow> poke (reply st) n [nul] = Ret r \<Longrightarrow>
     os_command_result cfg st (int (n + 1)) r = Ret st' \<Longrightarrow>
     os_step cfg sh (st, Reading cs n) (st', Loop_head)"
| bus_write: "os_command_write cfg st stream buf count cw = Ret (code, st', stream', cw') \<Longrightarrow>
     os_step cfg sh (st, pc) (st', pc)"
| bus_free: "os_step cfg sh (st, pc) (st\<lparr>running := False\<rparr>, pc)"

inductive_cases os_step_readingE: "os_step cfg sh (st, Reading cs n) (st', pc')"

definition os_reachable ::
  "'s::len word os_config \<Rightarrow> (string \<Rightarrow> int + char list) \<Rightarrow> os_state \<times> thread_pc \<Rightarrow> bool" where
  "os_reachable cfg sh x \<longleftrightarrow> (os_step cfg sh)\<^sup>*\<^sup>* (os_init cfg, Not_started) x"

section \<open>The invariant\<close>

text \<open>
  Both buffers keep their size and their last terminator, and while the thread is reading, the status
  says so and the rest of the output still fits.
\<close>

definition os_inv :: "'s::len word os_config \<Rightarrow> os_state \<times> thread_pc \<Rightarrow> bool" where
  "os_inv cfg x \<longleftrightarrow> (case x of (st, pc) \<Rightarrow>
     length (command st) = COMMAND_BUFFER_LEN \<and> last (command st) = nul
     \<and> length (reply st) = REPLY_BUFFER_LEN \<and> last (reply st) = nul
     \<and> (case pc of Reading cs n \<Rightarrow> status st = EXECUTING cfg \<and> n + length cs < REPLY_BUFFER_LEN | _ \<Rightarrow> True))"

text \<open>What the shell may print for the buffers to be large enough, and what the status codes are.\<close>

definition os_env_ok :: "'s::len word os_config \<Rightarrow> (string \<Rightarrow> int + char list) \<Rightarrow> bool" where
  "os_env_ok cfg sh \<longleftrightarrow> (\<forall>cmd cs. sh cmd = Inr cs \<longrightarrow> length cs < REPLY_BUFFER_LEN)
     \<and> (\<forall>cmd e. sh cmd = Inl e \<longrightarrow> 0 < e)
     \<and> EXECUTING cfg \<notin> {NO_ERROR_NO_REPLY cfg, NO_ERROR_REPLY cfg, ERROR_NO_REPLY cfg}"

lemma last_poke:
  assumes "poke r off xs = Ret r'" and "off + length xs < length r"
  shows "last r' = last r"
  using assms by (auto simp: poke_Ret_iff)

lemma last_poke_nul: "poke r off [nul] = Ret r' \<Longrightarrow> last r = nul \<Longrightarrow> last r' = nul"
  by (auto simp: poke_Ret_iff last_append)

lemma os_result_inv:
  assumes "os_command_result cfg st n r = Ret st'" and "last r = nul"
  shows "command st' = command st" and "running st' = running st" and "length (reply st') = length r"
    and "last (reply st') = nul" and "status st' \<in> {ERROR_NO_REPLY cfg, NO_ERROR_NO_REPLY cfg, NO_ERROR_REPLY cfg}"
  using assms
  by (auto simp: os_command_result_def bind_outcome_Ret_iff last_poke_nul dest: length_poke last_poke_nul split: if_splits)

text \<open>
  A write from the bus either finds the thread at work and changes nothing, or keeps the buffer's size
  and its last terminator.
\<close>

lemma os_write_inv:
  fixes stream :: "'s::len word od_stream"
  assumes wr: "os_command_write cfg st stream buf count cw = Ret (code, st', stream', cw')"
    and len: "length (command st) = COMMAND_BUFFER_LEN" and last: "last (command st) = nul"
  shows "length (command st') = COMMAND_BUFFER_LEN \<and> last (command st') = nul \<and> reply st' = reply st
    \<and> running st' = running st \<and> (status st = EXECUTING cfg \<longrightarrow> st' = st)"
proof (cases "subIndex stream = SUB_COMMAND cfg \<and> status st \<noteq> EXECUTING cfg")
  case False
  then show ?thesis using assms by (auto simp: os_command_write_def split: if_splits)
next
  case True
  then obtain r where r: "od_ext_write_data (Some stream) (Some buf) count (Some cw) (Some (command st))
      (COMMAND_BUFFER_LEN - 1) (Some 0) = Ret r"
    using wr by (auto simp: os_command_write_def bind_outcome_Ret_iff)
  from r show ?thesis
  proof (cases rule: od_ext_write_data_result)
    case refused
    then show ?thesis using wr r True len last by (auto simp: os_command_write_def)
  next
    case (stored code1 s1 n start bs dw')
    define d' where "d' = take start (command st) @ bs @ drop (start + length bs) (command st)"
    have fits: "start + length bs < length (command st)" using stored(2,3) len by (simp add: os_lens)
    then have d': "length d' = COMMAND_BUFFER_LEN" "last d' = nul" using len last by (auto simp: d'_def)
    obtain k where k: "dw' = Some k" using stored(5) by auto
    obtain c where st': "st' = st\<lparr>command := c\<rparr> \<or> st' = st\<lparr>command := c, status := EXECUTING cfg\<rparr>"
      and c: "c = d' \<or> poke d' k [nul] = Ret c"
      using wr r stored(1) True unfolding k d'_def [symmetric]
      by (auto simp: os_command_write_def bind_outcome_Ret_iff split: if_splits)
    have "length c = COMMAND_BUFFER_LEN" "last c = nul"
      using c d' last_poke_nul [of d' k c] length_poke [of d' k "[nul]" c] by auto
    with st' True show ?thesis by auto
  qed
qed

lemma os_step_inv: "os_step cfg sh x y \<Longrightarrow> os_env_ok cfg sh \<Longrightarrow> os_inv cfg x \<Longrightarrow> os_inv cfg y"
proof (induction rule: os_step.induct)
  case (wake_fail st cmd e st')
  then show ?case using os_result_inv [OF wake_fail(5)] by (simp add: os_inv_def)
next
  case (store_char n st c r cs)
  then have "n + length [c] < length (reply st)" by (simp add: os_inv_def)
  then show ?case
    using store_char last_poke [OF store_char(2)] length_poke [OF store_char(2)] by (simp add: os_inv_def)
next
  case (store_end cs n st r st')
  then have "last r = nul" "length r = REPLY_BUFFER_LEN"
    using last_poke_nul [OF store_end(2)] length_poke [OF store_end(2)] by (simp_all add: os_inv_def)
  then show ?case using os_result_inv [OF store_end(3)] store_end by (simp add: os_inv_def)
next
  case (bus_write st stream buf count cw code st' stream' cw' pc)
  then show ?case
    using os_write_inv [OF bus_write(1)] by (auto simp: os_inv_def split: thread_pc.splits)
qed (auto simp: os_inv_def os_env_ok_def split: thread_pc.splits)

lemma os_init_inv: "os_inv cfg (os_init cfg, Not_started)"
  by (simp add: os_inv_def os_init_def os_lens)

lemma os_reachable_inv:
  assumes "os_reachable cfg sh x" and "os_env_ok cfg sh"
  shows "os_inv cfg x"
  using assms(1) unfolding os_reachable_def
  by (induction rule: rtranclp_induct) (auto intro: os_init_inv os_step_inv assms(2))

lemma terminated_region: "r \<noteq> [] \<Longrightarrow> last r = nul \<Longrightarrow> strlen r = Ret (length (cstr r)) \<and> length (cstr r) < length r"
  using length_cstr_less [of r] last_in_set [of r] by (auto simp: strlen_def read_cstr_def)

lemma os_inv_regions:
  assumes "os_inv cfg (st, pc)"
  shows "length (command st) = COMMAND_BUFFER_LEN" and "length (reply st) = REPLY_BUFFER_LEN"
    and "strlen (command st) = Ret (length (cstr (command st)))" and "strlen (reply st) = Ret (length (cstr (reply st)))"
    and "length (cstr (command st)) + 1 \<le> length (command st)" and "length (cstr (reply st)) + 1 \<le> length (reply st)"
proof -
  have c: "command st \<noteq> []" "last (command st) = nul" and r: "reply st \<noteq> []" "last (reply st) = nul"
    using assms by (auto simp: os_inv_def os_lens)
  show "length (command st) = COMMAND_BUFFER_LEN" "length (reply st) = REPLY_BUFFER_LEN"
    using assms by (simp_all add: os_inv_def)
  show "strlen (command st) = Ret (length (cstr (command st)))" "strlen (reply st) = Ret (length (cstr (reply st)))"
    "length (cstr (command st)) + 1 \<le> length (command st)" "length (cstr (reply st)) + 1 \<le> length (reply st)"
    using terminated_region [OF c] terminated_region [OF r] by simp_all
qed

lemma os_message_safe: "\<exists>m. os_command_message junk cmd = Ret m"
proof -
  have "take 46 (replicate 50 junk) @ [CHR ''.'', CHR ''.'', CHR ''.'', nul] @ drop 50 (replicate 50 junk)
      = replicate 46 junk @ [CHR ''.'', CHR ''.'', CHR ''.'', nul]" by simp
  then show ?thesis
    by (auto simp: os_command_message_def read_cstr_def min_def simp del: append.simps replicate.simps)
qed

lemma run_bash_safe:
  assumes "sh cmd = Inr cs" and "length cs < length out"
  shows "run_bash_command sh cmd out (int (length out)) = Ret (int (length cs) + 1, cs @ nul # drop (length cs + 1) out)"
proof -
  have "read_pipe cs 0 (int (length out)) out = Ret (length cs, cs @ drop (length cs) out)"
    using read_pipe_eq [of 0 cs "length out" out] assms(2) by simp
  then show ?thesis using assms by (auto simp: run_bash_command_def)
qed

lemma os_tick_safe:
  assumes "os_inv cfg (st, Asleep)" and "os_env_ok cfg sh"
  shows "\<exists>st'. os_command_tick cfg sh junk st = Ret st'"
proof (cases "sh (cstr (command st))")
  case (Inl e)
  then have "0 < e" using assms(2) by (auto simp: os_env_ok_def)
  with Inl os_inv_regions [OF assms(1)] os_message_safe [of junk "cstr (command st)"] show ?thesis
    by (auto simp: os_command_tick_def run_bash_command_def os_command_result_def os_lens)
next
  case (Inr cs)
  then have "length cs < length (reply st)" using assms by (auto simp: os_env_ok_def os_inv_def)
  from run_bash_safe [of sh, OF Inr this] this os_inv_regions [OF assms(1)] os_message_safe [of junk "cstr (command st)"]
  show ?thesis by (auto simp: os_command_tick_def os_command_result_def os_lens)
qed

lemma os_read_safe:
  fixes stream :: "'s::len word od_stream"
  assumes "os_inv cfg (st, pc)" and "unat count \<le> length buf" and "buf \<noteq> []" and "subIndex stream \<noteq> 0"
  shows "\<exists>r. os_command_read cfg st stream buf count cr = Ret r"
proof -
  note reg = os_inv_regions [OF assms(1)]
  have one: "0 < length (reply st)" "0 < length buf" using reg(2) assms(3) by (simp_all add: os_lens)
  have read: "\<exists>r. deref_read (od_ext_read_data (Some stream) (Some buf) count (Some cr) (Some d) n) = Ret r"
    if "n \<le> length d" for d n
    by (rule od_ext_read_data_safe [OF assms(2) that, of stream cr]) (simp add: deref_read_def)
  obtain c rs where "reply st = c # rs" using one by (cases "reply st") simp_all
  then show ?thesis using read [OF reg(5)] read [OF reg(6)] reg(3,4) one assms(4)
    by (auto simp: os_command_read_def Suc_le_eq simp del: One_nat_def)
qed

section \<open>The handlers as a sink and a source\<close>

text \<open>
  The command object keeps the contract of a sink, and the reply object that of a source: both follow from
  the contracts of the buffer helpers.
\<close>

definition os_write_call ::
  "'s::len word os_config \<Rightarrow> 's word od_stream \<times> os_state \<Rightarrow> char list \<Rightarrow> (ODR \<times> ('s word od_stream \<times> os_state)) outcome" where
  "os_write_call cfg x bs = (case x of (stream, st) \<Rightarrow>
     bind_outcome (os_command_write cfg st stream bs (of_nat (length bs)) 0)
       (\<lambda>(code, st', stream', cw). Ret (code, (stream', st'))))"

definition os_sink_got ::
  "'s::len word os_config \<Rightarrow> os_state \<Rightarrow> 's word od_stream \<times> os_state \<Rightarrow> nat \<Rightarrow> char list \<Rightarrow> bool" where
  "os_sink_got cfg st0 x L w \<longleftrightarrow> (case x of (stream, st) \<Rightarrow>
     subIndex stream = SUB_COMMAND cfg \<and> status st0 \<noteq> EXECUTING cfg \<and> length (command st0) = COMMAND_BUFFER_LEN
     \<and> (\<exists>d. st = st0\<lparr>command := d\<rparr> \<and> data_sink_got (COMMAND_BUFFER_LEN - 1) (command st0) (stream, d, Some 0) L w))"

definition os_sink_done ::
  "'s::len word os_config \<Rightarrow> os_state \<Rightarrow> 's word od_stream \<times> os_state \<Rightarrow> char list \<Rightarrow> bool" where
  "os_sink_done cfg st0 x w \<longleftrightarrow> (case x of (stream, st) \<Rightarrow>
     st = st0\<lparr>command := w @ nul # drop (length w + 1) (command st0), status := EXECUTING cfg\<rparr>
     \<and> dataOffset stream = 0)"

lemma os_write_call_step:
  assumes "write_data_call (COMMAND_BUFFER_LEN - 1) (stream, d, Some 0) bs = Ret (code, (s', d', Some k))"
    and "subIndex stream = SUB_COMMAND cfg" and "status st \<noteq> EXECUTING cfg" and "command st = d"
    and "code = ODR_OK \<Longrightarrow> k < length d'"
  shows "os_write_call cfg (stream, st) bs = Ret (code, (s',
      if code = ODR_OK then st\<lparr>command := d'[k := nul], status := EXECUTING cfg\<rparr> else st\<lparr>command := d'\<rparr>))"
    and "subIndex s' = subIndex stream"
proof -
  obtain cw where od: "od_ext_write_data (Some stream) (Some bs) (of_nat (length bs)) (Some 0) (Some d)
      (COMMAND_BUFFER_LEN - 1) (Some 0) = Ret (code, Some s', Some cw, Some d', Some k)"
    and "subIndex s' = subIndex stream"
    by (rule write_data_call_Ret [OF assms(1)])
  then show "subIndex s' = subIndex stream" by simp
  show "os_write_call cfg (stream, st) bs = Ret (code, (s',
      if code = ODR_OK then st\<lparr>command := d'[k := nul], status := EXECUTING cfg\<rparr> else st\<lparr>command := d'\<rparr>))"
    using od assms(2-5) by (auto simp: os_write_call_def os_command_write_def upd_conv_take_nth_drop Suc_le_eq)
qed

interpretation os_sink: segmented_sink "os_write_call (cfg :: 's::len word os_config)" "os_sink_got cfg st0" "os_sink_done cfg st0"
  "valid_count TYPE('s)"
proof
  fix x :: "'s word od_stream \<times> os_state" and L and w bs :: "char list"
  assume got: "os_sink_got cfg st0 x L w" and n: "valid_count TYPE('s) (length bs)" and more: "length w + length bs < L"
  obtain stream d where x: "x = (stream, st0\<lparr>command := d\<rparr>)" "subIndex stream = SUB_COMMAND cfg" "status st0 \<noteq> EXECUTING cfg"
    and data: "data_sink_got (COMMAND_BUFFER_LEN - 1) (command st0) (stream, d, Some 0) L w"
    and len: "length (command st0) = COMMAND_BUFFER_LEN"
    using got by (auto simp: os_sink_got_def)
  obtain s' d' dw where w: "write_data_call (COMMAND_BUFFER_LEN - 1) (stream, d, Some 0) bs = Ret (ODR_PARTIAL, (s', d', dw))"
    "data_sink_got (COMMAND_BUFFER_LEN - 1) (command st0) (s', d', dw) L (w @ bs)"
    using data_sink.wr_more [OF data n more] by auto
  obtain k where "dw = Some k" using w(2) by (auto simp: data_sink_got_def)
  then have "os_write_call cfg x bs = Ret (ODR_PARTIAL, (s', st0\<lparr>command := d'\<rparr>))" "subIndex s' = subIndex stream"
    using os_write_call_step [OF w(1) [unfolded \<open>dw = Some k\<close>] x(2), of "st0\<lparr>command := d\<rparr>"] x by simp_all
  with w(2) x len show "\<exists>x'. os_write_call cfg x bs = Ret (ODR_PARTIAL, x') \<and> os_sink_got cfg st0 x' L (w @ bs)"
    by (auto simp: os_sink_got_def data_sink_got_def)
next
  fix x :: "'s word od_stream \<times> os_state" and L and w bs :: "char list"
  assume got: "os_sink_got cfg st0 x L w" and n: "valid_count TYPE('s) (length bs)" and ne: "bs \<noteq> []"
    and last: "length w + length bs = L"
  obtain stream d where x: "x = (stream, st0\<lparr>command := d\<rparr>)" "subIndex stream = SUB_COMMAND cfg" "status st0 \<noteq> EXECUTING cfg"
    and data: "data_sink_got (COMMAND_BUFFER_LEN - 1) (command st0) (stream, d, Some 0) L w"
    and len: "length (command st0) = COMMAND_BUFFER_LEN"
    using got by (auto simp: os_sink_got_def)
  define k where "k = length (w @ bs)"
  have k: "k < length (command st0)" using data len last by (simp add: data_sink_got_def k_def os_lens)
  obtain s' d' where w: "write_data_call (COMMAND_BUFFER_LEN - 1) (stream, d, Some 0) bs = Ret (ODR_OK, (s', d', Some k))"
    "d' = (w @ bs) @ drop k (command st0)" "dataOffset s' = 0"
    using data_sink.wr_last [OF data n ne last] by (auto simp: data_sink_done_def k_def)
  have "d'[k := nul] = (w @ bs) @ nul # drop (k + 1) (command st0)"
    using k unfolding w(2) by (simp add: list_update_append k_def Cons_nth_drop_Suc [symmetric])
  moreover have "k < length d'" using k w(2) by (simp add: k_def)
  ultimately have "os_write_call cfg x bs = Ret (ODR_OK, (s', st0\<lparr>command := (w @ bs) @ nul # drop (k + 1) (command st0),
      status := EXECUTING cfg\<rparr>))"
    using os_write_call_step(1) [OF w(1) x(2), of "st0\<lparr>command := d\<rparr>"] x by simp
  then show "\<exists>x'. os_write_call cfg x bs = Ret (ODR_OK, x') \<and> os_sink_done cfg st0 x' (w @ bs)"
    using w(3) by (simp add: os_sink_done_def k_def)
next
  fix x :: "'s word od_stream \<times> os_state" and L and w bs :: "char list"
  assume got: "os_sink_got cfg st0 x L w" and n: "valid_count TYPE('s) (length bs)"
    and long: "length w < L" "L < length w + length bs"
  obtain stream d where x: "x = (stream, st0\<lparr>command := d\<rparr>)" "subIndex stream = SUB_COMMAND cfg" "status st0 \<noteq> EXECUTING cfg"
    and data: "data_sink_got (COMMAND_BUFFER_LEN - 1) (command st0) (stream, d, Some 0) L w"
    using got by (auto simp: os_sink_got_def)
  obtain y where "write_data_call (COMMAND_BUFFER_LEN - 1) (stream, d, Some 0) bs = Ret (ODR_DATA_LONG, y)"
    using data_sink.wr_long [OF data n long] by blast
  then obtain s' d' dw cw where "od_ext_write_data (Some stream) (Some bs) (of_nat (length bs)) (Some 0) (Some d)
      (COMMAND_BUFFER_LEN - 1) (Some 0) = Ret (ODR_DATA_LONG, Some s', Some cw, Some d', dw)"
    using write_data_call_Ret by (metis prod.collapse)
  moreover from this have "dw \<noteq> None" by (cases rule: od_ext_write_data_result) auto
  ultimately show "\<exists>x'. os_write_call cfg x bs = Ret (ODR_DATA_LONG, x')"
    using x by (auto simp: os_write_call_def os_command_write_def)
qed

definition os_subs_ok :: "'w os_config \<Rightarrow> bool" where
  "os_subs_ok cfg \<longleftrightarrow> distinct [0, SUB_COMMAND cfg, SUB_STATUS cfg, SUB_REPLY cfg]"

definition os_read_call ::
  "'s::len word os_config \<Rightarrow> char \<Rightarrow> 's word od_stream \<times> os_state \<Rightarrow> nat \<Rightarrow>
   (ODR \<times> char list \<times> ('s word od_stream \<times> os_state)) outcome" where
  "os_read_call cfg junk x n = (case x of (stream, st) \<Rightarrow>
     bind_outcome (os_command_read cfg st stream (replicate n junk) (of_nat n) 0)
       (\<lambda>(code, stream', b, cr). Ret (code, take (unat cr) b, (stream', st))))"

definition os_source_at ::
  "'s::len word os_config \<Rightarrow> os_state \<Rightarrow> 's word od_stream \<times> os_state \<Rightarrow> char list \<Rightarrow> nat \<Rightarrow> bool" where
  "os_source_at cfg st0 x d p \<longleftrightarrow> (case x of (stream, st) \<Rightarrow>
     st = st0 \<and> os_subs_ok cfg \<and> subIndex stream = SUB_REPLY cfg
     \<and> cstr (reply st0) \<noteq> [] \<and> nul \<in> set (reply st0) \<and> data_source_at (reply st0) (length (cstr (reply st0)) + 1) (stream, reply st0) d p)"

lemma os_read_call_reply:
  assumes src: "os_source_at cfg st0 (stream, st) d p" and n: "valid_count TYPE('s::len) n"
    and read: "read_data_call junk (length (cstr (reply st0)) + 1) (stream, reply st0) n
      = Ret (code, bs, (s' :: 's word od_stream, r))"
  shows "os_read_call cfg junk (stream, st) n = Ret (code, bs, (s', st0)) \<and> subIndex s' = subIndex stream \<and> r = reply st0"
proof -
  have st: "st = st0" "subIndex stream = SUB_REPLY cfg" "os_subs_ok cfg" "cstr (reply st0) \<noteq> []" "nul \<in> set (reply st0)"
    using src by (simp_all add: os_source_at_def)
  obtain c cs where reply: "reply st0 = c # cs" "c \<noteq> nul" using st(4) by (cases "reply st0") (auto simp: cstr_def split: if_splits)
  have len: "strlen (reply st0) = Ret (length (cstr (reply st0)))" using st(5) by (simp add: strlen_def read_cstr_def)
  have cnt: "unat (of_nat n :: 's word) \<le> length (replicate n junk)" using n by (simp add: valid_count_def)
  have fits: "length (cstr (reply st0)) + 1 \<le> length (reply st0)" using length_cstr_less [OF st(5)] by simp
  obtain code' s1 b1 n1 where od: "od_ext_read_data (Some stream) (Some (replicate n junk)) (of_nat n) (Some 0) (Some (reply st0))
      (length (cstr (reply st0)) + 1) = Ret (code', Some s1, Some b1, Some n1)" "subIndex s1 = subIndex stream"
    by (rule od_ext_read_data_safe [OF cnt fits])
  have "os_command_read cfg st0 stream (replicate n junk) (of_nat n) 0 = Ret (code', s1, b1, n1)"
    using st(2,3) reply len od(1) by (auto simp: os_command_read_def os_subs_ok_def deref_read_def)
  with od read st show ?thesis by (auto simp: os_read_call_def read_data_call_def read_call_def)
qed

interpretation os_source: segmented_source "os_read_call (cfg :: 's::len word os_config) junk" "os_source_at cfg st0"
  "valid_count TYPE('s)"
proof
  fix x :: "'s word od_stream \<times> os_state" and d p n
  assume src: "os_source_at cfg st0 x d p" and n: "valid_count TYPE('s) n" and more: "p + n < length d"
  obtain stream st where x: "x = (stream, st)" by (cases x)
  have data: "data_source_at (reply st0) (length (cstr (reply st0)) + 1) (stream, reply st0) d p"
    using src by (simp add: os_source_at_def x)
  obtain s' r where r: "read_data_call junk (length (cstr (reply st0)) + 1) (stream, reply st0) n
      = Ret (ODR_PARTIAL, take n (drop p d), (s', r))"
    "data_source_at (reply st0) (length (cstr (reply st0)) + 1) (s', r) d (p + n)"
    using data_source.rd_more [OF data n more, of junk] by auto
  from os_read_call_reply [OF src [unfolded x] n r(1)] r(2) src
  show "\<exists>x'. os_read_call cfg junk x n = Ret (ODR_PARTIAL, take n (drop p d), x') \<and> os_source_at cfg st0 x' d (p + n)"
    by (auto simp: x os_source_at_def)
next
  fix x :: "'s word od_stream \<times> os_state" and d p n
  assume src: "os_source_at cfg st0 x d p" and n: "valid_count TYPE('s) n" and pd: "p < length d" "length d \<le> p + n"
  obtain stream st where x: "x = (stream, st)" by (cases x)
  have data: "data_source_at (reply st0) (length (cstr (reply st0)) + 1) (stream, reply st0) d p"
    using src by (simp add: os_source_at_def x)
  obtain s' r where r: "read_data_call junk (length (cstr (reply st0)) + 1) (stream, reply st0) n = Ret (ODR_OK, drop p d, (s', r))"
    "data_source_at (reply st0) (length (cstr (reply st0)) + 1) (s', r) d 0"
    using data_source.rd_last [OF data n pd, of junk] by auto
  from os_read_call_reply [OF src [unfolded x] n r(1)] r(2) src
  show "\<exists>x'. os_read_call cfg junk x n = Ret (ODR_OK, drop p d, x') \<and> os_source_at cfg st0 x' d 0"
    by (auto simp: x os_source_at_def)
qed

section \<open>Safety of the extension\<close>


text \<open>A configuration with the codes of CiA 301, for concrete runs.\<close>

definition cia301_config :: "u32 os_config" where
  "cia301_config = \<lparr>SUB_COMMAND = 1, SUB_STATUS = 2, SUB_REPLY = 3, NO_ERROR_NO_REPLY = 0, NO_ERROR_REPLY = 1,
     ERROR_NO_REPLY = 2, EXECUTING = 0xFF, readOriginal = (\<lambda>s b n c. Ret (ODR_OK, s, b, c))\<rparr>"

lemma cia301_env: "length out < REPLY_BUFFER_LEN \<Longrightarrow> os_env_ok cia301_config (\<lambda>cmd. Inr out)"
  by (simp add: os_env_ok_def cia301_config_def)


text \<open>
  C23: while the thread is reading the output of a command, the command it runs cannot change: every write
  to it from the bus is refused with \<^verbatim>\<open>ODR_DATA_LOC_CTRL\<close>, and the status says executing until the step that
  ends the command.
\<close>

theorem os_command_frozen_while_running:
  fixes cfg :: "'s::len word os_config"
  assumes "os_env_ok cfg sh" and "os_reachable cfg sh (st, Reading cs n)"
    and "os_step cfg sh (st, Reading cs n) (st', pc')" and "subIndex stream = SUB_COMMAND cfg"
  shows "command st' = command st \<and> (status st' = EXECUTING cfg \<longleftrightarrow> pc' \<noteq> Loop_head)
    \<and> os_command_write cfg st stream buf count cw = Ret (ODR_DATA_LOC_CTRL, st, stream, cw)"
proof -
  have inv: "os_inv cfg (st, Reading cs n)" using os_reachable_inv [OF assms(2,1)] .
  then have exec: "status st = EXECUTING cfg" by (simp add: os_inv_def)
  have end_step: "command st'' = command st \<and> status st'' \<noteq> EXECUTING cfg"
    if "poke (reply st) n [nul] = Ret r" "os_command_result cfg st (int (n + 1)) r = Ret st''" for r st''
    using os_result_inv [OF that(2)] last_poke_nul [OF that(1)] inv assms(1) by (auto simp: os_inv_def os_env_ok_def)
  have write_step: "st'' = st" if "os_command_write cfg st s b m w = Ret (code, st'', s', w')" for s b m w code st'' s' w'
    using os_write_inv [OF that] inv exec by (simp add: os_inv_def)
  from assms(3) have "command st' = command st \<and> (status st' = EXECUTING cfg \<longleftrightarrow> pc' \<noteq> Loop_head)"
    by (elim os_step_readingE) (use exec end_step write_step in \<open>fastforce+\<close>)
  with exec assms(4) show ?thesis by (simp add: os_command_write_def)
qed

section \<open>A command from the bus to its reply\<close>

lemma os_tick_runs:
  assumes "os_inv cfg (st, Asleep)" and "status st = EXECUTING cfg" and "cstr (command st) = cmd" and "cmd \<noteq> []"
    and "sh cmd = Inr out" and "length out < REPLY_BUFFER_LEN"
  shows "os_command_tick cfg sh junk st
    = Ret (st\<lparr>reply := out @ nul # drop (length out + 1) (reply st), status := NO_ERROR_REPLY cfg\<rparr>)"
proof -
  note reg = os_inv_regions [OF assms(1)]
  obtain m where m: "os_command_message junk cmd = Ret m" using os_message_safe by blast
  have "run_bash_command sh cmd (reply st) (int REPLY_BUFFER_LEN)
      = Ret (int (length out) + 1, out @ nul # drop (length out + 1) (reply st))"
    using run_bash_safe [of sh cmd out "reply st"] assms reg(2) by simp
  then show ?thesis using assms reg m by (simp add: os_command_tick_def os_command_result_def)
qed

lemma os_sink_start:
  assumes "os_inv cfg (st, pc)" and "status st \<noteq> EXECUTING cfg" and "subIndex stream = SUB_COMMAND cfg"
    and "dataOffset stream = 0" and "unat (dataLength stream) < COMMAND_BUFFER_LEN"
  shows "os_sink_got cfg st (stream, st) (unat (dataLength stream)) []"
proof -
  have "st = st\<lparr>command := command st\<rparr>" by simp
  then show ?thesis
    using assms os_inv_regions(1) [OF assms(1)] by (fastforce simp: os_sink_got_def data_sink_got_def os_lens)
qed

text \<open>
  C8: a command sent from the bus in any segments, while no other command runs, is run as sent: after the
  next round of the thread the status is "no error, reply" and reading the reply object, in any
  segments, delivers the whole output of the command and its terminator.
\<close>

theorem os_command_request_reply:
  fixes cfg :: "'s::len word os_config"
  assumes "os_inv cfg (st, Asleep)" and "status st \<noteq> EXECUTING cfg" and "os_subs_ok cfg" and "REPLY_BUFFER_LEN < 2 ^ LENGTH('s)"
    and "subIndex stream = SUB_COMMAND cfg" and "dataOffset stream = 0" and "unat (dataLength stream) = length (concat bss)"
    and "bss \<noteq> []" and "list_all (\<lambda>bs. bs \<noteq> [] \<and> is_cstr bs) bss" and "length (concat bss) < COMMAND_BUFFER_LEN"
    and "sh (concat bss) = Inr out" and "out \<noteq> []" and "is_cstr out" and "length out < REPLY_BUFFER_LEN"
    and "subIndex rstream = SUB_REPLY cfg" and "dataOffset rstream = 0"
    and "list_all (valid_count TYPE('s)) ns" and "length out + 1 \<le> sum_list ns"
  shows "\<exists>s1 st1 st2 x. download (os_write_call cfg) (stream, st) bss = Ret (ODR_OK, (s1, st1))
    \<and> os_command_tick cfg sh junk st1 = Ret st2 \<and> status st2 = NO_ERROR_REPLY cfg
    \<and> upload (os_read_call cfg junk) (rstream, st2) ns = Ret (ODR_OK, out @ [nul], x)"
proof -
  let ?cmd = "concat bss"
  have cmd: "is_cstr ?cmd" "?cmd \<noteq> []" using assms(8,9) by (auto simp: list_all_iff is_cstr_def neq_Nil_conv)
  have "list_all (\<lambda>bs. bs \<noteq> []) bss" using assms(9) by (auto simp: list_all_iff)
  note segs = valid_segments [OF this assms(7)]
  have got: "os_sink_got cfg st (stream, st) (unat (dataLength stream)) []"
    using os_sink_start [OF assms(1,2,5,6)] assms(7,10) by simp
  define st1 where "st1 = st\<lparr>command := ?cmd @ nul # drop (length ?cmd + 1) (command st), status := EXECUTING cfg\<rparr>"
  obtain s1 where down: "download (os_write_call cfg) (stream, st) bss = Ret (ODR_OK, (s1, st1))"
    using os_sink.download_complete [OF got segs assms(8)] assms(7) by (auto simp: os_sink_done_def st1_def)
  have len: "length (command st) = COMMAND_BUFFER_LEN" "last (command st) = nul" using assms(1) by (simp_all add: os_inv_def)
  have inv1: "os_inv cfg (st1, Asleep)"
    using assms(1,10) len by (auto simp: os_inv_def st1_def last_append)
  define st2 where "st2 = st1\<lparr>reply := out @ nul # drop (length out + 1) (reply st1), status := NO_ERROR_REPLY cfg\<rparr>"
  have tick: "os_command_tick cfg sh junk st1 = Ret st2"
    using os_tick_runs [OF inv1, of ?cmd sh out junk] cmd assms(11,14) by (simp add: st1_def st2_def)
  have r: "cstr (reply st2) = out" "nul \<in> set (reply st2)" "length out + 1 \<le> length (reply st2)"
    using assms(13,14) by (simp_all add: st2_def)
  have "os_source_at cfg st2 (rstream, st2) (out @ [nul]) 0"
    using r assms by (simp add: os_source_at_def data_source_at_def st2_def)
  from os_source.upload_complete [OF this _ assms(17), of junk] assms(18)
  have "\<exists>x. upload (os_read_call cfg junk) (rstream, st2) ns = Ret (ODR_OK, out @ [nul], x)" by auto
  moreover have "status st2 = NO_ERROR_REPLY cfg" by (simp add: st2_def)
  ultimately show ?thesis using down tick by blast
qed

lemma cia301_start: "os_inv cia301_config (os_init cia301_config, Asleep)"
  using os_init_inv [of cia301_config] by (simp add: os_inv_def)

theorem os_command_request_reply_witness:
  "\<exists>s1 st1 st2 x. download (os_write_call cia301_config)
       (\<lparr>dataOffset = 0, dataLength = 3, subIndex = 1\<rparr>, os_init cia301_config) [''pw'', ''d''] = Ret (ODR_OK, (s1, st1))
     \<and> os_command_tick cia301_config (\<lambda>cmd. Inr ''/root'') CHR ''?'' st1 = Ret st2 \<and> status st2 = 1
     \<and> upload (os_read_call cia301_config CHR ''?'') (\<lparr>dataOffset = 0, dataLength = 0, subIndex = 3\<rparr>, st2) [4, 4]
       = Ret (ODR_OK, ''/root'' @ [nul], x)"
  using os_command_request_reply [of cia301_config "os_init cia301_config" "\<lparr>dataOffset = 0, dataLength = 3, subIndex = 1\<rparr>"
      "[''pw'', ''d'']" "\<lambda>cmd. Inr ''/root''" "''/root''" "\<lparr>dataOffset = 0, dataLength = 0, subIndex = 3\<rparr>" "[4, 4]" "CHR ''?''"]
    cia301_start
  by (simp add: os_init_def cia301_config_def os_subs_ok_def os_lens valid_count_def nul_def)

theorem os_command_frozen_while_running_witness:
  "\<exists>st. os_reachable cia301_config (\<lambda>cmd. Inr ''ok'') (st, Reading ''ok'' 0)
     \<and> os_command_write cia301_config st \<lparr>dataOffset = 0, dataLength = 3, subIndex = 1\<rparr> ''sh'' 3 0
       = Ret (ODR_DATA_LOC_CTRL, st, \<lparr>dataOffset = 0, dataLength = 3, subIndex = 1\<rparr>, 0)"
proof -
  let ?sh = "\<lambda>cmd :: string. Inr ''ok'' :: int + char list"
  let ?s = "\<lparr>dataOffset = 0 :: u32, dataLength = 2, subIndex = 1\<rparr>"
  have env: "os_env_ok cia301_config ?sh" by (rule cia301_env) (simp add: os_lens)
  define st0 where "st0 = (os_init cia301_config)\<lparr>running := True\<rparr>"
  have inv0: "os_inv cia301_config (st0, Asleep)" using cia301_start by (simp add: st0_def os_inv_def)
  have idle: "status st0 \<noteq> EXECUTING cia301_config" by (simp add: st0_def os_init_def cia301_config_def)
  have "os_sink_got cia301_config st0 (?s, st0) 2 []"
    using os_sink_start [OF inv0 idle, of ?s] by (simp add: cia301_config_def os_lens)
  from os_sink.wr_last [OF this, of "''ls''"]
  obtain s1 where w: "os_write_call cia301_config (?s, st0) ''ls'' = Ret (ODR_OK,
      (s1, st0\<lparr>command := ''ls'' @ nul # drop (length ''ls'' + 1) (command st0), status := EXECUTING cia301_config\<rparr>))"
    by (auto simp: valid_count_def os_sink_done_def)
  define st1 where "st1 = st0\<lparr>command := ''ls'' @ nul # drop (length ''ls'' + 1) (command st0), status := EXECUTING cia301_config\<rparr>"
  obtain cw' where wr: "os_command_write cia301_config st0 ?s ''ls'' (of_nat (length ''ls'')) 0 = Ret (ODR_OK, st1, s1, cw')"
    using w by (auto simp: os_write_call_def bind_outcome_Ret_iff st1_def)
  have "is_cstr ''ls''" by (simp add: nul_def)
  then have cmd: "read_cstr (command st1) = Ret ''ls''"
    using cstr_terminated [of "''ls''"] by (simp add: st1_def read_cstr_def del: cstr_terminated)
  have steps: "os_step cia301_config ?sh (os_init cia301_config, Not_started) (st0, Loop_head)"
    "os_step cia301_config ?sh (st0, Loop_head) (st0, Asleep)"
    "os_step cia301_config ?sh (st0, Asleep) (st1, Asleep)"
    "os_step cia301_config ?sh (st1, Asleep) (st1, Reading ''ok'' 0)"
    using os_step.thread_start [of cia301_config ?sh "os_init cia301_config"] os_step.loop_again [of st0 cia301_config ?sh]
      os_step.bus_write [OF wr, of ?sh Asleep] os_step.wake_run [OF _ cmd, of cia301_config ?sh "''ok''"]
    by (simp_all add: st0_def st1_def)
  then have reach: "os_reachable cia301_config ?sh (st1, Reading ''ok'' 0)"
    unfolding os_reachable_def by (meson converse_rtranclp_into_rtranclp rtranclp.rtrancl_refl)
  from os_command_frozen_while_running [OF env this os_step.bus_free, of "\<lparr>dataOffset = 0, dataLength = 3, subIndex = 1\<rparr>" "''sh''" 3 0]
  show ?thesis using reach by (auto simp: cia301_config_def)
qed

section \<open>The step relation is the loop body\<close>

lemma read_pipe_steps:
  "read_pipe cs n (int REPLY_BUFFER_LEN) (reply st) = Ret (m, r) \<Longrightarrow>
     \<exists>cs'. (os_step cfg sh)\<^sup>*\<^sup>* (st, Reading cs n) (st\<lparr>reply := r\<rparr>, Reading cs' m)
       \<and> (cs' = [] \<or> int m > int REPLY_BUFFER_LEN - 1)"
proof (induction cs arbitrary: n st)
  case Nil
  then show ?case by (auto intro: exI [of _ "[]"])
next
  case (Cons c cs)
  show ?case
  proof (cases "int n > int REPLY_BUFFER_LEN - 1")
    case True
    with Cons.prems have "m = n" "st\<lparr>reply := r\<rparr> = st" by auto
    with True show ?thesis by (intro exI [of _ "c # cs"]) simp
  next
    case False
    with Cons.prems obtain r1 where p: "poke (reply st) n [c] = Ret r1"
      "read_pipe cs (n + 1) (int REPLY_BUFFER_LEN) (reply (st\<lparr>reply := r1\<rparr>)) = Ret (m, r)"
      by (auto simp: bind_outcome_Ret_iff)
    obtain cs' where "(os_step cfg sh)\<^sup>*\<^sup>* (st\<lparr>reply := r1\<rparr>, Reading cs (n + 1)) (st\<lparr>reply := r\<rparr>, Reading cs' m)"
      "cs' = [] \<or> int m > int REPLY_BUFFER_LEN - 1"
      using Cons.IH [OF p(2)] by auto
    then show ?thesis
      using os_step.store_char [OF False p(1), of cfg sh cs] converse_rtranclp_into_rtranclp by metis
  qed
qed

lemma os_result_reply [simp]: "os_command_result cfg (st\<lparr>reply := r'\<rparr>) n r = os_command_result cfg st n r"
  by (simp add: os_command_result_def)

text \<open>
  C24: every result of the loop body of the thread is reached by steps of the interleaved
  system in which the bus makes no call: the safety results about interleavings speak of this code.
\<close>

theorem os_command_tick_is_run:
  assumes "os_command_tick cfg sh junk st = Ret st'"
  shows "(os_step cfg sh)\<^sup>*\<^sup>* (st, Asleep) (st', Loop_head)"
proof (cases "status st = EXECUTING cfg")
  case False
  with assms show ?thesis by (auto simp: os_command_tick_def intro!: r_into_rtranclp os_step.wake_idle)
next
  case exec: True
  then obtain cmd where cmd: "read_cstr (command st) = Ret cmd" "cstr (command st) = cmd"
    using assms by (auto simp: os_command_tick_def strlen_def bind_outcome_Ret_iff read_cstr_def split: if_splits)
  show ?thesis
  proof (cases "cmd = []")
    case True
    with assms exec cmd os_step.wake_empty show ?thesis by (force simp: os_command_tick_def strlen_def)
  next
    case ne: False
    with assms exec cmd obtain n r where run: "run_bash_command sh cmd (reply st) (int REPLY_BUFFER_LEN) = Ret (n, r)"
      and res: "os_command_result cfg st n r = Ret st'"
      by (auto simp: os_command_tick_def strlen_def bind_outcome_Ret_iff)
    show ?thesis
    proof (cases "sh cmd")
      case (Inl e)
      with run res have "os_command_result cfg st (- e) (reply st) = Ret st'" by (simp add: run_bash_command_def)
      with os_step.wake_fail [OF exec cmd(1) ne] Inl show ?thesis by blast
    next
      case (Inr cs)
      with run obtain m r1 where pipe: "read_pipe cs 0 (int REPLY_BUFFER_LEN) (reply st) = Ret (m, r1)"
        and nr: "poke r1 m [nul] = Ret r" "n = int (m + 1)"
        by (auto simp: run_bash_command_def bind_outcome_Ret_iff)
      obtain cs' where "(os_step cfg sh)\<^sup>*\<^sup>* (st, Reading cs 0) (st\<lparr>reply := r1\<rparr>, Reading cs' m)"
        and cs': "cs' = [] \<or> int m > int REPLY_BUFFER_LEN - 1"
        using read_pipe_steps [OF pipe] by blast
      with os_step.wake_run [OF exec cmd(1) ne, of sh] Inr
      have "(os_step cfg sh)\<^sup>*\<^sup>* (st, Asleep) (st\<lparr>reply := r1\<rparr>, Reading cs' m)"
        by (blast intro: converse_rtranclp_into_rtranclp)
      moreover have "os_step cfg sh (st\<lparr>reply := r1\<rparr>, Reading cs' m) (st', Loop_head)"
        using os_step.store_end [OF cs', of "st\<lparr>reply := r1\<rparr>" r cfg st' sh] nr res by simp
      ultimately show ?thesis by (rule rtranclp.rtrancl_into_rtrancl)
    qed
  qed
qed

theorem os_command_tick_is_run_witness:
  "\<exists>st st'. status st = 0xFF \<and> status st' = 1
     \<and> (os_step cia301_config (\<lambda>cmd. Inr ''ok''))\<^sup>*\<^sup>* (st, Asleep) (st', Loop_head)"
proof -
  define st where "st = (os_init cia301_config)\<lparr>command := ''ls'' @ nul # replicate 4093 nul, status := 0xFF\<rparr>"
  have inv: "os_inv cia301_config (st, Asleep)" by (simp add: st_def os_inv_def os_init_def os_lens)
  have "is_cstr ''ls''" by (simp add: nul_def)
  then have "cstr (command st) = ''ls''" using cstr_terminated [of "''ls''"] by (simp add: st_def del: cstr_terminated)
  then obtain st' where "os_command_tick cia301_config (\<lambda>cmd. Inr ''ok'') nul st = Ret st'" "status st' = 1"
    using os_tick_runs [OF inv, of "''ls''" "\<lambda>cmd. Inr ''ok''" "''ok''" nul] by (auto simp: st_def cia301_config_def os_lens)
  moreover have "status st = 0xFF" by (simp add: st_def)
  ultimately show ?thesis using os_command_tick_is_run [of cia301_config "\<lambda>cmd. Inr ''ok''" nul st st'] by blast
qed

end
