(* ===== verification/File_Transfer.thy ===== *)
theory File_Transfer
  imports Od_Ext
begin

text \<open>
  Model of \<^verbatim>\<open>src/od_extensions/file_transfer_ext.c\<close>: the two objects through which files go to and come from
  the file caches over CAN. Both objects share one pair of handlers, over the state of one
  object. A transfer goes through a file under \<^verbatim>\<open>/tmp\<close>.
\<close>

section \<open>State and configuration\<close>

definition PATH_LEN :: nat where "PATH_LEN = 256"

record file_transfer_data =
  raw :: "char list"
  file_name :: "char list"
  file_path :: "char list"
  tmp_file_path :: "char list"
  fp :: "fhandle option"
  cache :: "fcache option"
  file_cached :: bool
  files :: "char list option"

text \<open>The subindices are generated into \<^verbatim>\<open>OD.h\<close>, and \<^verbatim>\<open>OD_readOriginal\<close> belongs to the CANopen stack.\<close>

record 'w ft_config =
  SUB_LENGTH :: byte
  SUB_FILES_JSON :: byte
  SUB_FILE_NAME :: byte
  SUB_FILE_DATA :: byte
  SUB_REMOVE :: byte
  ft_readOriginal :: "'w od_stream \<Rightarrow> byte list \<Rightarrow> 'w \<Rightarrow> 'w \<Rightarrow> (ODR \<times> 'w od_stream \<times> byte list \<times> 'w) outcome"

text \<open>
  The state an object starts with: four arrays in fresh memory, of which only the first
  character is set. \<open>junk\<close> is what fresh memory contains.
\<close>

definition file_transfer_init :: "char \<Rightarrow> fcache option \<Rightarrow> file_transfer_data" where
  "file_transfer_init junk c =
     (let fresh = nul # replicate (PATH_LEN - 1) junk in
      \<lparr>raw = fresh, file_name = fresh, file_path = fresh, tmp_file_path = fresh, fp = None, cache = c,
       file_cached = False, files = None\<rparr>)"

section \<open>The handlers\<close>

text \<open>
  \<^verbatim>\<open>basename\<close> of \<^verbatim>\<open>libgen.h\<close> cuts trailing slashes off its argument in place.
\<close>

definition basename_inplace :: "char list \<Rightarrow> (string \<times> char list) outcome" where
  "basename_inplace r =
     bind_outcome (read_cstr r) (\<lambda>s.
     let t = rev (dropWhile (\<lambda>c. c = slash) (rev s)) in
     if s \<noteq> [] \<and> last s = slash \<and> t \<noteq> []
     then bind_outcome (poke r (length t) [nul]) (\<lambda>r'. Ret (basename s, r'))
     else Ret (basename s, r))"

definition store_cstr :: "char list \<Rightarrow> string \<Rightarrow> char list outcome" where
  "store_cstr r s = poke r 0 (s @ [nul])"

definition store_path :: "char list \<Rightarrow> int \<times> string option \<Rightarrow> char list outcome" where
  "store_path r res = (case snd res of None \<Rightarrow> Ret r | Some s \<Rightarrow> store_cstr r s)"

text \<open>What follows a completed write of the file name.\<close>

definition file_transfer_set_name :: "file_transfer_data \<Rightarrow> file_transfer_data outcome" where
  "file_transfer_set_name fdata =
     bind_outcome (basename_inplace (raw fdata)) (\<lambda>(base, raw1).
     bind_outcome (store_cstr (file_name fdata) base) (\<lambda>file_name1.
     bind_outcome (read_cstr raw1) (\<lambda>raw_s.
     bind_outcome (read_cstr file_name1) (\<lambda>name_s.
     let cached = strncmp_eq raw_s name_s (length raw_s);
         fdata1 = fdata\<lparr>raw := raw1, file_name := file_name1, file_cached := cached\<rparr> in
     if cached then
       (case cache fdata of
          None \<Rightarrow> Fault Null_pointer
        | Some c \<Rightarrow>
            bind_outcome (path_join (dir_path c) name_s PATH_LEN) (\<lambda>res.
            bind_outcome (store_path (file_path fdata) res) (\<lambda>file_path1.
            Ret (fdata1\<lparr>file_path := file_path1\<rparr>))))
     else
       bind_outcome (store_cstr (file_path fdata) raw_s) (\<lambda>file_path1.
       Ret (fdata1\<lparr>file_path := file_path1\<rparr>))))))"

text \<open>What the first segment of a file transfer does: the path under \<^verbatim>\<open>/tmp\<close> is built.\<close>

definition file_transfer_tmp_path :: "file_transfer_data \<Rightarrow> file_transfer_data outcome" where
  "file_transfer_tmp_path fdata =
     bind_outcome (read_cstr (file_name fdata)) (\<lambda>name_s.
     bind_outcome (path_join ''/tmp'' name_s PATH_LEN) (\<lambda>res.
     bind_outcome (store_path (tmp_file_path fdata) res) (\<lambda>tmp.
     Ret (fdata\<lparr>tmp_file_path := tmp\<rparr>))))"

text \<open>
  What follows a completed write of the file data. For an absolute name the file is moved only if
  the name equals the path under \<^verbatim>\<open>/tmp\<close>.
\<close>

definition file_transfer_finish :: "kern \<Rightarrow> fsys \<Rightarrow> file_transfer_data \<Rightarrow> (fsys \<times> file_transfer_data) outcome" where
  "file_transfer_finish k fs fdata =
     bind_outcome (read_cstr (raw fdata)) (\<lambda>raw_s.
     bind_outcome (read_cstr (tmp_file_path fdata)) (\<lambda>tmp_s.
     if take 1 raw_s = ''/'' then
       if strncmp_eq raw_s tmp_s (length raw_s + 1)
       then bind_outcome (move_file k fs tmp_s raw_s) (\<lambda>(e, fs1). Ret (fs1, fdata))
       else Ret (fs, fdata)
     else
       bind_outcome (fcache_add k fs (cache fdata) tmp_s True) (\<lambda>(e, fs1, c).
       Ret (fs1, fdata\<lparr>cache := c\<rparr>))))"

text \<open>
  Removing looks at the pointer to the value written, which is never null, not at the value.
\<close>

definition file_transfer_remove :: "fsys \<Rightarrow> file_transfer_data \<Rightarrow> (fsys \<times> file_transfer_data) outcome" where
  "file_transfer_remove fs fdata =
     bind_outcome (read_cstr (file_name fdata)) (\<lambda>name_s.
     if name_s = [] then Ret (fs, fdata)
     else
       bind_outcome (fcache_delete fs (cache fdata) (Some name_s)) (\<lambda>(e, fs1, c).
       bind_outcome (read_cstr (tmp_file_path fdata)) (\<lambda>tmp_s.
       let fs2 = snd (remove_file fs1 tmp_s) in
       bind_outcome (poke (raw fdata) 0 [nul]) (\<lambda>r0.
       bind_outcome (poke (file_name fdata) 0 [nul]) (\<lambda>r1.
       bind_outcome (poke (file_path fdata) 0 [nul]) (\<lambda>r2.
       bind_outcome (poke (tmp_file_path fdata) 0 [nul]) (\<lambda>r3.
       Ret (fs2, fdata\<lparr>raw := r0, file_name := r1, file_path := r2, tmp_file_path := r3, cache := c\<rparr>))))))))"

definition file_transfer_write ::
  "'s::len word ft_config \<Rightarrow> kern \<Rightarrow> fsys \<Rightarrow> file_transfer_data option \<Rightarrow> 's word od_stream \<Rightarrow> byte list \<Rightarrow> 's word \<Rightarrow> 's word \<Rightarrow>
   (ODR \<times> fsys \<times> file_transfer_data option \<times> 's word od_stream \<times> 's word) outcome" where
  "file_transfer_write cfg k fs object stream buf count countWritten = (case object of
       None \<Rightarrow> Ret (ODR_DEV_INCOMPAT, fs, object, stream, countWritten)
     | Some fdata \<Rightarrow>
         if subIndex stream = SUB_FILE_NAME cfg then
           bind_outcome (od_ext_write_data (Some stream) (Some buf) count (Some countWritten)
                           (Some (bytes_of_string (raw fdata))) (PATH_LEN - 1) (Some 0)) (\<lambda>r. case r of
               (code, Some stream', Some cw, Some raw', dw) \<Rightarrow>
                 let fdata1 = fdata\<lparr>raw := string_of_bytes raw'\<rparr> in
                 if code = ODR_OK
                 then bind_outcome (file_transfer_set_name fdata1) (\<lambda>fdata2. Ret (code, fs, Some fdata2, stream', cw))
                 else Ret (code, fs, Some fdata1, stream', cw)
             | _ \<Rightarrow> Fault Null_pointer)
         else if subIndex stream = SUB_FILE_DATA cfg then
           bind_outcome (peek (file_name fdata) 0 1) (\<lambda>c.
           if c = [nul] then Ret (ODR_NO_DATA, fs, object, stream, countWritten)
           else
             bind_outcome (if dataOffset stream = 0 then file_transfer_tmp_path fdata else Ret fdata) (\<lambda>fdata1.
             bind_outcome (read_cstr (tmp_file_path fdata1)) (\<lambda>tmp_s.
             bind_outcome (od_ext_write_file fs (Some stream) (Some buf) count (Some countWritten) (Some tmp_s)
                             (Some (fp fdata1))) (\<lambda>r. case r of
                 (code, fs1, Some stream', Some cw, Some fp') \<Rightarrow>
                   let fdata2 = fdata1\<lparr>fp := fp'\<rparr> in
                   if code = ODR_OK
                   then bind_outcome (file_transfer_finish k fs1 fdata2)
                          (\<lambda>(fs2, fdata3). Ret (code, fs2, Some fdata3, stream', cw))
                   else Ret (code, fs1, Some fdata2, stream', cw)
               | _ \<Rightarrow> Fault Null_pointer))))
         else if subIndex stream = SUB_REMOVE cfg then
           bind_outcome (file_transfer_remove fs fdata) (\<lambda>(fs1, fdata1). Ret (ODR_OK, fs1, Some fdata1, stream, 1))
         else Ret (ODR_READONLY, fs, object, stream, countWritten))"

text \<open>The part of a file read that runs on its first segment: the file is copied to \<^verbatim>\<open>/tmp\<close>.\<close>

definition file_transfer_stage :: "kern \<Rightarrow> fsys \<Rightarrow> file_transfer_data \<Rightarrow> (ODR \<times> fsys \<times> file_transfer_data) outcome" where
  "file_transfer_stage k fs fdata =
     bind_outcome (read_cstr (file_path fdata)) (\<lambda>path_s.
     if \<not> is_file fs path_s then Ret (ODR_NO_DATA, fs, fdata)
     else
       bind_outcome (file_transfer_tmp_path fdata) (\<lambda>fdata1.
       bind_outcome (read_cstr (tmp_file_path fdata1)) (\<lambda>tmp_s.
       bind_outcome (copy_file k fs path_s tmp_s) (\<lambda>(e, fs1).
       Ret (if e < 0 then ODR_DATA_LOC_CTRL else ODR_OK, fs1, fdata1)))))"

definition read_text ::
  "'s::len word od_stream \<Rightarrow> byte list \<Rightarrow> 's word \<Rightarrow> 's word \<Rightarrow> char list \<Rightarrow>
   (ODR \<times> 's word od_stream \<times> byte list \<times> 's word) outcome" where
  "read_text stream buf count countRead r =
     bind_outcome (read_cstr r) (\<lambda>s.
     bind_outcome (od_ext_read_data (Some stream) (Some buf) count (Some countRead) (Some (bytes_of_string r)) (length s + 1))
       (\<lambda>res. case res of (code, Some stream', Some buf', Some cr) \<Rightarrow> Ret (code, stream', buf', cr)
         | _ \<Rightarrow> Fault Null_pointer))"

definition file_transfer_read ::
  "'s::len word ft_config \<Rightarrow> kern \<Rightarrow> (nat \<Rightarrow> bool) \<Rightarrow> char \<Rightarrow> fsys \<Rightarrow> file_transfer_data option \<Rightarrow> 's word od_stream \<Rightarrow>
   byte list \<Rightarrow> 's word \<Rightarrow> 's word \<Rightarrow>
   (ODR \<times> fsys \<times> file_transfer_data option \<times> 's word od_stream \<times> byte list \<times> 's word) outcome" where
  "file_transfer_read cfg k malloc_ok junk fs object stream buf count countRead = (case object of
       None \<Rightarrow> Ret (ODR_DEV_INCOMPAT, fs, object, stream, buf, countRead)
     | Some fdata \<Rightarrow>
         if subIndex stream = 0 then
           bind_outcome (ft_readOriginal cfg stream buf count countRead)
             (\<lambda>(code, stream', buf', cr). Ret (code, fs, object, stream', buf', cr))
         else if subIndex stream = SUB_LENGTH cfg then
           bind_outcome (fcache_size fs (cache fdata)) (\<lambda>(n, c).
           bind_outcome (poke buf 0 [ucast (min n 0xFF)]) (\<lambda>buf'.
           Ret (ODR_OK, fs, Some (fdata\<lparr>cache := c\<rparr>), stream, buf', 1)))
         else if subIndex stream = SUB_FILES_JSON cfg then
           bind_outcome (fcache_list_files_as_json malloc_ok junk fs (cache fdata)) (\<lambda>(listing, c).
           let fdata1 = fdata\<lparr>files := listing, cache := c\<rparr> in
           case listing of
             None \<Rightarrow> Ret (ODR_OK, fs, Some fdata1, stream, buf, countRead)
           | Some r \<Rightarrow>
               bind_outcome (read_text stream buf count countRead r)
                 (\<lambda>(code, stream', buf', cr). Ret (code, fs, Some fdata1, stream', buf', cr)))
         else if subIndex stream = SUB_FILE_NAME cfg then
           bind_outcome (read_text stream buf count countRead (raw fdata))
             (\<lambda>(code, stream', buf', cr). Ret (code, fs, object, stream', buf', cr))
         else if subIndex stream = SUB_FILE_DATA cfg then
           bind_outcome (peek (file_name fdata) 0 1) (\<lambda>c.
           if c = [nul] then Ret (ODR_NO_DATA, fs, object, stream, buf, countRead)
           else
             bind_outcome (if dataOffset stream = 0 then file_transfer_stage k fs fdata else Ret (ODR_OK, fs, fdata))
               (\<lambda>(r, fs1, fdata1).
             if r = ODR_OK then
               bind_outcome (read_cstr (tmp_file_path fdata1)) (\<lambda>tmp_s.
               bind_outcome (od_ext_read_file k fs1 (Some stream) (Some buf) count (Some countRead) (Some tmp_s)
                               (Some (fp fdata1))) (\<lambda>res. case res of
                   (code, Some stream', Some buf', Some cr, Some fp') \<Rightarrow>
                     Ret (code, fs1, Some (fdata1\<lparr>fp := fp'\<rparr>), stream', buf', cr)
                 | _ \<Rightarrow> Fault Null_pointer))
             else Ret (r, fs1, Some fdata1, stream, buf, countRead)))
         else Ret (ODR_WRITEONLY, fs, object, stream, buf, countRead))"

section \<open>Text in a region\<close>

definition region_has :: "char list \<Rightarrow> string \<Rightarrow> bool" where
  "region_has r s \<longleftrightarrow> length r = PATH_LEN \<and> is_cstr s \<and> (\<exists>rest. r = s @ nul # rest)"

lemma region_has_read: "region_has r s \<Longrightarrow> read_cstr r = Ret s"
  by (auto simp: region_has_def read_cstr_def)

lemma region_has_length: "region_has r s \<Longrightarrow> length r = PATH_LEN \<and> length s < PATH_LEN"
  by (auto simp: region_has_def)

lemma region_has_first:
  assumes "region_has r s"
  shows "peek r 0 1 = Ret [if s = [] then nul else hd s]"
  using assms by (cases s) (auto simp: region_has_def)

lemma region_has_store:
  assumes "length r = PATH_LEN" and "length s < PATH_LEN" and "is_cstr s"
  shows "store_cstr r s = Ret (s @ nul # drop (length s + 1) r)" and "region_has (s @ nul # drop (length s + 1) r) s"
  using assms by (auto simp: store_cstr_def region_has_def)

text \<open>
  An object that has been given the plain name \<open>n\<close>: its arrays hold what the handlers derive
  from the name.
\<close>

definition ft_named :: "file_transfer_data \<Rightarrow> fcache \<Rightarrow> string \<Rightarrow> bool" where
  "ft_named fdata c n \<longleftrightarrow> cache fdata = Some c \<and> region_has (raw fdata) n \<and> region_has (file_name fdata) n
     \<and> region_has (file_path fdata) (joined (dir_path c) n) \<and> length (tmp_file_path fdata) = PATH_LEN"

text \<open>The names that fit: with the directory of the cache and with \<^verbatim>\<open>/tmp\<close> in front they are short enough.\<close>

definition ft_name :: "fcache \<Rightarrow> string \<Rightarrow> bool" where
  "ft_name c n \<longleftrightarrow> plain_name n \<and> length (dir_path c) + length n + 1 < PATH_LEN \<and> length n + 5 < PATH_LEN"

definition tmp_of :: "string \<Rightarrow> string" where
  "tmp_of n = ''/tmp/'' @ n"

lemma tmp_of_facts:
  assumes "plain_name n"
  shows "joined ''/tmp'' n = tmp_of n" and "resolve (tmp_of n) = [''tmp'', n]" and "basename (tmp_of n) = n"
    and "tmp_of n \<noteq> []" and "last (tmp_of n) \<noteq> slash" and "is_cstr (tmp_of n)"
proof -
  show "joined ''/tmp'' n = tmp_of n" by (simp add: joined_def tmp_of_def)
  moreover have "resolve ''/tmp'' = [''tmp'']" by (simp add: resolve_def path_push_def)
  ultimately show "resolve (tmp_of n) = [''tmp'', n]" "basename (tmp_of n) = n" "tmp_of n \<noteq> []" "last (tmp_of n) \<noteq> slash"
    using joined_facts [of "''/tmp''" n] assms by simp_all
  show "is_cstr (tmp_of n)" using assms by (simp add: tmp_of_def plain_name_def nul_def)
qed

lemma ft_tmp_path_plain:
  assumes "region_has (file_name fdata) n" and "plain_name n" and "length n + 5 < PATH_LEN" and "length (tmp_file_path fdata) = PATH_LEN"
  obtains tmp where "file_transfer_tmp_path fdata = Ret (fdata\<lparr>tmp_file_path := tmp\<rparr>)" and "region_has tmp (tmp_of n)"
proof -
  have len: "length (tmp_of n) < PATH_LEN" using assms(3) by (simp add: tmp_of_def)
  have "path_join ''/tmp'' n PATH_LEN = Ret (0, Some (tmp_of n))"
    using path_join_fits [of "''/tmp''" n PATH_LEN] assms(2,3) tmp_of_facts(1) [OF assms(2)] by simp
  then show ?thesis
    using that region_has_store [of "tmp_file_path fdata" "tmp_of n"] assms(4) len tmp_of_facts(6) [OF assms(2)]
      region_has_read [OF assms(1)]
    by (simp add: file_transfer_tmp_path_def store_path_def)
qed

lemma ft_tmp_path_ok:
  assumes "ft_named fdata c n" and "ft_name c n"
  obtains tmp where "file_transfer_tmp_path fdata = Ret (fdata\<lparr>tmp_file_path := tmp\<rparr>)" and "region_has tmp (tmp_of n)"
  using ft_tmp_path_plain [of fdata n] assms that by (auto simp: ft_named_def ft_name_def)

section \<open>Writing file data is a sink into the cache\<close>

definition ft_subs_ok :: "'w ft_config \<Rightarrow> bool" where
  "ft_subs_ok cfg \<longleftrightarrow>
     distinct [0, SUB_LENGTH cfg, SUB_FILES_JSON cfg, SUB_FILE_NAME cfg, SUB_FILE_DATA cfg, SUB_REMOVE cfg]"

definition ft_write_call ::
  "'s::len word ft_config \<Rightarrow> kern \<Rightarrow> 's word od_stream \<times> fsys \<times> file_transfer_data \<Rightarrow> byte list \<Rightarrow>
   (ODR \<times> ('s word od_stream \<times> fsys \<times> file_transfer_data)) outcome" where
  "ft_write_call cfg k x bs = (case x of (stream, fs, fdata) \<Rightarrow>
     bind_outcome (file_transfer_write cfg k fs (Some fdata) stream bs (of_nat (length bs)) 0) (\<lambda>r. case r of
       (code, fs', Some fdata', stream', cw) \<Rightarrow> Ret (code, (stream', fs', fdata'))
     | _ \<Rightarrow> Fault Null_pointer))"

text \<open>
  What a transfer into the cache needs of the world: a kernel that copies whole files, a usable
  cache elsewhere than under \<^verbatim>\<open>/tmp\<close>, and distinct subindices.
\<close>

definition ft_env :: "'w ft_config \<Rightarrow> kern \<Rightarrow> fsys \<Rightarrow> fcache \<Rightarrow> string \<Rightarrow> bool" where
  "ft_env cfg k fs c n \<longleftrightarrow> ft_subs_ok cfg \<and> full_sendfile k \<and> is_dir fs (dir_path c) \<and> \<not> mutex_locked c
     \<and> ft_name c n \<and> resolve (dir_path c) \<noteq> [''tmp''] \<and> resolve (dir_path c) \<noteq> [''tmp'', n]
     \<and> map_of fs (entry_path c n) \<noteq> Some Dir \<and> map_of fs [''tmp''] = Some Dir \<and> map_of fs [''tmp'', n] \<noteq> Some Dir"

definition ft_data_got ::
  "'s::len word ft_config \<Rightarrow> kern \<Rightarrow> fsys \<Rightarrow> fcache \<Rightarrow> string \<Rightarrow> 's word od_stream \<times> fsys \<times> file_transfer_data \<Rightarrow> nat \<Rightarrow>
   byte list \<Rightarrow> bool" where
  "ft_data_got cfg k fs0 c n x L w \<longleftrightarrow> (case x of (stream, fs, fdata) \<Rightarrow>
     ft_env cfg k fs0 c n \<and> subIndex stream = SUB_FILE_DATA cfg \<and> ft_named fdata c n
     \<and> (dataOffset stream \<noteq> 0 \<longrightarrow> region_has (tmp_file_path fdata) (tmp_of n))
     \<and> file_sink_got (tmp_of n) fs0 (stream, fs, fp fdata) L w)"

definition ft_data_done ::
  "fsys \<Rightarrow> fcache \<Rightarrow> string \<Rightarrow> 's::len word od_stream \<times> fsys \<times> file_transfer_data \<Rightarrow> byte list \<Rightarrow> bool" where
  "ft_data_done fs0 c n x w \<longleftrightarrow> (case x of (stream, fs, fdata) \<Rightarrow>
     map_of fs = (map_of fs0)(entry_path c n \<mapsto> File w, [''tmp'', n] := None)
     \<and> ft_named fdata c n \<and> fp fdata = None \<and> dataOffset stream = 0)"

text \<open>One call on the data object is one call of the file helper on the path under \<^verbatim>\<open>/tmp\<close>, and what follows it.\<close>

lemma ft_named_upd [simp]:
  "ft_named (fdata\<lparr>fp := f\<rparr>) c n \<longleftrightarrow> ft_named fdata c n"
  "length t = PATH_LEN \<Longrightarrow> ft_named fdata c n \<Longrightarrow> ft_named (fdata\<lparr>tmp_file_path := t\<rparr>) c n"
  by (simp_all add: ft_named_def)

lemma ft_name_first:
  assumes "ft_named fdata c n" and "ft_name c n"
  shows "\<exists>c. c \<noteq> nul \<and> peek (file_name fdata) 0 1 = Ret [c]"
proof -
  have "n \<noteq> []" "is_cstr n" using assms(2) by (simp_all add: ft_name_def plain_name_def)
  then have "hd n \<noteq> nul" by (cases n) auto
  with \<open>n \<noteq> []\<close> show ?thesis using region_has_first [of "file_name fdata" n] assms(1) by (auto simp: ft_named_def)
qed

lemma ft_write_call_step:
  assumes got: "ft_data_got cfg k fs0 c n (stream, fs, fdata) L w"
    and w: "write_file_call (tmp_of n) (stream, fs, fp fdata) bs = Ret (code, (s', fs', f'))"
  obtains fdata1 where "ft_named fdata1 c n" and "region_has (tmp_file_path fdata1) (tmp_of n)" and "fp fdata1 = f'"
    and "subIndex s' = subIndex stream"
    and "ft_write_call cfg k (stream, fs, fdata) bs =
      (if code = ODR_OK
       then bind_outcome (file_transfer_finish k fs' fdata1) (\<lambda>(fs2, fdata2). Ret (code, (s', fs2, fdata2)))
       else Ret (code, (s', fs', fdata1)))"
proof -
  have env: "ft_subs_ok cfg" "ft_name c n" "ft_named fdata c n" "subIndex stream = SUB_FILE_DATA cfg"
    "dataOffset stream \<noteq> 0 \<Longrightarrow> region_has (tmp_file_path fdata) (tmp_of n)"
    using got by (simp_all add: ft_data_got_def ft_env_def)
  obtain cw where od: "od_ext_write_file fs (Some stream) (Some bs) (of_nat (length bs)) (Some 0) (Some (tmp_of n)) (Some (fp fdata))
      = Ret (code, fs', Some s', Some cw, Some f')" and sub: "subIndex s' = subIndex stream"
    by (rule write_file_call_Ret [OF w])
  obtain ch where first: "peek (file_name fdata) 0 1 = Ret [ch]" "ch \<noteq> nul" using ft_name_first [OF env(3,2)] by blast
  obtain t where t: "(if dataOffset stream = 0 then file_transfer_tmp_path fdata else Ret fdata) = Ret (fdata\<lparr>tmp_file_path := t\<rparr>)"
    "region_has t (tmp_of n)"
  proof (cases "dataOffset stream = 0")
    case True
    then show ?thesis using that ft_tmp_path_ok [OF env(3,2)] by (metis (full_types))
  next
    case False
    then show ?thesis using that [of "tmp_file_path fdata"] env(5) by simp
  qed
  let ?fdata1 = "fdata\<lparr>tmp_file_path := t, fp := f'\<rparr>"
  have "ft_write_call cfg k (stream, fs, fdata) bs =
      (if code = ODR_OK
       then bind_outcome (file_transfer_finish k fs' ?fdata1) (\<lambda>(fs2, fdata2). Ret (code, (s', fs2, fdata2)))
       else Ret (code, (s', fs', ?fdata1)))"
    using env(1,4) first t(1) region_has_read [OF t(2)] od
    by (cases "file_transfer_finish k fs' ?fdata1") (auto simp: ft_write_call_def file_transfer_write_def ft_subs_ok_def Let_def)
  moreover have "ft_named ?fdata1 c n" using env(3) region_has_length [OF t(2)] by (simp add: ft_named_def)
  ultimately show ?thesis using that [of ?fdata1] t(2) sub by simp
qed

text \<open>With the file complete under \<^verbatim>\<open>/tmp\<close>, the last step moves it into the cache.\<close>

lemma ft_finish_ok:
  assumes env: "ft_env cfg k fs0 c n" and named: "ft_named fdata c n" and tmp: "region_has (tmp_file_path fdata) (tmp_of n)"
  shows "\<exists>fs'. file_transfer_finish k (AList.update [''tmp'', n] (File w) fs0) fdata = Ret (fs', fdata)
    \<and> map_of fs' = (map_of fs0)(entry_path c n \<mapsto> File w, [''tmp'', n] := None)"
proof -
  let ?fs = "AList.update [''tmp'', n] (File w) fs0"
  have n: "plain_name n" "length (dir_path c) + length n + 1 < PATH_MAX"
    using env by (simp_all add: ft_env_def ft_name_def PATH_LEN_def PATH_MAX_def)
  note t = tmp_of_facts [OF n(1)]
  have node: "fs_node ?fs (tmp_of n) = Some (File w)" using t by (simp add: fs_node_file)
  have ne: "[''tmp'', n] \<noteq> entry_path c n" using env by (auto simp: ft_env_def entry_path_def)
  have dir: "is_dir ?fs (dir_path c)" using env by (auto simp: ft_env_def is_dir_def fs_node_dir)
  have "map_of ?fs (entry_path c n) \<noteq> Some Dir" using env ne by (auto simp: ft_env_def)
  then obtain fs' where add: "fcache_add k ?fs (Some c) (tmp_of n) True = Ret (0, fs', Some c)"
    "map_of fs' = (map_of ?fs)(entry_path c n \<mapsto> File w, [''tmp'', n] := None)"
    using fcache_add_consume_ok [of k ?fs c "tmp_of n" w] env dir node n t ne by (auto simp: ft_env_def)
  have "take 1 n \<noteq> ''/''" using n(1) by (cases n) (auto simp: plain_name_def)
  moreover have "read_cstr (raw fdata) = Ret n" "cache fdata = Some c" using named region_has_read by (auto simp: ft_named_def)
  moreover have "fdata\<lparr>cache := Some c\<rparr> = fdata" using \<open>cache fdata = Some c\<close> by (cases fdata) simp
  ultimately have "file_transfer_finish k ?fs fdata = Ret (fs', fdata)"
    using add region_has_read [OF tmp] by (simp add: file_transfer_finish_def)
  moreover have "map_of fs' = (map_of fs0)(entry_path c n \<mapsto> File w, [''tmp'', n] := None)"
    using add(2) ne by (auto simp: fun_eq_iff)
  ultimately show ?thesis by blast
qed

interpretation ft_sink: segmented_sink "ft_write_call (cfg :: 's::len word ft_config) k" "ft_data_got cfg k fs0 c n" "ft_data_done fs0 c n"
  "valid_count TYPE('s)"
proof
  fix x :: "'s word od_stream \<times> fsys \<times> file_transfer_data" and L and w bs :: "byte list"
  assume got: "ft_data_got cfg k fs0 c n x L w" and cnt: "valid_count TYPE('s) (length bs)" and more: "length w + length bs < L"
  obtain stream fs fdata where x: "x = (stream, fs, fdata)" by (cases x)
  have sink: "file_sink_got (tmp_of n) fs0 (stream, fs, fp fdata) L w" using got by (simp add: x ft_data_got_def)
  obtain s' fs' f' where w: "write_file_call (tmp_of n) (stream, fs, fp fdata) bs = Ret (ODR_PARTIAL, (s', fs', f'))"
    "file_sink_got (tmp_of n) fs0 (s', fs', f') L (w @ bs)"
    using file_sink.wr_more [OF sink cnt more] by auto
  obtain fdata1 where 1: "ft_named fdata1 c n" "region_has (tmp_file_path fdata1) (tmp_of n)" "fp fdata1 = f'"
    "subIndex s' = subIndex stream" "ft_write_call cfg k x bs = Ret (ODR_PARTIAL, (s', fs', fdata1))"
    by (rule ft_write_call_step [OF got [unfolded x] w(1)]) (simp add: x)
  then show "\<exists>x'. ft_write_call cfg k x bs = Ret (ODR_PARTIAL, x') \<and> ft_data_got cfg k fs0 c n x' L (w @ bs)"
    using w(2) got by (simp add: x ft_data_got_def)
next
  fix x :: "'s word od_stream \<times> fsys \<times> file_transfer_data" and L and w bs :: "byte list"
  assume got: "ft_data_got cfg k fs0 c n x L w" and cnt: "valid_count TYPE('s) (length bs)" and ne: "bs \<noteq> []"
    and last: "length w + length bs = L"
  obtain stream fs fdata where x: "x = (stream, fs, fdata)" by (cases x)
  have sink: "file_sink_got (tmp_of n) fs0 (stream, fs, fp fdata) L w" and env: "ft_env cfg k fs0 c n"
    using got by (simp_all add: x ft_data_got_def)
  have tmp: "resolve (tmp_of n) = [''tmp'', n]" using env tmp_of_facts by (simp add: ft_env_def ft_name_def)
  obtain s' where w: "write_file_call (tmp_of n) (stream, fs, fp fdata) bs
      = Ret (ODR_OK, (s', AList.update [''tmp'', n] (File (w @ bs)) fs0, None))" "dataOffset s' = 0"
    using file_sink.wr_last [OF sink cnt ne last] tmp by (auto simp: file_sink_done_def)
  obtain fdata1 where 1: "ft_named fdata1 c n" "region_has (tmp_file_path fdata1) (tmp_of n)" "fp fdata1 = None"
    "ft_write_call cfg k x bs = bind_outcome (file_transfer_finish k (AList.update [''tmp'', n] (File (w @ bs)) fs0) fdata1)
       (\<lambda>(fs2, fdata2). Ret (ODR_OK, (s', fs2, fdata2)))"
    by (rule ft_write_call_step [OF got [unfolded x] w(1)]) (simp add: x)
  from ft_finish_ok [OF env 1(1,2), of "w @ bs"] 1 w(2)
  show "\<exists>x'. ft_write_call cfg k x bs = Ret (ODR_OK, x') \<and> ft_data_done fs0 c n x' (w @ bs)"
    by (auto simp: ft_data_done_def)
next
  fix x :: "'s word od_stream \<times> fsys \<times> file_transfer_data" and L and w bs :: "byte list"
  assume got: "ft_data_got cfg k fs0 c n x L w" and cnt: "valid_count TYPE('s) (length bs)"
    and long: "length w < L" "L < length w + length bs"
  obtain stream fs fdata where x: "x = (stream, fs, fdata)" by (cases x)
  have sink: "file_sink_got (tmp_of n) fs0 (stream, fs, fp fdata) L w" using got by (simp add: x ft_data_got_def)
  obtain s' fs' f' where w: "write_file_call (tmp_of n) (stream, fs, fp fdata) bs = Ret (ODR_DATA_LONG, (s', fs', f'))"
    using file_sink.wr_long [OF sink cnt long] by auto
  obtain fdata1 where "ft_write_call cfg k x bs = Ret (ODR_DATA_LONG, (s', fs', fdata1))"
    by (rule ft_write_call_step [OF got [unfolded x] w]) (simp add: x)
  then show "\<exists>x'. ft_write_call cfg k x bs = Ret (ODR_DATA_LONG, x')" by blast
qed

lemma ft_data_start:
  assumes "ft_env cfg k fs c n" and "ft_named fdata c n" and "subIndex stream = SUB_FILE_DATA cfg" and "dataOffset stream = 0"
  shows "ft_data_got cfg k fs c n (stream, fs, fdata) (unat (dataLength stream)) []"
proof -
  have "plain_name n" using assms(1) by (simp add: ft_env_def ft_name_def)
  note t = tmp_of_facts [OF this]
  have "fs_create fs (tmp_of n) = Inr (AList.update (resolve (tmp_of n)) (File []) fs)"
    using t assms(1) by (intro fs_create_ok) (simp_all add: ft_env_def)
  then show ?thesis using assms by (simp add: ft_data_got_def file_sink_got_def)
qed


section \<open>Reading file data is a source over the cache\<close>

definition ft_read_call ::
  "'s::len word ft_config \<Rightarrow> kern \<Rightarrow> byte \<Rightarrow> 's word od_stream \<times> fsys \<times> file_transfer_data \<Rightarrow> nat \<Rightarrow>
   (ODR \<times> byte list \<times> ('s word od_stream \<times> fsys \<times> file_transfer_data)) outcome" where
  "ft_read_call cfg k junk x n = (case x of (stream, fs, fdata) \<Rightarrow>
     bind_outcome (file_transfer_read cfg k (\<lambda>_. True) (char_of_byte junk) fs (Some fdata) stream (replicate n junk) (of_nat n) 0)
       (\<lambda>r. case r of
         (code, fs', Some fdata', stream', b, cr) \<Rightarrow> Ret (code, take (unat cr) b, (stream', fs', fdata'))
       | _ \<Rightarrow> Fault Null_pointer))"

definition ft_source_at ::
  "'s::len word ft_config \<Rightarrow> kern \<Rightarrow> fcache \<Rightarrow> string \<Rightarrow> 's word od_stream \<times> fsys \<times> file_transfer_data \<Rightarrow> byte list \<Rightarrow> nat \<Rightarrow> bool" where
  "ft_source_at cfg k c n x d p \<longleftrightarrow> (case x of (stream, fs, fdata) \<Rightarrow>
     ft_env cfg k fs c n \<and> subIndex stream = SUB_FILE_DATA cfg \<and> ft_named fdata c n
     \<and> map_of fs (entry_path c n) = Some (File d) \<and> unat (dataOffset stream) = p \<and> length d < 2 ^ LENGTH('s)
     \<and> (0 < p \<longrightarrow> region_has (tmp_file_path fdata) (tmp_of n)
          \<and> file_source_at (tmp_of n) fs (stream, fs, fp fdata) d p))"

text \<open>The first segment copies the file to \<^verbatim>\<open>/tmp\<close>; from then on the source is the copy.\<close>

lemma ft_stage_ok:
  assumes env: "ft_env cfg k fs c n" and named: "ft_named fdata c n" and content: "map_of fs (entry_path c n) = Some (File d)"
  obtains t where "file_transfer_stage k fs fdata = Ret (ODR_OK, AList.update [''tmp'', n] (File d) fs, fdata\<lparr>tmp_file_path := t\<rparr>)"
    and "region_has t (tmp_of n)"
proof -
  have n: "plain_name n" "ft_name c n" using env by (simp_all add: ft_env_def ft_name_def)
  have dir: "dir_path c \<noteq> []" using env by (auto simp: ft_env_def is_dir_def fs_node_def split: if_splits)
  note t = tmp_of_facts [OF n(1)] and j = joined_facts [OF dir n(1)]
  have path: "read_cstr (file_path fdata) = Ret (joined (dir_path c) n)" using named region_has_read by (auto simp: ft_named_def)
  have node: "fs_node fs (joined (dir_path c) n) = Some (File d)" using j content by (simp add: fs_node_file entry_path_def)
  have "\<not> is_dir fs (tmp_of n)" using env t by (auto simp: ft_env_def is_dir_def fs_node_dir)
  then have target: "copy_target fs (joined (dir_path c) n) (tmp_of n) = Ret (tmp_of n)" by (simp add: copy_target_def)
  have create: "fs_create fs (tmp_of n) = Inr (AList.update (resolve (tmp_of n)) (File []) fs)"
    using t env by (intro fs_create_ok) (simp_all add: ft_env_def)
  have "resolve (tmp_of n) \<noteq> resolve (joined (dir_path c) n)" using env t j by (auto simp: ft_env_def)
  then have "copy_file k fs (joined (dir_path c) n) (tmp_of n) = Ret (0, AList.update [''tmp'', n] (File d) fs)"
    using copy_file_to [OF _ node target create] env t by (simp add: ft_env_def)
  moreover obtain tmp where "file_transfer_tmp_path fdata = Ret (fdata\<lparr>tmp_file_path := tmp\<rparr>)" "region_has tmp (tmp_of n)"
    by (rule ft_tmp_path_ok [OF named n(2)])
  ultimately show ?thesis
    using that path node region_has_read by (simp add: file_transfer_stage_def is_file_def fs_open_rd_def)
qed

lemma ft_env_staged:
  assumes "ft_env cfg k fs c n"
  shows "ft_env cfg k (AList.update [''tmp'', n] (File d) fs) c n"
  using assms by (auto simp: ft_env_def is_dir_def fs_node_dir entry_path_def)

lemma ft_staged:
  fixes stream :: "'s::len word od_stream"
  assumes src: "ft_source_at cfg k c n (stream, fs, fdata) d p"
  obtains fs1 t where "(if dataOffset stream = 0 then file_transfer_stage k fs fdata else Ret (ODR_OK, fs, fdata))
      = Ret (ODR_OK, fs1, fdata\<lparr>tmp_file_path := t\<rparr>)" and "region_has t (tmp_of n)" and "ft_env cfg k fs1 c n"
    and "map_of fs1 (entry_path c n) = Some (File d)" and "file_source_at (tmp_of n) fs1 (stream, fs1, fp fdata) d p"
proof (cases "dataOffset stream = 0")
  case True
  have a: "ft_env cfg k fs c n" "ft_named fdata c n" "map_of fs (entry_path c n) = Some (File d)" "p = 0" "length d < 2 ^ LENGTH('s)"
    using src True by (auto simp: ft_source_at_def)
  obtain t where t: "file_transfer_stage k fs fdata = Ret (ODR_OK, AList.update [''tmp'', n] (File d) fs, fdata\<lparr>tmp_file_path := t\<rparr>)"
    "region_has t (tmp_of n)"
    by (rule ft_stage_ok [OF a(1-3)])
  have "plain_name n" using a(1) by (simp add: ft_env_def ft_name_def)
  note tf = tmp_of_facts [OF this]
  have "file_source_at (tmp_of n) (AList.update [''tmp'', n] (File d) fs)
      (stream, AList.update [''tmp'', n] (File d) fs, fp fdata) d p"
    using True a(4,5) tf by (simp add: file_source_at_def fs_node_file)
  moreover have "map_of (AList.update [''tmp'', n] (File d) fs) (entry_path c n) = Some (File d)" using a(3) by simp
  ultimately show ?thesis using that [OF _ t(2) ft_env_staged [OF a(1)]] t(1) True by simp
next
  case False
  then have "0 < p" using src by (auto simp: ft_source_at_def word_unat_eq_iff)
  then show ?thesis using that [of fs "tmp_file_path fdata"] src False by (simp add: ft_source_at_def)
qed

lemma ft_read_call_step:
  fixes stream :: "'s::len word od_stream"
  assumes src: "ft_source_at cfg k c n (stream, fs, fdata) d p"
    and stage: "(if dataOffset stream = 0 then file_transfer_stage k fs fdata else Ret (ODR_OK, fs, fdata))
      = Ret (ODR_OK, fs1, fdata\<lparr>tmp_file_path := t\<rparr>)" "region_has t (tmp_of n)"
    and read: "read_file_call k (tmp_of n) junk (stream, fs1, fp fdata) m = Ret (code, bs, (s', fs2, f'))"
  shows "ft_read_call cfg k junk (stream, fs, fdata) m = Ret (code, bs, (s', fs1, fdata\<lparr>tmp_file_path := t, fp := f'\<rparr>))
    \<and> fs2 = fs1 \<and> subIndex s' = subIndex stream"
proof -
  have env: "ft_subs_ok cfg" "ft_name c n" "ft_named fdata c n" "subIndex stream = SUB_FILE_DATA cfg"
    using src by (simp_all add: ft_source_at_def ft_env_def)
  obtain ch where first: "peek (file_name fdata) 0 1 = Ret [ch]" "ch \<noteq> nul" using ft_name_first [OF env(3,2)] by blast
  obtain b cr where od: "od_ext_read_file k fs1 (Some stream) (Some (replicate m junk)) (of_nat m) (Some 0) (Some (tmp_of n)) (Some (fp fdata))
      = Ret (code, Some s', Some b, Some cr, Some f')" "bs = take (unat cr) b" "fs2 = fs1" "subIndex s' = subIndex stream"
    by (rule read_file_call_Ret [OF read])
  then show ?thesis
    using env(1,4) first stage(1) region_has_read [OF stage(2)]
    by (auto simp: ft_read_call_def file_transfer_read_def ft_subs_ok_def)
qed

interpretation ft_source: segmented_source "ft_read_call (cfg :: 's::len word ft_config) k junk" "ft_source_at cfg k c n"
  "valid_count TYPE('s)"
proof
  fix x :: "'s word od_stream \<times> fsys \<times> file_transfer_data" and d p m
  assume src: "ft_source_at cfg k c n x d p" and cnt: "valid_count TYPE('s) m" and more: "p + m < length d"
  obtain stream fs fdata where x: "x = (stream, fs, fdata)" by (cases x)
  obtain fs1 t where stage: "(if dataOffset stream = 0 then file_transfer_stage k fs fdata else Ret (ODR_OK, fs, fdata))
      = Ret (ODR_OK, fs1, fdata\<lparr>tmp_file_path := t\<rparr>)" "region_has t (tmp_of n)" "ft_env cfg k fs1 c n"
    "map_of fs1 (entry_path c n) = Some (File d)" "file_source_at (tmp_of n) fs1 (stream, fs1, fp fdata) d p"
    by (rule ft_staged [OF src [unfolded x]])
  obtain s' fs2 f' where r: "read_file_call k (tmp_of n) junk (stream, fs1, fp fdata) m = Ret (ODR_PARTIAL, take m (drop p d), (s', fs2, f'))"
    "file_source_at (tmp_of n) fs1 (s', fs2, f') d (p + m)"
    using file_source.rd_more [OF stage(5) cnt more, of k junk] by auto
  note step = ft_read_call_step [OF src [unfolded x] stage(1,2) r(1)]
  have "ft_source_at cfg k c n (s', fs1, fdata\<lparr>tmp_file_path := t, fp := f'\<rparr>) d (p + m)"
    using step r(2) stage(2-4) src region_has_length [OF stage(2)] by (auto simp: x ft_source_at_def file_source_at_def ft_named_def)
  with step show "\<exists>x'. ft_read_call cfg k junk x m = Ret (ODR_PARTIAL, take m (drop p d), x') \<and> ft_source_at cfg k c n x' d (p + m)"
    by (auto simp: x)
next
  fix x :: "'s word od_stream \<times> fsys \<times> file_transfer_data" and d p m
  assume src: "ft_source_at cfg k c n x d p" and cnt: "valid_count TYPE('s) m" and pd: "p < length d" "length d \<le> p + m"
  obtain stream fs fdata where x: "x = (stream, fs, fdata)" by (cases x)
  obtain fs1 t where stage: "(if dataOffset stream = 0 then file_transfer_stage k fs fdata else Ret (ODR_OK, fs, fdata))
      = Ret (ODR_OK, fs1, fdata\<lparr>tmp_file_path := t\<rparr>)" "region_has t (tmp_of n)" "ft_env cfg k fs1 c n"
    "map_of fs1 (entry_path c n) = Some (File d)" "file_source_at (tmp_of n) fs1 (stream, fs1, fp fdata) d p"
    by (rule ft_staged [OF src [unfolded x]])
  obtain s' fs2 f' where r: "read_file_call k (tmp_of n) junk (stream, fs1, fp fdata) m = Ret (ODR_OK, drop p d, (s', fs2, f'))"
    "file_source_at (tmp_of n) fs1 (s', fs2, f') d 0"
    using file_source.rd_last [OF stage(5) cnt pd, of k junk] by auto
  note step = ft_read_call_step [OF src [unfolded x] stage(1,2) r(1)]
  have "ft_source_at cfg k c n (s', fs1, fdata\<lparr>tmp_file_path := t, fp := f'\<rparr>) d 0"
    using step r(2) stage(2-4) src region_has_length [OF stage(2)] by (auto simp: x ft_source_at_def file_source_at_def ft_named_def)
  with step show "\<exists>x'. ft_read_call cfg k junk x m = Ret (ODR_OK, drop p d, x') \<and> ft_source_at cfg k c n x' d 0"
    by (auto simp: x)
qed


section \<open>Setting the file name\<close>

definition ft_arrays :: "file_transfer_data \<Rightarrow> bool" where
  "ft_arrays fdata \<longleftrightarrow> length (raw fdata) = PATH_LEN \<and> length (file_name fdata) = PATH_LEN
     \<and> length (file_path fdata) = PATH_LEN \<and> length (tmp_file_path fdata) = PATH_LEN"

lemma ft_set_name_ok:
  assumes arr: "ft_arrays fdata" and c: "cache fdata = Some c" and dir: "dir_path c \<noteq> []" "is_cstr (dir_path c)"
    and n: "ft_name c n" and r: "region_has (raw fdata) n"
  shows "\<exists>fdata'. file_transfer_set_name fdata = Ret fdata' \<and> ft_named fdata' c n \<and> file_cached fdata'"
proof -
  have pn: "plain_name n" "is_cstr n" "length n < PATH_LEN" using n by (simp_all add: ft_name_def plain_name_def)
  have base: "basename_inplace (raw fdata) = Ret (n, raw fdata)"
    using region_has_read [OF r] basename_name [OF pn(1)] plain_name_last [OF pn(1)] by (simp add: basename_inplace_def Let_def)
  note name = region_has_store [of "file_name fdata" n]
  have j: "is_cstr (joined (dir_path c) n)" "length (joined (dir_path c) n) < PATH_LEN"
    using dir pn(2) joined_facts(4) [OF dir(1) pn(1)] n by (auto simp: joined_def nul_def ft_name_def)
  have join: "path_join (dir_path c) n PATH_LEN = Ret (0, Some (joined (dir_path c) n))"
    using path_join_fits [OF dir(1) pn(1)] n by (simp add: ft_name_def)
  note path = region_has_store [of "file_path fdata" "joined (dir_path c) n"]
  have "strncmp_eq n n (length n)" by (simp add: strncmp_eq_def)
  then have "file_transfer_set_name fdata = Ret (fdata\<lparr>raw := raw fdata, file_name := n @ nul # drop (length n + 1) (file_name fdata),
      file_cached := True, file_path := joined (dir_path c) n @ nul # drop (length (joined (dir_path c) n) + 1) (file_path fdata)\<rparr>)"
    using base region_has_read [OF r] name path arr j join c pn region_has_read
    by (simp add: file_transfer_set_name_def ft_arrays_def store_path_def Let_def)
  then show ?thesis using name path arr j pn c r by (simp add: ft_named_def ft_arrays_def)
qed

text \<open>A write of the name in one piece lays the bytes over the front of the array.\<close>

lemma ft_write_name:
  fixes cfg :: "'s::len word ft_config"
  assumes "ft_subs_ok cfg" and "subIndex stream = SUB_FILE_NAME cfg" and "dataOffset stream = 0"
    and "unat (dataLength stream) = length s" and "s \<noteq> []" and "length s < PATH_LEN"
    and "ft_arrays fdata" and "cache fdata = Some c" and "dir_path c \<noteq> []" and "is_cstr (dir_path c)"
    and "ft_name c n" and "region_has (s @ drop (length s) (raw fdata)) n"
  shows "\<exists>stream' fdata'. ft_write_call cfg k (stream, fs, fdata) (bytes_of_string s) = Ret (ODR_OK, (stream', fs, fdata'))
    \<and> ft_named fdata' c n \<and> file_cached fdata'"
proof -
  let ?d = "bytes_of_string (raw fdata)"
  have cnt: "valid_count TYPE('s) (length (bytes_of_string s))"
    using assms(4,5) unsigned_less [of "dataLength stream", where ?'a = nat] by (simp add: valid_count_def)
  have len: "length (raw fdata) = PATH_LEN" using assms(7) by (simp add: ft_arrays_def)
  have got: "data_sink_got (PATH_LEN - 1) ?d (stream, ?d, Some 0) (length s) []"
    using assms(3,4,6) len by (simp add: data_sink_got_def)
  obtain s' where w: "write_data_call (PATH_LEN - 1) (stream, ?d, Some 0) (bytes_of_string s)
      = Ret (ODR_OK, (s', bytes_of_string s @ drop (length s) ?d, Some (length s)))"
    using data_sink.wr_last [OF got cnt] assms(5) by (auto simp: data_sink_done_def bytes_of_string_def)
  obtain cw where od: "od_ext_write_data (Some stream) (Some (bytes_of_string s)) (of_nat (length (bytes_of_string s))) (Some 0) (Some ?d)
      (PATH_LEN - 1) (Some 0) = Ret (ODR_OK, Some s', Some cw, Some (bytes_of_string s @ drop (length s) ?d), Some (length s))"
    by (rule write_data_call_Ret [OF w])
  define fdata1 where "fdata1 = fdata\<lparr>raw := s @ drop (length s) (raw fdata)\<rparr>"
  have chars: "string_of_bytes (bytes_of_string s @ drop (length s) ?d) = s @ drop (length s) (raw fdata)"
    by (simp add: string_of_bytes_def bytes_of_string_def drop_map comp_def)
  have "ft_arrays fdata1" using assms(6,7) by (simp add: ft_arrays_def fdata1_def)
  then obtain fdata2 where "file_transfer_set_name fdata1 = Ret fdata2" "ft_named fdata2 c n" "file_cached fdata2"
    using ft_set_name_ok [of fdata1 c n] assms(8-12) by (auto simp: fdata1_def)
  then show ?thesis
    using od assms(1,2) chars by (auto simp: ft_write_call_def file_transfer_write_def ft_subs_ok_def Let_def fdata1_def [symmetric])
qed

text \<open>
  Writing a plain file name together with its terminator selects the file of that name in the cache,
  whatever the arrays held before.
\<close>

lemma file_transfer_write_name_selects:
  fixes cfg :: "'s::len word ft_config"
  assumes "ft_subs_ok cfg" and "subIndex stream = SUB_FILE_NAME cfg" and "dataOffset stream = 0"
    and "unat (dataLength stream) = length n + 1"
    and "ft_arrays fdata" and "cache fdata = Some c" and "dir_path c \<noteq> []" and "is_cstr (dir_path c)" and "ft_name c n"
  shows "\<exists>stream' fdata'. ft_write_call cfg k (stream, fs, fdata) (bytes_of_string (n @ [nul])) = Ret (ODR_OK, (stream', fs, fdata'))
    \<and> ft_named fdata' c n \<and> file_cached fdata'"
proof (rule ft_write_name)
  have "is_cstr n" "length n + 1 < PATH_LEN" using assms(9) by (simp_all add: ft_name_def plain_name_def)
  then show "region_has ((n @ [nul]) @ drop (length (n @ [nul])) (raw fdata)) n" "length (n @ [nul]) < PATH_LEN"
    using assms(5) by (auto simp: region_has_def ft_arrays_def)
qed (use assms in simp_all)

text \<open>
  A name written without its terminator does not replace a longer name written before: the rest of
  the old name stays behind it, and the file selected is the one of the combined name.
\<close>

lemma file_transfer_write_name_stale_suffix:
  fixes cfg :: "'s::len word ft_config"
  assumes "ft_subs_ok cfg" and "subIndex stream = SUB_FILE_NAME cfg" and "dataOffset stream = 0"
    and "unat (dataLength stream) = length n" and "n \<noteq> []" and "length n < length old" and "region_has (raw fdata) old"
    and "ft_arrays fdata" and "cache fdata = Some c" and "dir_path c \<noteq> []" and "is_cstr (dir_path c)"
    and "ft_name c (n @ drop (length n) old)"
  shows "\<exists>stream' fdata'. ft_write_call cfg k (stream, fs, fdata) (bytes_of_string n) = Ret (ODR_OK, (stream', fs, fdata'))
    \<and> ft_named fdata' c (n @ drop (length n) old) \<and> file_cached fdata'"
proof (rule ft_write_name)
  obtain rest where r: "raw fdata = old @ nul # rest" using assms(7) by (auto simp: region_has_def)
  show "length n < PATH_LEN" using assms(6) region_has_length [OF assms(7)] by simp
  show "region_has (n @ drop (length n) (raw fdata)) (n @ drop (length n) old)"
    using assms(6,7,12) r by (auto simp: region_has_def ft_name_def plain_name_def)
qed (use assms in simp_all)

section \<open>Absolute names\<close>

text \<open>
  A file written under an absolute name is not delivered: the data end up in the file of the same
  base name under \<^verbatim>\<open>/tmp\<close>, and no other path changes, although the transfer reports success.
\<close>

lemma file_transfer_absolute_name_not_delivered:
  fixes cfg :: "'s::len word ft_config"
  assumes "ft_subs_ok cfg" and "subIndex stream = SUB_FILE_DATA cfg" and "dataOffset stream = 0"
    and "unat (dataLength stream) = length bs" and "bs \<noteq> []"
    and "region_has (raw fdata) dest" and "take 1 dest = ''/''" and "dest \<noteq> tmp_of n"
    and "region_has (file_name fdata) n" and "plain_name n" and "length n + 5 < PATH_LEN" and "length (tmp_file_path fdata) = PATH_LEN"
    and "map_of fs [''tmp''] = Some Dir" and "map_of fs [''tmp'', n] \<noteq> Some Dir"
  shows "\<exists>stream' fs' fdata'. ft_write_call cfg k (stream, fs, fdata) bs = Ret (ODR_OK, (stream', fs', fdata'))
    \<and> map_of fs' = (map_of fs)([''tmp'', n] \<mapsto> File bs)"
proof -
  note t = tmp_of_facts [OF assms(10)]
  have cnt: "valid_count TYPE('s) (length bs)"
    using assms(4,5) unsigned_less [of "dataLength stream", where ?'a = nat] by (simp add: valid_count_def)
  have "fs_create fs (tmp_of n) = Inr (AList.update (resolve (tmp_of n)) (File []) fs)"
    using t assms(13,14) by (intro fs_create_ok) simp_all
  then have "file_sink_got (tmp_of n) fs (stream, fs, fp fdata) (length bs) []"
    using assms(3,4) by (simp add: file_sink_got_def)
  then obtain s' where "write_file_call (tmp_of n) (stream, fs, fp fdata) bs
      = Ret (ODR_OK, (s', AList.update [''tmp'', n] (File bs) fs, None))"
    using file_sink.wr_last [OF _ cnt assms(5)] t by (fastforce simp: file_sink_done_def)
  then obtain cw where od: "od_ext_write_file fs (Some stream) (Some bs) (of_nat (length bs)) (Some 0) (Some (tmp_of n)) (Some (fp fdata))
      = Ret (ODR_OK, AList.update [''tmp'', n] (File bs) fs, Some s', Some cw, Some None)"
    by (rule write_file_call_Ret)
  obtain tmp where tmp: "file_transfer_tmp_path fdata = Ret (fdata\<lparr>tmp_file_path := tmp\<rparr>)" "region_has tmp (tmp_of n)"
    by (rule ft_tmp_path_plain [OF assms(9-12)])
  have "is_cstr dest" using assms(6) by (simp add: region_has_def)
  then have "\<not> strncmp_eq dest (tmp_of n) (length dest + 1)" using strncmp_eq_Suc t(6) assms(8) by blast
  then have finish: "file_transfer_finish k fs1 (fdata\<lparr>tmp_file_path := tmp, fp := None\<rparr>) = Ret (fs1, fdata\<lparr>tmp_file_path := tmp, fp := None\<rparr>)" for fs1
    using region_has_read [OF assms(6)] region_has_read [OF tmp(2)] assms(7) by (simp add: file_transfer_finish_def)
  have "n \<noteq> []" "is_cstr n" using assms(10) by (simp_all add: plain_name_def)
  then have "hd n \<noteq> nul" by (cases n) auto
  with \<open>n \<noteq> []\<close> have first: "peek (file_name fdata) 0 1 = Ret [hd n]" "hd n \<noteq> nul" using region_has_first [OF assms(9)] by simp_all
  have "ft_write_call cfg k (stream, fs, fdata) bs
      = Ret (ODR_OK, (s', AList.update [''tmp'', n] (File bs) fs, fdata\<lparr>tmp_file_path := tmp, fp := None\<rparr>))"
    using assms(1-3) od tmp(1) region_has_read [OF tmp(2)] finish first
    by (auto simp: ft_write_call_def file_transfer_write_def ft_subs_ok_def Let_def)
  then show ?thesis by auto
qed

section \<open>Concrete runs\<close>

text \<open>An object dictionary with the subindices in the order of the sources, and a small machine.\<close>

definition ft_example_config :: "u32 ft_config" where
  "ft_example_config = \<lparr>SUB_LENGTH = 1, SUB_FILES_JSON = 2, SUB_FILE_NAME = 3, SUB_FILE_DATA = 4, SUB_REMOVE = 5,
     ft_readOriginal = (\<lambda>s b n c. Ret (ODR_OK, s, b, c))\<rparr>"

definition ft_example_kern :: kern where
  "ft_example_kern = \<lparr>sendfile_k = (\<lambda>off n. Inr n), dir_size_k = 4096\<rparr>"

definition ft_example_cache :: fcache where
  "ft_example_cache = \<lparr>dir_path = ''/c'', mutex_locked = False\<rparr>"

definition ft_example_region :: "string \<Rightarrow> char list" where
  "ft_example_region s = s @ nul # replicate (255 - length s) nul"

definition ft_example_data :: "string \<Rightarrow> string \<Rightarrow> string \<Rightarrow> file_transfer_data" where
  "ft_example_data r n p = \<lparr>raw = ft_example_region r, file_name = ft_example_region n, file_path = ft_example_region p,
     tmp_file_path = ft_example_region [], fp = None, cache = Some ft_example_cache, file_cached = True, files = None\<rparr>"

lemma ft_example_region_has: "is_cstr s \<Longrightarrow> length s < 256 \<Longrightarrow> region_has (ft_example_region s) s"
  by (auto simp: region_has_def ft_example_region_def PATH_LEN_def)

lemmas ft_example_defs = ft_example_config_def ft_example_kern_def ft_example_cache_def ft_example_data_def

lemma ft_example_env:
  assumes "map_of fs [''tmp''] = Some Dir" and "map_of fs [''c''] = Some Dir"
    and "map_of fs [''tmp'', ''a''] \<noteq> Some Dir" and "map_of fs [''c'', ''a''] \<noteq> Some Dir"
  shows "ft_env ft_example_config ft_example_kern fs ft_example_cache ''a''"
proof -
  have r: "resolve ''/c'' = [''c'']" by (simp add: resolve_def path_push_def)
  show ?thesis
    using assms r by (simp add: ft_env_def ft_subs_ok_def ft_example_defs full_sendfile_def is_dir_def fs_node_def ft_name_def
        plain_name_def nul_def PATH_LEN_def entry_path_def)
qed

lemma ft_example_entry: "entry_path ft_example_cache ''a'' = [''c'', ''a'']"
  by (simp add: entry_path_def ft_example_cache_def resolve_def path_push_def)

lemma ft_example_named: "ft_named (ft_example_data ''a'' ''a'' ''/c/a'') ft_example_cache ''a''"
  using ft_example_region_has [of "''a''"] ft_example_region_has [of "''/c/a''"] ft_example_region_has [of "[]"] region_has_length
  by (auto simp: ft_named_def ft_example_data_def ft_example_cache_def joined_def nul_def)



lemma ft_example_arrays:
  assumes "is_cstr r" and "length r < 256" and "is_cstr n" and "length n < 256" and "is_cstr p" and "length p < 256"
  shows "ft_arrays (ft_example_data r n p)"
  using ft_example_region_has [OF assms(1,2)] ft_example_region_has [OF assms(3,4)] ft_example_region_has [OF assms(5,6)]
    ft_example_region_has [of "[]"] region_has_length
  by (auto simp: ft_arrays_def ft_example_data_def)

lemma ft_example_subs: "ft_subs_ok ft_example_config"
  by (simp add: ft_subs_ok_def ft_example_config_def)

lemma ft_example_dir: "dir_path ft_example_cache \<noteq> []" "is_cstr (dir_path ft_example_cache)" "cache (ft_example_data r n p) = Some ft_example_cache"
  by (simp_all add: ft_example_cache_def nul_def ft_example_data_def)

lemma file_transfer_write_name_selects_witness:
  "\<exists>stream' fdata'. ft_write_call ft_example_config ft_example_kern
       (\<lparr>dataOffset = 0, dataLength = 2, subIndex = 3\<rparr>, [], ft_example_data ''old'' ''old'' ''/c/old'') (bytes_of_string (''a'' @ [nul]))
     = Ret (ODR_OK, (stream', [], fdata')) \<and> ft_named fdata' ft_example_cache ''a''"
proof -
  have "ft_arrays (ft_example_data ''old'' ''old'' ''/c/old'')" by (rule ft_example_arrays) (simp_all add: nul_def)
  then show ?thesis
    using file_transfer_write_name_selects [OF ft_example_subs, of "\<lparr>dataOffset = 0, dataLength = 2, subIndex = 3\<rparr>" "''a''"
        "ft_example_data ''old'' ''old'' ''/c/old''" ft_example_cache ft_example_kern "[]"] ft_example_dir
    by (auto simp: ft_example_config_def ft_name_def plain_name_def nul_def PATH_LEN_def ft_example_cache_def)
qed

lemma file_transfer_write_name_stale_suffix_witness:
  "\<exists>stream' fdata'. ft_write_call ft_example_config ft_example_kern
       (\<lparr>dataOffset = 0, dataLength = 1, subIndex = 3\<rparr>, [], ft_example_data ''old'' ''old'' ''/c/old'') (bytes_of_string ''a'')
     = Ret (ODR_OK, (stream', [], fdata')) \<and> ft_named fdata' ft_example_cache ''ald''"
proof -
  have "ft_arrays (ft_example_data ''old'' ''old'' ''/c/old'')" by (rule ft_example_arrays) (simp_all add: nul_def)
  moreover have "region_has (raw (ft_example_data ''old'' ''old'' ''/c/old'')) ''old''"
    using ft_example_region_has [of "''old''"] by (simp add: ft_example_data_def nul_def)
  ultimately show ?thesis
    using file_transfer_write_name_stale_suffix [OF ft_example_subs, of "\<lparr>dataOffset = 0, dataLength = 1, subIndex = 3\<rparr>" "''a''" "''old''"
        "ft_example_data ''old'' ''old'' ''/c/old''" ft_example_cache ft_example_kern "[]"] ft_example_dir
    by (auto simp: ft_example_config_def ft_name_def plain_name_def nul_def PATH_LEN_def ft_example_cache_def)
qed

lemma file_transfer_absolute_name_not_delivered_witness:
  "\<exists>stream' fs' fdata'. ft_write_call ft_example_config ft_example_kern
       (\<lparr>dataOffset = 0, dataLength = 2, subIndex = 4\<rparr>, [([], Dir), ([''tmp''], Dir)], ft_example_data ''/a'' ''a'' ''/a'') [7, 8]
     = Ret (ODR_OK, (stream', fs', fdata')) \<and> map_of fs' [''a''] = None \<and> map_of fs' [''tmp'', ''a''] = Some (File [7, 8])"
proof -
  have r: "region_has (raw (ft_example_data ''/a'' ''a'' ''/a'')) ''/a''" "region_has (file_name (ft_example_data ''/a'' ''a'' ''/a'')) ''a''"
    "length (tmp_file_path (ft_example_data ''/a'' ''a'' ''/a'')) = PATH_LEN"
    using ft_example_region_has [of "''/a''"] ft_example_region_has [of "''a''"] ft_example_region_has [of "[]"] region_has_length
    by (auto simp: ft_example_data_def nul_def)
  show ?thesis
    using file_transfer_absolute_name_not_delivered [OF ft_example_subs, of "\<lparr>dataOffset = 0, dataLength = 2, subIndex = 4\<rparr>" "[7, 8]"
        "ft_example_data ''/a'' ''a'' ''/a''" "''/a''" "''a''" "[([], Dir), ([''tmp''], Dir)]" ft_example_kern] r
    by (auto simp: ft_example_config_def plain_name_def nul_def PATH_LEN_def tmp_of_def)
qed

end
