(* ===== verification/Ecss_Time.thy ===== *)
theory Ecss_Time
  imports Od_Ext "HOL-Library.Signed_Division"
begin

text \<open>
  Model of \<^verbatim>\<open>src/common/ecss_time.c\<close> and \<^verbatim>\<open>src/od_extensions/ecss_time_ext.c\<close>: the system clock as ECSS time codes,
  and the two object dictionary entries that read and set it. The layout of the two unions is the
  one of the System V and ARM procedure call standards: a bit field does not cross a unit of its
  type.
\<close>

section \<open>The clock\<close>

record timeval =
  tv_secs :: int
  tv_usec :: int

text \<open>
  \<^verbatim>\<open>settimeofday\<close>: \<open>denied\<close> is the error number when the process may not set the clock. A
  microsecond part outside its range is refused.
\<close>

definition settimeofday :: "int option \<Rightarrow> timeval \<Rightarrow> timeval \<Rightarrow> int \<times> timeval" where
  "settimeofday denied clock t = (case denied of
       Some e \<Rightarrow> (- e, clock)
     | None \<Rightarrow> if 0 \<le> tv_usec t \<and> tv_usec t < 1000000 then (0, t) else (- EINVAL, clock))"

section \<open>SCET\<close>

record ecss_scet =
  coarse :: u32
  fine :: "24 word"

definition get_ecss_scet :: "timeval \<Rightarrow> ecss_scet" where
  "get_ecss_scet time = \<lparr>coarse = of_int (tv_secs time), fine = of_int (tv_usec time)\<rparr>"

definition set_ecss_scet :: "int option \<Rightarrow> timeval \<Rightarrow> ecss_scet option \<Rightarrow> int \<times> timeval" where
  "set_ecss_scet denied clock scet = (case scet of
       None \<Rightarrow> (- EINVAL, clock)
     | Some s \<Rightarrow> settimeofday denied clock \<lparr>tv_secs = int (unat (coarse s)), tv_usec = int (unat (fine s))\<rparr>)"

text \<open>In memory the structure takes seven bytes, coarse first; the eighth byte is padding.\<close>

definition scet_bytes :: "ecss_scet \<Rightarrow> byte list" where
  "scet_bytes s = le_bytes 4 (unat (coarse s)) @ le_bytes 3 (unat (fine s))"

definition scet_of_bytes :: "byte list \<Rightarrow> ecss_scet" where
  "scet_of_bytes bs = \<lparr>coarse = of_nat (le_val (take 4 bs)), fine = of_nat (le_val (take 3 (drop 4 bs)))\<rparr>"

section \<open>UTC\<close>

definition SECS_IN_DAY :: int where "SECS_IN_DAY = 24 * 60 * 60"

record ecss_utc =
  day :: u16
  ms :: u32
  us :: u16

definition get_ecss_utc :: "timeval \<Rightarrow> ecss_utc" where
  "get_ecss_utc time = \<lparr>day = of_int (tv_secs time sdiv SECS_IN_DAY), ms = of_int (tv_usec time sdiv 1000),
     us = of_int (tv_usec time smod 1000)\<rparr>"

text \<open>
  The day is promoted to \<^verbatim>\<open>int\<close> and multiplied there; milliseconds and microseconds are combined in
  \<^verbatim>\<open>uint32_t\<close>.
\<close>

definition set_ecss_utc :: "int option \<Rightarrow> timeval \<Rightarrow> ecss_utc option \<Rightarrow> (int \<times> timeval) outcome" where
  "set_ecss_utc denied clock utc = (case utc of
       None \<Rightarrow> Ret (- EINVAL, clock)
     | Some u \<Rightarrow>
         if int (unat (day u)) * SECS_IN_DAY \<ge> 2 ^ 31 then Fault Signed_overflow
         else Ret (settimeofday denied clock
           \<lparr>tv_secs = int (unat (day u)) * SECS_IN_DAY, tv_usec = int (unat (ms u * 1000 + ucast (us u)))\<rparr>))"

text \<open>The day is at offset 0, the milliseconds at 4, the microseconds at 8.\<close>

definition utc_store :: "byte list \<Rightarrow> ecss_utc \<Rightarrow> byte list outcome" where
  "utc_store buf u =
     bind_outcome (poke buf 0 (le_bytes 2 (unat (day u)))) (\<lambda>b1.
     bind_outcome (poke b1 4 (le_bytes 4 (unat (ms u)))) (\<lambda>b2.
     poke b2 8 (le_bytes 2 (unat (us u)))))"

definition utc_load :: "byte list \<Rightarrow> ecss_utc outcome" where
  "utc_load buf =
     bind_outcome (peek buf 0 10) (\<lambda>bs.
     Ret \<lparr>day = of_nat (le_val (take 2 bs)), ms = of_nat (le_val (take 4 (drop 4 bs))), us = of_nat (le_val (drop 8 bs))\<rparr>)"

section \<open>The object dictionary entries\<close>

definition ecss_scet_read ::
  "timeval \<Rightarrow> 's::len word od_stream \<Rightarrow> byte list \<Rightarrow> 's word \<Rightarrow> (ODR \<times> 's word od_stream \<times> byte list \<times> 's word) outcome" where
  "ecss_scet_read clock stream buf count =
     (let s = stream\<lparr>dataLength := 8\<rparr> in
      bind_outcome (poke buf 0 (scet_bytes (get_ecss_scet clock))) (\<lambda>buf'. Ret (ODR_OK, s, buf', dataLength s)))"

definition ecss_scet_write ::
  "int option \<Rightarrow> timeval \<Rightarrow> 's::len word od_stream \<Rightarrow> byte list \<Rightarrow> 's word \<Rightarrow> (ODR \<times> timeval \<times> 's word) outcome" where
  "ecss_scet_write denied clock stream buf count =
     bind_outcome (peek buf 0 7) (\<lambda>bs.
     let (r, clock') = set_ecss_scet denied clock (Some (scet_of_bytes bs)) in
     Ret (ODR_OK, clock', dataLength stream))"

definition ecss_utc_read ::
  "timeval \<Rightarrow> 's::len word od_stream \<Rightarrow> byte list \<Rightarrow> 's word \<Rightarrow> (ODR \<times> 's word od_stream \<times> byte list \<times> 's word) outcome" where
  "ecss_utc_read clock stream buf count =
     (let s = stream\<lparr>dataLength := 8\<rparr> in
      bind_outcome (utc_store buf (get_ecss_utc clock)) (\<lambda>buf'. Ret (ODR_OK, s, buf', dataLength s)))"

definition ecss_utc_write ::
  "int option \<Rightarrow> timeval \<Rightarrow> 's::len word od_stream \<Rightarrow> byte list \<Rightarrow> 's word \<Rightarrow> (ODR \<times> timeval \<times> 's word) outcome" where
  "ecss_utc_write denied clock stream buf count =
     bind_outcome (utc_load buf) (\<lambda>u.
     bind_outcome (set_ecss_utc denied clock (Some u)) (\<lambda>(r, clock').
     Ret (ODR_OK, clock', dataLength stream)))"

section \<open>Correctness\<close>

definition clock_ok :: "timeval \<Rightarrow> bool" where
  "clock_ok t \<longleftrightarrow> 0 \<le> tv_secs t \<and> tv_secs t < 2 ^ 32 \<and> 0 \<le> tv_usec t \<and> tv_usec t < 1000000"

lemma unat_of_int_small: "0 \<le> x \<Longrightarrow> x < 2 ^ LENGTH('s::len) \<Longrightarrow> int (unat (of_int x :: 's word)) = x"
  by (simp add: uint_nat [symmetric] uint_word_of_int)

lemma scet_of_scet_bytes: "scet_of_bytes (scet_bytes s) = s"
proof -
  have "unat (coarse s) < 256 ^ 4" "unat (fine s) < 256 ^ 3"
    using unsigned_less [of "coarse s", where ?'a = nat] unsigned_less [of "fine s", where ?'a = nat] by simp_all
  then show ?thesis by (cases s) (simp add: scet_of_bytes_def scet_bytes_def le_val_le_bytes)
qed

text \<open>
  C34: a clock value before the year 2106 goes through the SCET object unchanged: writing back the bytes that
  were read sets any clock that may be set to exactly that value, to the microsecond.
\<close>

theorem ecss_scet_roundtrip:
  fixes stream :: "'s::len word od_stream"
  assumes "clock_ok t" and "8 \<le> length buf"
  shows "\<exists>s buf' n. ecss_scet_read t stream buf count = Ret (ODR_OK, s, buf', n) \<and> length buf' = length buf
    \<and> ecss_scet_write None t0 s buf' n = Ret (ODR_OK, t, n)"
proof -
  let ?b = "scet_bytes (get_ecss_scet t) @ drop 7 buf"
  have len: "length (scet_bytes (get_ecss_scet t)) = 7" by (simp add: scet_bytes_def)
  have rd: "ecss_scet_read t stream buf count = Ret (ODR_OK, stream\<lparr>dataLength := 8\<rparr>, ?b, 8)"
    using assms(2) len by (simp add: ecss_scet_read_def)
  have "int (unat (coarse (get_ecss_scet t))) = tv_secs t" "int (unat (fine (get_ecss_scet t))) = tv_usec t"
    using assms(1) unat_of_int_small [of "tv_secs t", where ?'s = 32] unat_of_int_small [of "tv_usec t", where ?'s = 24]
    by (simp_all add: get_ecss_scet_def clock_ok_def)
  then have "set_ecss_scet None t0 (Some (get_ecss_scet t)) = (0, t)"
    using assms(1) by (simp add: set_ecss_scet_def settimeofday_def clock_ok_def)
  moreover have "peek ?b 0 7 = Ret (scet_bytes (get_ecss_scet t))" using len assms(2) by simp
  ultimately have "ecss_scet_write None t0 (stream\<lparr>dataLength := 8\<rparr>) ?b 8 = Ret (ODR_OK, t, 8)"
    by (simp add: ecss_scet_write_def scet_of_scet_bytes)
  with rd len assms(2) show ?thesis by auto
qed

theorem ecss_scet_roundtrip_witness:
  "\<exists>s buf' n. ecss_scet_read \<lparr>tv_secs = 1700000000, tv_usec = 250000\<rparr> \<lparr>dataOffset = 0 :: u32, dataLength = 0, subIndex = 0\<rparr>
       (replicate 8 0) 8 = Ret (ODR_OK, s, buf', n)
     \<and> ecss_scet_write None \<lparr>tv_secs = 0, tv_usec = 0\<rparr> s buf' n = Ret (ODR_OK, \<lparr>tv_secs = 1700000000, tv_usec = 250000\<rparr>, n)"
  using ecss_scet_roundtrip [of "\<lparr>tv_secs = 1700000000, tv_usec = 250000\<rparr>" "replicate 8 0"
      "\<lparr>dataOffset = 0 :: u32, dataLength = 0, subIndex = 0\<rparr>" 8 "\<lparr>tv_secs = 0, tv_usec = 0\<rparr>"]
  by (auto simp: clock_ok_def)

lemma list_pieces: "xs = take 2 xs @ take 2 (drop 2 xs) @ take 4 (drop 4 xs) @ take 2 (drop 8 xs) @ drop 10 xs"
  using append_take_drop_id [of 2 xs] append_take_drop_id [of 2 "drop 2 xs"]
    append_take_drop_id [of 4 "drop 4 xs"] append_take_drop_id [of 2 "drop 8 xs"]
  by simp

lemma utc_store_bytes:
  assumes "10 \<le> length buf"
  shows "utc_store buf u = Ret (le_bytes 2 (unat (day u)) @ take 2 (drop 2 buf) @ le_bytes 4 (unat (ms u)) @
      le_bytes 2 (unat (us u)) @ drop 10 buf)"
proof -
  obtain a1 a2 a3 a4 a5 where buf: "buf = a1 @ a2 @ a3 @ a4 @ a5"
    and len: "length a1 = 2" "length a2 = 2" "length a3 = 4" "length a4 = 2"
    using list_pieces [of buf] assms that [of "take 2 buf" "take 2 (drop 2 buf)" "take 4 (drop 4 buf)" "take 2 (drop 8 buf)" "drop 10 buf"]
    by simp
  show ?thesis unfolding buf by (simp add: len utc_store_def)
qed

lemma utc_load_store:
  assumes "10 \<le> length buf" and "utc_store buf u = Ret buf'"
  shows "utc_load buf' = Ret u"
proof -
  have "unat (day u) < 256 ^ 2" "unat (ms u) < 256 ^ 4" "unat (us u) < 256 ^ 2"
    using unsigned_less [of "day u", where ?'a = nat] unsigned_less [of "ms u", where ?'a = nat]
      unsigned_less [of "us u", where ?'a = nat] by simp_all
  then show ?thesis using assms utc_store_bytes [OF assms(1), of u]
    by (cases u) (auto simp: utc_load_def le_val_le_bytes)
qed

text \<open>
  The UTC object carries the day and the fraction of the second, not the time of day: writing back what was
  read sets the clock to midnight of that day. From day 24856 on the multiplication overflows.
  Of the eight bytes that the read announces two are left as they were in the buffer, and the
  microseconds lie behind them.
\<close>

lemma ecss_utc_loses_time_of_day:
  fixes stream :: "'s::len word od_stream"
  assumes "clock_ok t" and "10 \<le> length buf"
  shows "\<exists>s buf' n. ecss_utc_read t stream buf count = Ret (ODR_OK, s, buf', n)
    \<and> take 8 buf' = le_bytes 2 (nat (tv_secs t div SECS_IN_DAY)) @ take 2 (drop 2 buf) @ le_bytes 4 (nat (tv_usec t div 1000))
    \<and> ecss_utc_write None t0 s buf' n =
       (if tv_secs t div SECS_IN_DAY < 24856
        then Ret (ODR_OK, \<lparr>tv_secs = tv_secs t - tv_secs t mod SECS_IN_DAY, tv_usec = tv_usec t\<rparr>, n)
        else Fault Signed_overflow)"
proof -
  define u where "u = get_ecss_utc t"
  define D where "D = tv_secs t div SECS_IN_DAY"
  have bounds: "0 \<le> D" "D < 65536" "0 \<le> tv_usec t div 1000" "tv_usec t div 1000 < 1000"
    using assms(1) by (auto simp: clock_ok_def D_def SECS_IN_DAY_def)
  have sd: "tv_secs t sdiv SECS_IN_DAY = D" "tv_usec t sdiv 1000 = tv_usec t div 1000" "tv_usec t smod 1000 = tv_usec t mod 1000"
    using assms(1) by (auto simp: clock_ok_def D_def SECS_IN_DAY_def signed_divide_int_def signed_modulo_int_def sgn_if minus_div_mult_eq_mod)
  have day: "int (unat (day u)) = D" and ms: "int (unat (ms u)) = tv_usec t div 1000" and us: "int (unat (us u)) = tv_usec t mod 1000"
    using bounds sd unat_of_int_small [of D, where ?'s = 16] unat_of_int_small [of "tv_usec t div 1000", where ?'s = 32]
      unat_of_int_small [of "tv_usec t mod 1000", where ?'s = 16] pos_mod_bound [of 1000 "tv_usec t"]
    by (simp_all add: u_def get_ecss_utc_def)
  have small: "unat (ms u) < 1000" "unat (us u) < 1000"
    using ms us bounds(4) pos_mod_bound [of 1000 "tv_usec t"] by linarith+
  have "unat (ms u * 1000 + ucast (us u)) = unat (ms u) * 1000 + unat (us u)"
    using small by (simp add: unat_word_ariths unsigned_ucast_eq take_bit_nat_eq_self)
  then have usec: "int (unat (ms u * 1000 + ucast (us u))) = tv_usec t"
    using ms us div_mult_mod_eq [of "tv_usec t" 1000] by simp
  define buf' where "buf' = le_bytes 2 (unat (day u)) @ take 2 (drop 2 buf) @ le_bytes 4 (unat (ms u)) @
      le_bytes 2 (unat (us u)) @ drop 10 buf"
  have store: "utc_store buf u = Ret buf'" using utc_store_bytes [OF assms(2)] by (simp add: buf'_def)
  then have rd: "ecss_utc_read t stream buf count = Ret (ODR_OK, stream\<lparr>dataLength := 8\<rparr>, buf', 8)"
    by (simp add: ecss_utc_read_def u_def)
  have eight: "take 8 buf' = le_bytes 2 (nat D) @ take 2 (drop 2 buf) @ le_bytes 4 (nat (tv_usec t div 1000))"
    using assms(2) by (simp add: buf'_def flip: day ms)
  have "set_ecss_utc None t0 (Some u) = (if D < 24856
      then Ret (0, \<lparr>tv_secs = D * SECS_IN_DAY, tv_usec = tv_usec t\<rparr>) else Fault Signed_overflow)"
    using assms(1) unfolding set_ecss_utc_def option.case usec day
    by (auto simp: settimeofday_def clock_ok_def SECS_IN_DAY_def)
  moreover have "D * SECS_IN_DAY = tv_secs t - tv_secs t mod SECS_IN_DAY" by (simp add: D_def minus_mod_eq_div_mult)
  ultimately have "ecss_utc_write None t0 (stream\<lparr>dataLength := 8\<rparr>) buf' 8 =
      (if D < 24856 then Ret (ODR_OK, \<lparr>tv_secs = tv_secs t - tv_secs t mod SECS_IN_DAY, tv_usec = tv_usec t\<rparr>, 8)
       else Fault Signed_overflow)"
    using utc_load_store [OF assms(2) store] by (simp add: ecss_utc_write_def)
  with rd eight show ?thesis by (auto simp: D_def)
qed

lemma ecss_utc_loses_time_of_day_witness:
  "\<exists>s buf' n. ecss_utc_read \<lparr>tv_secs = 1700000000, tv_usec = 250000\<rparr> \<lparr>dataOffset = 0 :: u32, dataLength = 0, subIndex = 0\<rparr>
       (replicate 12 0) 8 = Ret (ODR_OK, s, buf', n)
     \<and> ecss_utc_write None \<lparr>tv_secs = 0, tv_usec = 0\<rparr> s buf' n = Ret (ODR_OK, \<lparr>tv_secs = 1699920000, tv_usec = 250000\<rparr>, n)"
  using ecss_utc_loses_time_of_day [of "\<lparr>tv_secs = 1700000000, tv_usec = 250000\<rparr>" "replicate 12 0"
      "\<lparr>dataOffset = 0 :: u32, dataLength = 0, subIndex = 0\<rparr>" 8 "\<lparr>tv_secs = 0, tv_usec = 0\<rparr>"]
  by (auto simp: clock_ok_def SECS_IN_DAY_def)

end
