(* ===== verification/System_Ext.thy ===== *)
theory System_Ext
  imports Od_Ext
begin

text \<open>
  Model of \<^verbatim>\<open>src/od_extensions/system_ext.c\<close>: the object dictionary entry with the state of the machine. The
  subindices are generated into \<^verbatim>\<open>OD.h\<close> and \<^verbatim>\<open>OD_readOriginal\<close>, \<^verbatim>\<open>OD_writeOriginal\<close> belong to the CANopen stack;
  all are parameters.
\<close>

section \<open>Configuration and machine\<close>

record 'w system_config =
  SUB_RESET :: byte
  SUB_STORAGE_PERCENT :: byte
  SUB_RAM_PERCENT :: byte
  SUB_UNIX_TIME :: byte
  SUB_UPTIME :: byte
  SUB_POWER_CYCLES :: byte
  SUB_BOOT_SELECT :: byte
  sys_readOriginal :: "'w od_stream \<Rightarrow> byte list \<Rightarrow> 'w \<Rightarrow> 'w \<Rightarrow> (ODR \<times> 'w od_stream \<times> byte list \<times> 'w) outcome"
  sys_writeOriginal :: "'w od_stream \<Rightarrow> byte list \<Rightarrow> 'w \<Rightarrow> 'w \<Rightarrow> (ODR \<times> 'w od_stream \<times> 'w) outcome"

text \<open>
  What the kernel says: \<^verbatim>\<open>statvfs\<close> (blocks and available blocks), \<^verbatim>\<open>sysinfo\<close> (total and free memory), both may
  fail, the clock and the time since boot.
\<close>

record machine =
  vfs :: "(u64 \<times> u64) option"
  ram :: "(u64 \<times> u64) option"
  unix_clock :: nat
  boot_clock :: timespec

section \<open>The handlers\<close>

text \<open>The share in use, in the arithmetic of \<^verbatim>\<open>unsigned long\<close>, cut to a byte.\<close>

definition usage_percent :: "(u64 \<times> u64) option \<Rightarrow> byte outcome" where
  "usage_percent q = (case q of
       None \<Rightarrow> Ret 0
     | Some (total_n, free_n) \<Rightarrow> if total_n = 0 then Fault Division_by_zero else Ret (ucast ((total_n - free_n) * 100 div total_n)))"

definition system_read ::
  "'s::len word system_config \<Rightarrow> machine \<Rightarrow> 's word od_stream \<Rightarrow> byte list \<Rightarrow> 's word \<Rightarrow> 's word \<Rightarrow>
   (ODR \<times> 's word od_stream \<times> byte list \<times> 's word) outcome" where
  "system_read cfg m stream buf count countRead =
     (let sub = subIndex stream in
      if sub = 0 then sys_readOriginal cfg stream buf count countRead
      else if sub = SUB_RESET cfg then Ret (ODR_WRITEONLY, stream, buf, countRead)
      else if sub = SUB_STORAGE_PERCENT cfg then
        bind_outcome (usage_percent (vfs m)) (\<lambda>usage.
        bind_outcome (poke buf 0 [usage]) (\<lambda>buf'. Ret (ODR_OK, stream, buf', 1)))
      else if sub = SUB_RAM_PERCENT cfg then
        bind_outcome (usage_percent (ram m)) (\<lambda>usage.
        bind_outcome (poke buf 0 [usage]) (\<lambda>buf'. Ret (ODR_OK, stream, buf', 1)))
      else if sub = SUB_UNIX_TIME cfg then
        bind_outcome (poke buf 0 (take 1 (le_bytes 4 (unat (get_unix_time_s (unix_clock m)))))) (\<lambda>buf'. Ret (ODR_OK, stream, buf', 4))
      else if sub = SUB_UPTIME cfg then
        bind_outcome (poke buf 0 (take 1 (le_bytes 4 (unat (get_uptime_s (boot_clock m)))))) (\<lambda>buf'. Ret (ODR_OK, stream, buf', 4))
      else if sub = SUB_POWER_CYCLES cfg then
        bind_outcome (poke buf 0 (take 1 (le_bytes 2 0))) (\<lambda>buf'. Ret (ODR_OK, stream, buf', 2))
      else if sub = SUB_BOOT_SELECT cfg then
        bind_outcome (poke buf 0 [0]) (\<lambda>buf'. Ret (ODR_OK, stream, buf', 1))
      else Ret (ODR_SUB_NOT_EXIST, stream, buf, countRead))"

definition system_write ::
  "'s::len word system_config \<Rightarrow> 's word od_stream \<Rightarrow> byte list \<Rightarrow> 's word \<Rightarrow> 's word \<Rightarrow> (ODR \<times> 's word od_stream \<times> 's word) outcome" where
  "system_write cfg stream buf count countWritten =
     (if subIndex stream \<in> {0, SUB_STORAGE_PERCENT cfg, SUB_RAM_PERCENT cfg, SUB_UNIX_TIME cfg, SUB_UPTIME cfg, SUB_POWER_CYCLES cfg,
          SUB_BOOT_SELECT cfg}
      then Ret (ODR_READONLY, stream, countWritten)
      else if subIndex stream = SUB_RESET cfg then sys_writeOriginal cfg stream buf count countWritten
      else Ret (ODR_SUB_NOT_EXIST, stream, countWritten))"

section \<open>Correctness\<close>

definition sys_subs_ok :: "'w system_config \<Rightarrow> bool" where
  "sys_subs_ok cfg \<longleftrightarrow> distinct [0, SUB_RESET cfg, SUB_STORAGE_PERCENT cfg, SUB_RAM_PERCENT cfg, SUB_UNIX_TIME cfg, SUB_UPTIME cfg,
     SUB_POWER_CYCLES cfg, SUB_BOOT_SELECT cfg]"

lemma usage_percent_exact:
  assumes "free_n \<le> total_n" and "total_n \<noteq> 0" and "unat total_n * 100 < 2 ^ 64"
  shows "usage_percent (Some (total_n, free_n)) = Ret (of_nat ((unat total_n - unat free_n) * 100 div unat total_n))"
    and "(unat total_n - unat free_n) * 100 div unat total_n \<le> 100"
proof -
  have sub: "unat (total_n - free_n) = unat total_n - unat free_n" using assms(1) by (rule unat_sub)
  have "(unat total_n - unat free_n) * 100 < 2 ^ 64" using assms(3) by (rule le_less_trans [rotated]) simp
  then have "unat (total_n - free_n) * unat (100 :: u64) < 2 ^ LENGTH(64)" by (simp add: sub)
  then have mul: "unat ((total_n - free_n) * 100) = (unat total_n - unat free_n) * 100"
    using unat_mult_lem [of "total_n - free_n" 100] sub by simp
  have "unat total_n \<noteq> 0" using assms(2) by (simp add: unat_eq_zero)
  then show le: "(unat total_n - unat free_n) * 100 div unat total_n \<le> 100"
    by (metis diff_le_self div_le_mono div_mult_self_is_m mult.commute mult_le_mono1 neq0_conv)
  have "ucast ((total_n - free_n) * 100 div total_n) = (of_nat (unat ((total_n - free_n) * 100 div total_n)) :: byte)" by simp
  also have "unat ((total_n - free_n) * 100 div total_n) = (unat total_n - unat free_n) * 100 div unat total_n"
    using mul by (simp add: unat_div_distrib)
  finally show "usage_percent (Some (total_n, free_n)) = Ret (of_nat ((unat total_n - unat free_n) * 100 div unat total_n))"
    using assms(2) by (simp add: usage_percent_def)
qed

text \<open>
  The storage and memory objects deliver the share in use in whole percent, never more than 100, as long
  as the size in use stays below the point where a hundredfold of it overflows 64 bits.
\<close>

lemma system_usage_in_percent:
  fixes cfg :: "'s::len word system_config"
  assumes "sys_subs_ok cfg" and "subIndex stream = SUB_STORAGE_PERCENT cfg" and "vfs m = Some (total_n, free_n)"
    and "free_n \<le> total_n" and "total_n \<noteq> 0" and "unat total_n * 100 < 2 ^ 64" and "buf \<noteq> []"
  shows "\<exists>p. p \<le> 100 \<and> p = (unat total_n - unat free_n) * 100 div unat total_n
    \<and> system_read cfg m stream buf count cr = Ret (ODR_OK, stream, of_nat p # tl buf, 1)"
proof -
  obtain b bs where "buf = b # bs" using assms(7) by (cases buf) auto
  then show ?thesis
    using usage_percent_exact [OF assms(4-6)] assms(1-3) by (auto simp: system_read_def sys_subs_ok_def)
qed

lemma le_bytes_first: "0 < n \<Longrightarrow> take 1 (le_bytes n v) = [of_nat (v mod 256)]"
  by (cases n) simp_all

text \<open>
  Of the four bytes the unix time object announces only the lowest is set: what the peer
  receives is the time modulo 256 in the first byte and three bytes of whatever the buffer held.
\<close>

lemma system_unix_time_truncated:
  fixes cfg :: "'s::len word system_config"
  assumes "sys_subs_ok cfg" and "subIndex stream = SUB_UNIX_TIME cfg" and "4 \<le> length buf"
  shows "\<exists>buf'. system_read cfg m stream buf count cr = Ret (ODR_OK, stream, buf', 4)
    \<and> take 4 buf' = of_nat (unix_clock m mod 256) # take 3 (drop 1 buf)"
proof -
  obtain b bs where b: "buf = b # bs" using assms(3) by (cases buf) auto
  have "unat (get_unix_time_s (unix_clock m)) mod 256 = unix_clock m mod 256"
    by (simp add: get_unix_time_s_def unat_of_nat take_bit_eq_mod mod_mod_cancel)
  then have "take 1 (le_bytes 4 (unat (get_unix_time_s (unix_clock m)))) = [of_nat (unix_clock m mod 256)]"
    by (simp only: le_bytes_first zero_less_numeral)
  then have "system_read cfg m stream buf count cr = Ret (ODR_OK, stream, of_nat (unix_clock m mod 256) # bs, 4)"
    using assms(1,2) b by (auto simp: system_read_def sys_subs_ok_def)
  then show ?thesis by (simp add: b)
qed

text \<open>A configuration and a machine for concrete runs.\<close>

definition system_example_config :: "u32 system_config" where
  "system_example_config = \<lparr>SUB_RESET = 1, SUB_STORAGE_PERCENT = 2, SUB_RAM_PERCENT = 3, SUB_UNIX_TIME = 4, SUB_UPTIME = 5,
     SUB_POWER_CYCLES = 6, SUB_BOOT_SELECT = 9, sys_readOriginal = (\<lambda>s b n c. Ret (ODR_OK, s, b, c)),
     sys_writeOriginal = (\<lambda>s b n c. Ret (ODR_OK, s, c))\<rparr>"

definition system_example_machine :: machine where
  "system_example_machine = \<lparr>vfs = Some (4000, 1000), ram = None, unix_clock = 1700000000, boot_clock = \<lparr>tv_sec = 5, tv_nsec = 0\<rparr>\<rparr>"

lemma system_example_subs: "sys_subs_ok system_example_config"
  by (simp add: sys_subs_ok_def system_example_config_def)

lemma system_usage_in_percent_witness:
  "system_read system_example_config system_example_machine \<lparr>dataOffset = 0, dataLength = 0, subIndex = 2\<rparr> [0, 7] 2 0
     = Ret (ODR_OK, \<lparr>dataOffset = 0, dataLength = 0, subIndex = 2\<rparr>, [75, 7], 1)"
  using system_usage_in_percent [OF system_example_subs, of "\<lparr>dataOffset = 0, dataLength = 0, subIndex = 2\<rparr>" system_example_machine
      4000 1000 "[0, 7]" 2 0]
  by (simp add: system_example_config_def system_example_machine_def)

lemma system_unix_time_truncated_witness:
  "\<exists>buf'. system_read system_example_config system_example_machine \<lparr>dataOffset = 0, dataLength = 0, subIndex = 4\<rparr> [1, 2, 3, 4] 4 0
     = Ret (ODR_OK, \<lparr>dataOffset = 0, dataLength = 0, subIndex = 4\<rparr>, buf', 4) \<and> take 4 buf' = [0, 2, 3, 4]"
  using system_unix_time_truncated [OF system_example_subs, of "\<lparr>dataOffset = 0, dataLength = 0, subIndex = 4\<rparr>" "[1, 2, 3, 4]"
      system_example_machine 4 0]
  by (simp add: system_example_config_def system_example_machine_def)

end
