(* ===== verification/Str2buf.thy ===== *)
theory Str2buf
  imports Cand_Base
begin

text \<open>
  Model of \<^verbatim>\<open>src/common/str2buf.c\<close>: the conversion of configuration and command line text into
  the memory image of an object dictionary value. The first part models what the source uses of
  the C library (the \<^verbatim>\<open>strtol\<close> family at a given width), the second part the functions of the
  file, the third part their correctness: exact round trips with printed numbers, range checks,
  and the dispatch on data types.
\<close>

section \<open>The C library conversions\<close>

text \<open>
  The platform: the width of \<^verbatim>\<open>long\<close> (32 on the ARM cards, 64 on a development host), whether
  \<^verbatim>\<open>malloc\<close> of a given size succeeds, and the floating point parser \<^verbatim>\<open>strtof\<close>, which yields the
  bits of the \<^verbatim>\<open>float\<close> and the number of characters consumed.
\<close>

record cenv =
  long_bits :: nat
  malloc_ok :: "nat \<Rightarrow> bool"
  strtof_c :: "string \<Rightarrow> u32 \<times> nat"

definition isspace_c :: "char \<Rightarrow> bool" where
  "isspace_c c \<longleftrightarrow> (let n = (of_char c :: nat) in n = 32 \<or> 9 \<le> n \<and> n \<le> 13)"

definition digit_val :: "char \<Rightarrow> nat option" where
  "digit_val c = (let n = (of_char c :: nat) in
     if 48 \<le> n \<and> n \<le> 57 then Some (n - 48)
     else if 97 \<le> n \<and> n \<le> 122 then Some (n - 87)
     else if 65 \<le> n \<and> n \<le> 90 then Some (n - 55)
     else None)"

definition is_digit :: "nat \<Rightarrow> char \<Rightarrow> bool" where
  "is_digit base c = (case digit_val c of None \<Rightarrow> False | Some d \<Rightarrow> d < base)"

fun digits_acc :: "nat \<Rightarrow> nat \<Rightarrow> string \<Rightarrow> nat" where
  "digits_acc base acc [] = acc"
| "digits_acc base acc (c # cs) =
     digits_acc base (acc * base + (case digit_val c of None \<Rightarrow> 0 | Some d \<Rightarrow> d)) cs"

definition skip_sign :: "string \<Rightarrow> bool \<times> string" where
  "skip_sign s = (case s of
       [] \<Rightarrow> (False, [])
     | c # r \<Rightarrow> if c = CHR ''-'' then (True, r) else if c = CHR ''+'' then (False, r) else (False, s))"

definition skip_0x :: "nat \<Rightarrow> string \<Rightarrow> string" where
  "skip_0x base s =
     (if base = 16 \<and> 2 < length s \<and> s ! 0 = CHR ''0'' \<and> (s ! 1 = CHR ''x'' \<or> s ! 1 = CHR ''X'')
         \<and> is_digit 16 (s ! 2)
      then drop 2 s else s)"

text \<open>
  The common part of the family: sign, magnitude, and the number of characters up to
  \<^verbatim>\<open>endptr\<close>, which is 0 (\<^verbatim>\<open>endptr == str\<close>) exactly when no conversion could be made.
\<close>

definition strto_scan :: "string \<Rightarrow> nat \<Rightarrow> bool \<times> nat \<times> nat" where
  "strto_scan s base =
     (let s1 = dropWhile isspace_c s;
          (neg, s2) = skip_sign s1;
          s3 = skip_0x base s2;
          ds = takeWhile (is_digit base) s3
      in if ds = [] then (False, 0, 0)
         else (neg, digits_acc base 0 ds, length s - length s3 + length ds))"

definition strtoul :: "nat \<Rightarrow> string \<Rightarrow> nat \<Rightarrow> nat \<times> nat" where
  "strtoul w s base =
     (let (neg, m, n) = strto_scan s base
      in (if 2 ^ w \<le> m then 2 ^ w - 1 else if neg then (2 ^ w - m) mod 2 ^ w else m, n))"

definition strtol :: "nat \<Rightarrow> string \<Rightarrow> nat \<Rightarrow> int \<times> nat" where
  "strtol w s base =
     (let (neg, m, n) = strto_scan s base;
          v = (if neg then - int m else int m)
      in (max (- (2 ^ (w - 1))) (min (2 ^ (w - 1) - 1) v), n))"

text \<open>Widening a \<^verbatim>\<open>float\<close> to a \<^verbatim>\<open>double\<close>, on the bits of the IEEE 754 formats.\<close>

definition f32_to_f64 :: "u32 \<Rightarrow> u64" where
  "f32_to_f64 x =
     (let n = unat x; s = n div 2 ^ 31; e = n div 2 ^ 23 mod 2 ^ 8; m = n mod 2 ^ 23;
          pack = (\<lambda>e' m'. of_nat (s * 2 ^ 63 + e' * 2 ^ 52 + m'))
      in if e = 255 then pack 2047 (if m = 0 then 0 else m * 2 ^ 29 + (if m < 2 ^ 22 then 2 ^ 51 else 0))
         else if e \<noteq> 0 then pack (e + 896) (m * 2 ^ 29)
         else if m = 0 then pack 0 0
         else let k = last [k \<leftarrow> [0..<23]. 2 ^ k \<le> m] in pack (k + 874) ((m - 2 ^ k) * 2 ^ (52 - k)))"

section \<open>The functions of str2buf.c\<close>

definition get_str_base :: "string \<Rightarrow> nat" where
  "get_str_base str =
     (if 3 \<le> length str \<and> str ! 0 = CHR ''0'' \<and> str ! 1 = CHR ''x'' then 16 else 10)"

definition str2buf_bool :: "cenv \<Rightarrow> string option \<Rightarrow> bool option" where
  "str2buf_bool env str = (case str of
       None \<Rightarrow> None
     | Some s \<Rightarrow>
         if s = [] then None
         else if \<not> malloc_ok env 1 then None
         else if strncmp_eq s ''true'' (length s) \<or> strncmp_eq s ''1'' (length s) then Some True
         else if strncmp_eq s ''false'' (length s) \<or> strncmp_eq s ''0'' (length s) then Some False
         else None)"

definition str2buf_uint8 :: "cenv \<Rightarrow> string option \<Rightarrow> byte option" where
  "str2buf_uint8 env str = (case str of
       None \<Rightarrow> None
     | Some s \<Rightarrow>
         if s = [] \<or> hd s = CHR ''-'' then None
         else let (tmp, endptr) = strtoul (long_bits env) s (get_str_base s)
              in if 0xFF < tmp \<or> endptr = 0 then None
                 else if malloc_ok env 1 then Some (of_nat tmp) else None)"

definition str2buf_uint16 :: "cenv \<Rightarrow> string option \<Rightarrow> u16 option" where
  "str2buf_uint16 env str = (case str of
       None \<Rightarrow> None
     | Some s \<Rightarrow>
         if s = [] \<or> hd s = CHR ''-'' then None
         else let (tmp, endptr) = strtoul (long_bits env) s (get_str_base s)
              in if 0xFFFF < tmp \<or> endptr = 0 then None
                 else if malloc_ok env 2 then Some (of_nat tmp) else None)"

definition str2buf_uint32 :: "cenv \<Rightarrow> string option \<Rightarrow> u32 option" where
  "str2buf_uint32 env str = (case str of
       None \<Rightarrow> None
     | Some s \<Rightarrow>
         if s = [] \<or> hd s = CHR ''-'' then None
         else let (tmp, endptr) = strtoul (long_bits env) s (get_str_base s)
              in if endptr = 0 then None
                 else if malloc_ok env 4 then Some (of_nat tmp) else None)"

definition str2buf_uint64 :: "cenv \<Rightarrow> string option \<Rightarrow> u64 option" where
  "str2buf_uint64 env str = (case str of
       None \<Rightarrow> None
     | Some s \<Rightarrow>
         if s = [] \<or> hd s = CHR ''-'' then None
         else let (tmp, endptr) = strtoul 64 s (get_str_base s)
              in if endptr = 0 then None
                 else if malloc_ok env 8 then Some (of_nat tmp) else None)"

definition str2buf_int8 :: "cenv \<Rightarrow> string option \<Rightarrow> 8 word option" where
  "str2buf_int8 env str = (case str of
       None \<Rightarrow> None
     | Some s \<Rightarrow>
         if s = [] then None
         else let (tmp, endptr) = strtol (long_bits env) s (get_str_base s)
              in if tmp < - 0x80 \<or> 0x7F < tmp \<or> endptr = 0 then None
                 else if malloc_ok env 1 then Some (of_int tmp) else None)"

definition str2buf_int16 :: "cenv \<Rightarrow> string option \<Rightarrow> 16 word option" where
  "str2buf_int16 env str = (case str of
       None \<Rightarrow> None
     | Some s \<Rightarrow>
         if s = [] then None
         else let (tmp, endptr) = strtol (long_bits env) s (get_str_base s)
              in if tmp < - 0x8000 \<or> 0x7FFF < tmp \<or> endptr = 0 then None
                 else if malloc_ok env 2 then Some (of_int tmp) else None)"

definition str2buf_int32 :: "cenv \<Rightarrow> string option \<Rightarrow> 32 word option" where
  "str2buf_int32 env str = (case str of
       None \<Rightarrow> None
     | Some s \<Rightarrow>
         if s = [] then None
         else let (tmp, endptr) = strtol (long_bits env) s (get_str_base s)
              in if endptr = 0 then None
                 else if malloc_ok env 4 then Some (of_int tmp) else None)"

definition str2buf_int64 :: "cenv \<Rightarrow> string option \<Rightarrow> 64 word option" where
  "str2buf_int64 env str = (case str of
       None \<Rightarrow> None
     | Some s \<Rightarrow>
         if s = [] then None
         else let (tmp, endptr) = strtol 64 s (get_str_base s)
              in if endptr = 0 then None
                 else if malloc_ok env 8 then Some (of_int tmp) else None)"

definition str2buf_float32 :: "cenv \<Rightarrow> string option \<Rightarrow> u32 option" where
  "str2buf_float32 env str = (case str of
       None \<Rightarrow> None
     | Some s \<Rightarrow>
         if s = [] then None
         else if \<not> malloc_ok env 4 then None
         else let (value, endptr) = strtof_c env s in if endptr = 0 then None else Some value)"

definition str2buf_float64 :: "cenv \<Rightarrow> string option \<Rightarrow> u64 option" where
  "str2buf_float64 env str = (case str of
       None \<Rightarrow> None
     | Some s \<Rightarrow>
         if s = [] then None
         else if \<not> malloc_ok env 8 then None
         else let (value, endptr) = strtof_c env s in
              if endptr = 0 then None else Some (f32_to_f64 value))"

text \<open>
  The loop of \<^verbatim>\<open>str2buf_bytes\<close> converts two characters at a time. Its validity test compares
  \<^verbatim>\<open>endptr\<close>, which points into the two character buffer \<^verbatim>\<open>tmp\<close>, with \<^verbatim>\<open>str\<close>, another object:
  the two pointers are never equal and the rejecting branch is never taken.
\<close>

fun hex_pairs :: "cenv \<Rightarrow> string \<Rightarrow> byte list" where
  "hex_pairs env (a # b # r) = of_nat (fst (strtoul (long_bits env) [a, b] 16)) # hex_pairs env r"
| "hex_pairs env _ = []"

definition str2buf_bytes :: "cenv \<Rightarrow> string option \<Rightarrow> nat option \<Rightarrow> byte list option \<times> nat option" where
  "str2buf_bytes env str out_len = (case (str, out_len) of
       (Some s, Some _) \<Rightarrow>
         if s = [] \<or> odd (length s) then (None, out_len)
         else if \<not> malloc_ok env (length s div 2) then (None, out_len)
         else (Some (hex_pairs env s), Some (length s div 2))
     | _ \<Rightarrow> (None, out_len))"

definition BOOLEAN :: u16 where "BOOLEAN = 0x1"
definition INTERGER8 :: u16 where "INTERGER8 = 0x2"
definition INTERGER16 :: u16 where "INTERGER16 = 0x3"
definition INTERGER32 :: u16 where "INTERGER32 = 0x4"
definition UNSIGNED8 :: u16 where "UNSIGNED8 = 0x5"
definition UNSIGNED16 :: u16 where "UNSIGNED16 = 0x6"
definition UNSIGNED32 :: u16 where "UNSIGNED32 = 0x7"
definition REAL32 :: u16 where "REAL32 = 0x8"
definition VISIBLE_STRING :: u16 where "VISIBLE_STRING = 0x9"
definition OCTET_STRING :: u16 where "OCTET_STRING = 0xA"
definition DOMAIN :: u16 where "DOMAIN = 0xF"
definition REAL64 :: u16 where "REAL64 = 0x11"
definition INTERGER64 :: u16 where "INTERGER64 = 0x15"
definition UNSIGNED64 :: u16 where "UNSIGNED64 = 0x1B"

lemmas dtype_defs = BOOLEAN_def INTERGER8_def INTERGER16_def INTERGER32_def UNSIGNED8_def
  UNSIGNED16_def UNSIGNED32_def REAL32_def VISIBLE_STRING_def OCTET_STRING_def DOMAIN_def
  REAL64_def INTERGER64_def UNSIGNED64_def

text \<open>The memory image of a value: little endian, as many bytes as its C type has.\<close>

definition image :: "('w::len) word \<Rightarrow> byte list" where
  "image x = le_bytes (LENGTH('w) div 8) (unat x)"

definition bool_image :: "bool \<Rightarrow> byte list" where
  "bool_image b = [if b then 1 else 0]"

text \<open>
  The string branch of both dispatchers: a terminated copy, whose reported length leaves the
  terminator out. A null \<^verbatim>\<open>str\<close> goes to \<^verbatim>\<open>strlen\<close> and an unchecked null from \<^verbatim>\<open>malloc\<close> to the store
  of the terminator.
\<close>

definition copy_string :: "cenv \<Rightarrow> string option \<Rightarrow> (byte list option \<times> nat) outcome" where
  "copy_string env str = (case str of
       None \<Rightarrow> Fault Null_pointer
     | Some s \<Rightarrow> if malloc_ok env (length s + 1)
                 then Ret (Some (bytes_of_string s @ [0]), length s) else Fault Null_pointer)"

definition bytes_with_len :: "cenv \<Rightarrow> string option \<Rightarrow> byte list option \<times> nat" where
  "bytes_with_len env str = (case str2buf_bytes env str (Some 0) of
       (buf, Some n) \<Rightarrow> (buf, n) | (buf, None) \<Rightarrow> (buf, 0))"

definition str2buf_dtype_int ::
  "cenv \<Rightarrow> u16 \<Rightarrow> string option \<Rightarrow> nat \<Rightarrow> (byte list option \<times> nat) outcome" where
  "str2buf_dtype_int env dtype str out_len =
     bind_outcome
       (if dtype = BOOLEAN then Ret (map_option bool_image (str2buf_bool env str), 1)
        else if dtype = INTERGER8 then Ret (map_option image (str2buf_int8 env str), 1)
        else if dtype = INTERGER16 then Ret (map_option image (str2buf_int16 env str), 2)
        else if dtype = INTERGER32 then Ret (map_option image (str2buf_int32 env str), 4)
        else if dtype = INTERGER64 then Ret (map_option image (str2buf_int64 env str), 8)
        else if dtype = UNSIGNED8 then Ret (map_option image (str2buf_uint8 env str), 1)
        else if dtype = UNSIGNED16 then Ret (map_option image (str2buf_uint16 env str), 2)
        else if dtype = UNSIGNED32 then Ret (map_option image (str2buf_uint32 env str), 4)
        else if dtype = UNSIGNED64 then Ret (map_option image (str2buf_uint64 env str), 8)
        else if dtype = REAL32 then Ret (map_option image (str2buf_float32 env str), 4)
        else if dtype = REAL64 then Ret (map_option image (str2buf_float64 env str), 8)
        else if dtype = VISIBLE_STRING then copy_string env str
        else if dtype = OCTET_STRING then Ret (bytes_with_len env str)
        else Ret (None, 0))
       (\<lambda>(buf, buf_len). Ret (buf, if buf \<noteq> None then buf_len else out_len))"

definition str2buf_dtype_str ::
  "cenv \<Rightarrow> string \<Rightarrow> string option \<Rightarrow> nat \<Rightarrow> (byte list option \<times> nat) outcome" where
  "str2buf_dtype_str env dtype str out_len =
     (let is = (\<lambda>name. strncmp_eq dtype name (length dtype)) in
      bind_outcome
       (if is ''bool'' then Ret (map_option bool_image (str2buf_bool env str), 1)
        else if is ''int8'' then Ret (map_option image (str2buf_int8 env str), 1)
        else if is ''int16'' then Ret (map_option image (str2buf_int16 env str), 2)
        else if is ''int32'' then Ret (map_option image (str2buf_int32 env str), 4)
        else if is ''int64'' then Ret (map_option image (str2buf_int64 env str), 8)
        else if is ''uint8'' then Ret (map_option image (str2buf_uint8 env str), 1)
        else if is ''uint16'' then Ret (map_option image (str2buf_uint16 env str), 2)
        else if is ''uint32'' then Ret (map_option image (str2buf_uint32 env str), 4)
        else if is ''uint64'' then Ret (map_option image (str2buf_uint64 env str), 8)
        else if is ''float32'' then Ret (map_option image (str2buf_float32 env str), 4)
        else if is ''float64'' then Ret (map_option image (str2buf_float64 env str), 8)
        else if is ''string'' then copy_string env str
        else if is ''bytes'' then Ret (bytes_with_len env str)
        else Ret (None, 0))
       (\<lambda>(buf, buf_len). Ret (buf, if buf \<noteq> None then buf_len else out_len)))"


section \<open>Printed numbers\<close>

text \<open>
  The specification side of the round trips: \<open>num_string\<close> prints a number in a base, with
  upper case digits above 9, and the two predicates name the texts a client writes for a number.
\<close>

definition digit_char :: "nat \<Rightarrow> char" where
  "digit_char d = char_of (if d < 10 then 48 + d else 55 + d)"

function num_string :: "nat \<Rightarrow> nat \<Rightarrow> string" where
  "num_string base n =
     (if base < 2 \<or> n < base then [digit_char n]
      else num_string base (n div base) @ [digit_char (n mod base)])"
  by pat_completeness auto
termination
  by (relation "measure snd") auto

declare num_string.simps [simp del]

definition unsigned_text :: "string \<Rightarrow> nat \<Rightarrow> bool" where
  "unsigned_text s n \<longleftrightarrow> s = num_string 10 n \<or> s = ''0x'' @ num_string 16 n"

definition signed_text :: "string \<Rightarrow> int \<Rightarrow> bool" where
  "signed_text s v \<longleftrightarrow>
     (if v < 0 then s = CHR ''-'' # num_string 10 (nat (- v)) else s = num_string 10 (nat v))"

lemma digit_val_digit_char: "d < 36 \<Longrightarrow> digit_val (digit_char d) = Some d"
  by (auto simp: digit_val_def digit_char_def Let_def)

lemma is_digit_digit_char [simp]: "d < base \<Longrightarrow> base \<le> 36 \<Longrightarrow> is_digit base (digit_char d)"
  by (simp add: is_digit_def digit_val_digit_char)

lemma digits_acc_append:
  "digits_acc base acc (xs @ ys) = digits_acc base (digits_acc base acc xs) ys"
  by (induction xs arbitrary: acc) auto

lemma num_string_not_Nil [simp]: "num_string base n \<noteq> []"
  by (subst num_string.simps) simp

lemma num_string_digits:
  "2 \<le> base \<Longrightarrow> base \<le> 36 \<Longrightarrow> \<forall>c \<in> set (num_string base n). is_digit base c"
proof (induction base n rule: num_string.induct)
  case (1 base n)
  then show ?case by (subst num_string.simps) (cases "n < base", auto)
qed

lemma digits_acc_num_string:
  "2 \<le> base \<Longrightarrow> base \<le> 36 \<Longrightarrow> digits_acc base 0 (num_string base n) = n"
proof (induction base n rule: num_string.induct)
  case (1 base n)
  then have "digit_val (digit_char (n mod base)) = Some (n mod base)"
    by (intro digit_val_digit_char) (meson less_le_trans mod_less_divisor zero_less_numeral)
  with "1" show ?case
    by (subst num_string.simps)
      (cases "n < base", auto simp: digits_acc_append digit_val_digit_char)
qed

lemma is_digit_char:
  assumes "is_digit base c"
  shows "\<not> isspace_c c" and "c \<noteq> CHR ''-''" and "c \<noteq> CHR ''+''" and "c \<noteq> nul"
  using assms
  by (auto simp: is_digit_def digit_val_def isspace_c_def Let_def nul_def split: if_splits)

lemma not_digit_x: "base \<le> 16 \<Longrightarrow> is_digit base c \<Longrightarrow> c \<noteq> CHR ''x''"
  by (auto simp: is_digit_def digit_val_def Let_def split: if_splits)

lemma strto_scan_digits:
  assumes "ds \<noteq> []" and "\<forall>c \<in> set ds. is_digit base c" and "base \<noteq> 16"
  shows "strto_scan ds base = (False, digits_acc base 0 ds, length ds)"
proof -
  obtain c r where ds: "ds = c # r" using assms(1) by (cases ds) auto
  have "\<not> isspace_c c" "c \<noteq> CHR ''-''" "c \<noteq> CHR ''+''"
    using is_digit_char [of base c] assms(2) ds by auto
  then show ?thesis
    using assms(2,3) by (simp add: strto_scan_def skip_sign_def skip_0x_def ds Let_def)
qed

lemma strto_scan_minus:
  assumes "ds \<noteq> []" and "\<forall>c \<in> set ds. is_digit 10 c"
  shows "strto_scan (CHR ''-'' # ds) 10 = (True, digits_acc 10 0 ds, Suc (length ds))"
proof -
  have "\<not> isspace_c (CHR ''-'')" by (simp add: isspace_c_def)
  then show ?thesis
    using assms by (simp add: strto_scan_def skip_sign_def skip_0x_def Let_def)
qed

lemma strto_scan_0x:
  assumes "ds \<noteq> []" and "\<forall>c \<in> set ds. is_digit 16 c"
  shows "strto_scan (''0x'' @ ds) 16 = (False, digits_acc 16 0 ds, length ds + 2)"
proof -
  obtain c r where ds: "ds = c # r" using assms(1) by (cases ds) auto
  have "\<not> isspace_c (CHR ''0'')" by (simp add: isspace_c_def)
  then show ?thesis
    using assms(2) by (simp add: strto_scan_def skip_sign_def skip_0x_def ds Let_def)
qed

lemma get_str_base_digits:
  assumes "\<forall>c \<in> set ds. is_digit 10 c"
  shows "get_str_base ds = 10" and "get_str_base (CHR ''-'' # ds) = 10"
proof -
  have "ds ! 1 \<noteq> CHR ''x''" if "3 \<le> length ds"
    using assms that not_digit_x [of 10 "ds ! 1"] by (auto dest: nth_mem [of 1])
  then show "get_str_base ds = 10" by (auto simp: get_str_base_def)
  show "get_str_base (CHR ''-'' # ds) = 10" by (simp add: get_str_base_def)
qed

lemma num_string_0x_length: "3 \<le> length (''0x'' @ num_string b n)"
  by (cases "num_string b n") auto

lemma unsigned_text_scan:
  assumes "unsigned_text s n"
  shows "s \<noteq> []" and "hd s \<noteq> CHR ''-''"
    and "\<exists>k > 0. strto_scan s (get_str_base s) = (False, n, k)"
proof -
  have d10: "\<forall>c \<in> set (num_string 10 n). is_digit 10 c"
    and d16: "\<forall>c \<in> set (num_string 16 n). is_digit 16 c" by (simp_all add: num_string_digits)
  have b16: "get_str_base (''0x'' @ num_string 16 n) = 16"
    using num_string_0x_length [of 16 n] by (simp add: get_str_base_def)
  show "s \<noteq> []" using assms num_string_not_Nil [of 10 n] by (auto simp: unsigned_text_def simp del: num_string_not_Nil)
  have "is_digit 10 (hd (num_string 10 n))" using d10 hd_in_set [OF num_string_not_Nil] by blast
  then have "hd (num_string 10 n) \<noteq> CHR ''-''" by (rule is_digit_char)
  then show "hd s \<noteq> CHR ''-''" using assms by (auto simp: unsigned_text_def)
  show "\<exists>k > 0. strto_scan s (get_str_base s) = (False, n, k)"
  proof (cases "s = num_string 10 n")
    case True
    then show ?thesis
      using strto_scan_digits [OF _ d10] by (simp add: get_str_base_digits [OF d10] digits_acc_num_string)
  next
    case False
    with assms have s: "s = ''0x'' @ num_string 16 n" by (simp add: unsigned_text_def)
    show ?thesis
      unfolding s b16 strto_scan_0x [OF num_string_not_Nil d16] by (simp add: digits_acc_num_string)
  qed
qed

lemma signed_text_scan:
  assumes "signed_text s v"
  shows "s \<noteq> []" and "\<exists>k > 0. strto_scan s (get_str_base s) = (v < 0, nat \<bar>v\<bar>, k)"
proof -
  let ?m = "nat \<bar>v\<bar>"
  have d10: "\<forall>c \<in> set (num_string 10 ?m). is_digit 10 c" by (simp add: num_string_digits)
  show "s \<noteq> []" using assms by (auto simp: signed_text_def split: if_splits)
  show "\<exists>k > 0. strto_scan s (get_str_base s) = (v < 0, ?m, k)"
  proof (cases "v < 0")
    case True
    with assms have s: "s = CHR ''-'' # num_string 10 ?m" by (simp add: signed_text_def)
    show ?thesis
      unfolding s get_str_base_digits(2) [OF d10] strto_scan_minus [OF num_string_not_Nil d10]
      using True by (simp add: digits_acc_num_string)
  next
    case False
    with assms have s: "s = num_string 10 ?m" by (simp add: signed_text_def)
    show ?thesis
      unfolding s get_str_base_digits(1) [OF d10]
      using False strto_scan_digits [OF num_string_not_Nil d10] by (simp add: digits_acc_num_string)
  qed
qed

lemma strtoul_unsigned_text:
  "unsigned_text s n \<Longrightarrow> \<exists>k > 0. strtoul w s (get_str_base s) = (if n < 2 ^ w then n else 2 ^ w - 1, k)"
  using unsigned_text_scan(3) [of s n] by (auto simp: strtoul_def)

lemma strtol_signed_text:
  "signed_text s v \<Longrightarrow>
     \<exists>k > 0. strtol w s (get_str_base s) = (max (- (2 ^ (w - 1))) (min (2 ^ (w - 1) - 1) v), k)"
  using signed_text_scan(2) [of s v] by (auto simp: strtol_def)

lemma long_bound:
  assumes "32 \<le> w"
  shows "(2 ^ 32 :: nat) \<le> 2 ^ w" and "(2 ^ 31 :: int) \<le> 2 ^ (w - 1)"
proof -
  show "(2 ^ 32 :: nat) \<le> 2 ^ w" using assms by (rule power_increasing) simp
  show "(2 ^ 31 :: int) \<le> 2 ^ (w - 1)" using assms by (intro power_increasing) auto
qed


section \<open>Correctness of the conversions\<close>

text \<open>
  C26: printing an unsigned number in decimal or as \<^verbatim>\<open>0x\<close> hexadecimal and converting it back is the
  identity within the width of the type, and the 8 and 16 bit conversions refuse everything
  beyond their range. The 32 bit conversion has no range check of its own: beyond the width of
  \<^verbatim>\<open>unsigned long\<close> it saturates, and a value between \<open>2 ^ 32\<close> and that width is reduced modulo
  \<open>2 ^ 32\<close>.
\<close>

theorem str2buf_unsigned_roundtrip:
  assumes "unsigned_text s n" and "32 \<le> long_bits env" and "malloc_ok env = (\<lambda>_. True)"
  shows "str2buf_uint8 env (Some s) = (if n < 2 ^ 8 then Some (of_nat n) else None)
    \<and> str2buf_uint16 env (Some s) = (if n < 2 ^ 16 then Some (of_nat n) else None)
    \<and> str2buf_uint32 env (Some s)
        = Some (of_nat (if n < 2 ^ long_bits env then n else 2 ^ long_bits env - 1))
    \<and> str2buf_uint64 env (Some s) = Some (of_nat (if n < 2 ^ 64 then n else 2 ^ 64 - 1))"
proof -
  note ne = unsigned_text_scan(1,2) [OF assms(1)]
  obtain k where k: "0 < k" "strtoul (long_bits env) s (get_str_base s)
      = (if n < 2 ^ long_bits env then n else 2 ^ long_bits env - 1, k)"
    using strtoul_unsigned_text [OF assms(1)] by blast
  obtain j where j: "0 < j" "strtoul 64 s (get_str_base s) = (if n < 2 ^ 64 then n else 2 ^ 64 - 1, j)"
    using strtoul_unsigned_text [OF assms(1)] by blast
  have big: "4294967296 \<le> (2 ^ long_bits env :: nat)" using long_bound(1) [OF assms(2)] by simp
  have u8: "str2buf_uint8 env (Some s) = (if n < 2 ^ 8 then Some (of_nat n) else None)"
    using ne k assms(3) big by (auto simp: str2buf_uint8_def)
  have u16: "str2buf_uint16 env (Some s) = (if n < 2 ^ 16 then Some (of_nat n) else None)"
    using ne k assms(3) big by (auto simp: str2buf_uint16_def)
  show ?thesis
    using u8 u16 ne k j assms(3) by (simp add: str2buf_uint32_def str2buf_uint64_def)
qed

theorem str2buf_unsigned_roundtrip_witness:
  "str2buf_uint8 \<lparr>long_bits = 64, malloc_ok = (\<lambda>_. True), strtof_c = (\<lambda>s. (0, 0))\<rparr> (Some ''0xFF'') = Some 255"
proof -
  have "unsigned_text ''0xFF'' 255"
    by code_simp
  from str2buf_unsigned_roundtrip [OF this, of "\<lparr>long_bits = 64, malloc_ok = (\<lambda>_. True), strtof_c = (\<lambda>s. (0, 0))\<rparr>"]
  show ?thesis by simp
qed

text \<open>
  The same for signed numbers: the 8 and 16 bit conversions accept exactly the values of
  their type and return them, the 64 bit one saturates; the 32 bit one takes whatever
  \<^verbatim>\<open>strtol\<close> returns and keeps the low 32 bits.
\<close>

lemma str2buf_signed_roundtrip:
  assumes "signed_text s v" and "32 \<le> long_bits env" and "malloc_ok env = (\<lambda>_. True)"
  shows "str2buf_int8 env (Some s) = (if - (2 ^ 7) \<le> v \<and> v < 2 ^ 7 then Some (of_int v) else None)
    \<and> str2buf_int16 env (Some s) = (if - (2 ^ 15) \<le> v \<and> v < 2 ^ 15 then Some (of_int v) else None)
    \<and> str2buf_int32 env (Some s)
        = Some (of_int (max (- (2 ^ (long_bits env - 1))) (min (2 ^ (long_bits env - 1) - 1) v)))
    \<and> str2buf_int64 env (Some s) = Some (of_int (max (- (2 ^ 63)) (min (2 ^ 63 - 1) v)))"
proof -
  note ne = signed_text_scan(1) [OF assms(1)]
  define b where "b = (2 ^ (long_bits env - 1) :: int)"
  obtain k where k: "0 < k" "strtol (long_bits env) s (get_str_base s) = (max (- b) (min (b - 1) v), k)"
    using strtol_signed_text [OF assms(1)] unfolding b_def by blast
  obtain j where j: "0 < j" "strtol 64 s (get_str_base s) = (max (- (2 ^ 63)) (min (2 ^ 63 - 1) v), j)"
    using strtol_signed_text [OF assms(1), of 64] by auto
  have big: "2147483648 \<le> b" using long_bound(2) [OF assms(2)] by (simp add: b_def)
  have i8: "str2buf_int8 env (Some s) = (if - (2 ^ 7) \<le> v \<and> v < 2 ^ 7 then Some (of_int v) else None)"
    using ne k assms(3) big by (auto simp: str2buf_int8_def max_def min_def)
  have i16: "str2buf_int16 env (Some s) = (if - (2 ^ 15) \<le> v \<and> v < 2 ^ 15 then Some (of_int v) else None)"
    using ne k assms(3) big by (auto simp: str2buf_int16_def max_def min_def)
  show ?thesis
    unfolding b_def [symmetric]
    using i8 i16 ne k j assms(3) by (simp add: str2buf_int32_def str2buf_int64_def)
qed

lemma str2buf_signed_roundtrip_witness:
  "str2buf_int8 \<lparr>long_bits = 32, malloc_ok = (\<lambda>_. True), strtof_c = (\<lambda>s. (0, 0))\<rparr> (Some ''-128'') = Some (- 128)"
proof -
  have "signed_text ''-128'' (-128)"
    by code_simp
  from str2buf_signed_roundtrip [OF this, of "\<lparr>long_bits = 32, malloc_ok = (\<lambda>_. True), strtof_c = (\<lambda>s. (0, 0))\<rparr>"]
  show ?thesis by simp
qed

text \<open>
  \<^verbatim>\<open>str2buf_bool\<close> compares only as many characters as the text has, so it accepts exactly the
  non-empty prefixes of its four keywords, and nothing longer.
\<close>

lemma str2buf_bool_accepts_prefixes:
  assumes "is_cstr s" and "malloc_ok env 1"
  shows "str2buf_bool env (Some s) =
    (if s = [] then None
     else if prefix s ''true'' \<or> s = ''1'' then Some True
     else if prefix s ''false'' \<or> s = ''0'' then Some False
     else None)"
proof -
  have one: "prefix s [c] \<longleftrightarrow> s = [c]" if "s \<noteq> []" for c
    using that by (cases s) auto
  show ?thesis
    using assms one by (cases "s = []") (simp_all add: str2buf_bool_def strncmp_eq_prefix)
qed

lemma str2buf_bool_accepts_prefixes_witness:
  "str2buf_bool \<lparr>long_bits = 32, malloc_ok = (\<lambda>_. True), strtof_c = (\<lambda>s. (0, 0))\<rparr> (Some ''tr'') = Some True"
proof -
  let ?env = "\<lparr>long_bits = 32, malloc_ok = (\<lambda>_. True), strtof_c = (\<lambda>s. (0, 0))\<rparr>"
  have "is_cstr ''tr''" by (simp add: nul_def)
  then show ?thesis using str2buf_bool_accepts_prefixes [of "''tr''" ?env] by simp
qed


definition hex_text :: "byte list \<Rightarrow> string" where
  "hex_text bs = concat (map (\<lambda>b. [digit_char (unat b div 16), digit_char (unat b mod 16)]) bs)"

lemma length_hex_text [simp]: "length (hex_text bs) = 2 * length bs"
  by (induction bs) (auto simp: hex_text_def)

lemma length_hex_pairs: "even (length s) \<Longrightarrow> length (hex_pairs env s) = length s div 2"
  by (induction env s rule: hex_pairs.induct) auto

lemma strto_scan_two_hex:
  assumes "h < 16" and "l < 16"
  shows "strto_scan [digit_char h, digit_char l] 16 = (False, h * 16 + l, 2)"
proof -
  have d: "is_digit 16 (digit_char h)" "is_digit 16 (digit_char l)" using assms by simp_all
  have "digit_val (digit_char h) = Some h" "digit_val (digit_char l) = Some l"
    using assms by (simp_all add: digit_val_digit_char)
  with d is_digit_char [OF d(1)] show ?thesis
    by (simp add: strto_scan_def skip_sign_def skip_0x_def Let_def)
qed

lemma hex_pairs_hex_text:
  assumes "32 \<le> long_bits env"
  shows "hex_pairs env (hex_text bs) = bs"
proof (induction bs)
  case (Cons b bs)
  have lt: "unat b < 2 ^ long_bits env"
    using long_bound(1) [OF assms] unat_byte_less [of b] by (simp del: unat_byte_less)
  have "unat b div 16 * 16 + unat b mod 16 = unat b" by simp
  moreover have "unat b div 16 < 16" using unat_byte_less [of b] by (simp add: less_mult_imp_div_less)
  ultimately have "fst (strtoul (long_bits env) [digit_char (unat b div 16), digit_char (unat b mod 16)] 16) = unat b"
    using lt strto_scan_two_hex [of "unat b div 16" "unat b mod 16"] by (simp add: strtoul_def)
  with Cons show ?case by (simp add: hex_text_def)
qed (simp add: hex_text_def)

text \<open>
  \<^verbatim>\<open>str2buf_bytes\<close> inverts hexadecimal printing of any non-empty byte string and reports its length.
\<close>

lemma str2buf_bytes_roundtrip:
  assumes "bs \<noteq> []" and "32 \<le> long_bits env" and "malloc_ok env (length bs)"
  shows "str2buf_bytes env (Some (hex_text bs)) (Some l) = (Some bs, Some (length bs))"
proof -
  have "hex_text bs \<noteq> []" using assms(1) length_hex_text [of bs] by fastforce
  with assms hex_pairs_hex_text [OF assms(2)] show ?thesis by (simp add: str2buf_bytes_def)
qed

lemma str2buf_bytes_roundtrip_witness:
  "str2buf_bytes \<lparr>long_bits = 32, malloc_ok = (\<lambda>_. True), strtof_c = (\<lambda>s. (0, 0))\<rparr>
     (Some ''012345'') (Some 0) = (Some [0x01, 0x23, 0x45], Some 3)"
proof -
  let ?env = "\<lparr>long_bits = 32, malloc_ok = (\<lambda>_. True), strtof_c = (\<lambda>s. (0, 0))\<rparr>"
  have "hex_text [0x01, 0x23, 0x45] = ''012345''" by code_simp
  then show ?thesis using str2buf_bytes_roundtrip [of "[0x01, 0x23, 0x45]" ?env 0] by simp
qed

text \<open>
  \<^verbatim>\<open>str2buf_bytes\<close> converts every non-empty text of even length, hexadecimal or not: the test
  meant to reject other characters compares pointers into different objects. Half as many bytes
  as characters come out.
\<close>

lemma str2buf_bytes_never_rejects:
  assumes "s \<noteq> []" and "even (length s)" and "malloc_ok env (length s div 2)"
  shows "\<exists>bs. str2buf_bytes env (Some s) (Some l) = (Some bs, Some (length bs)) \<and> 2 * length bs = length s"
  using assms by (simp add: str2buf_bytes_def length_hex_pairs)

lemma str2buf_bytes_never_rejects_witness:
  "\<exists>bs. str2buf_bytes \<lparr>long_bits = 32, malloc_ok = (\<lambda>_. True), strtof_c = (\<lambda>s. (0, 0))\<rparr>
     (Some ''zz'') (Some 0) = (Some bs, Some (length bs)) \<and> 2 * length bs = length ''zz''"
  using str2buf_bytes_never_rejects [of "''zz''"
      "\<lparr>long_bits = 32, malloc_ok = (\<lambda>_. True), strtof_c = (\<lambda>s. (0, 0))\<rparr>" 0] by simp

section \<open>Correctness of the dispatchers\<close>

definition dtype_size :: "u16 \<Rightarrow> nat option" where
  "dtype_size d =
     (if d \<in> {BOOLEAN, INTERGER8, UNSIGNED8} then Some 1
      else if d \<in> {INTERGER16, UNSIGNED16} then Some 2
      else if d \<in> {INTERGER32, UNSIGNED32, REAL32} then Some 4
      else if d \<in> {INTERGER64, UNSIGNED64, REAL64} then Some 8
      else None)"

lemma length_image [simp]: "length (image (x :: 'w::len word)) = LENGTH('w) div 8"
  by (simp add: image_def)

lemma length_bool_image [simp]: "length (bool_image b) = 1"
  by (simp add: bool_image_def)

lemma bytes_with_len_Some:
  "bytes_with_len env str = (Some buf, n) \<Longrightarrow> length buf = n"
  by (auto simp: bytes_with_len_def str2buf_bytes_def length_hex_pairs split: option.splits if_splits)

text \<open>
  A buffer that \<^verbatim>\<open>str2buf_dtype_int\<close> returns has the size of its data type, and the reported
  length is the length of the buffer, except for strings, whose buffer carries one more byte,
  the terminator. Nothing is returned for a data type outside the table (\<^verbatim>\<open>DOMAIN\<close> included), and
  the reported length is then left alone.
\<close>

lemma str2buf_dtype_int_length:
  assumes "str2buf_dtype_int env d str n = Ret (r, m)"
  shows "(case r of
      None \<Rightarrow> m = n
    | Some buf \<Rightarrow>
        (case dtype_size d of
           Some k \<Rightarrow> m = k \<and> length buf = k
         | None \<Rightarrow> d = VISIBLE_STRING \<and> length buf = m + 1 \<and> last buf = 0
                 \<or> d = OCTET_STRING \<and> length buf = m))"
proof (cases r)
  case None
  then show ?thesis using assms by (auto simp: str2buf_dtype_int_def bind_outcome_Ret_iff split: if_splits)
next
  case (Some buf)
  show ?thesis
  proof (cases "d = VISIBLE_STRING \<or> d = OCTET_STRING")
    case True
    then show ?thesis using assms Some
      by (auto simp: str2buf_dtype_int_def bind_outcome_Ret_iff copy_string_def dtype_size_def dtype_defs
          bytes_with_len_Some split: option.splits if_splits)
  next
    case False
    then show ?thesis using assms Some
      by (auto simp: str2buf_dtype_int_def bind_outcome_Ret_iff dtype_size_def dtype_defs split: if_splits)
  qed
qed

lemma str2buf_dtype_int_length_witness:
  "str2buf_dtype_int \<lparr>long_bits = 32, malloc_ok = (\<lambda>_. True), strtof_c = (\<lambda>s. (0, 0))\<rparr> BOOLEAN
     (Some ''true'') 0 = Ret (Some [1], 1) \<and> dtype_size BOOLEAN = Some 1"
proof -
  let ?env = "\<lparr>long_bits = 32, malloc_ok = (\<lambda>_. True), strtof_c = (\<lambda>s. (0, 0))\<rparr>"
  have *: "str2buf_dtype_int ?env BOOLEAN (Some ''true'') 0 = Ret (Some [1], 1)"
    by (simp add: str2buf_dtype_int_def str2buf_bool_def strncmp_eq_def bool_image_def)
  from str2buf_dtype_int_length [OF *] * show ?thesis by (simp add: dtype_size_def)
qed

text \<open>The type names of the command line tools, with the codes they stand for.\<close>

definition dtype_table :: "(string \<times> u16) list" where
  "dtype_table =
     [(''bool'', BOOLEAN), (''int8'', INTERGER8), (''int16'', INTERGER16), (''int32'', INTERGER32),
      (''int64'', INTERGER64), (''uint8'', UNSIGNED8), (''uint16'', UNSIGNED16),
      (''uint32'', UNSIGNED32), (''uint64'', UNSIGNED64), (''float32'', REAL32),
      (''float64'', REAL64), (''string'', VISIBLE_STRING), (''bytes'', OCTET_STRING)]"

lemma dtype_names_prefix_free:
  "\<forall>x \<in> set (map fst dtype_table). \<forall>y \<in> set (map fst dtype_table). strncmp_eq x y (length x) = (x = y)"
  by code_simp

text \<open>
  C28: the two dispatchers agree: converting by the name of a data type is converting by its code.
\<close>

theorem str2buf_dtype_str_eq_int:
  assumes "(name, d) \<in> set dtype_table"
  shows "str2buf_dtype_str env name str n = str2buf_dtype_int env d str n"
proof -
  have "name \<in> set (map fst dtype_table)" using assms by force
  then have eq: "\<forall>y \<in> set (map fst dtype_table). strncmp_eq name y (length name) = (name = y)"
    using dtype_names_prefix_free by blast
  note names = eq [unfolded dtype_table_def, simplified]
  have "(name, d) \<in> set dtype_table \<Longrightarrow> ?thesis"
    unfolding str2buf_dtype_str_def str2buf_dtype_int_def dtype_table_def Let_def
    by (simp only: names list.set insert_iff empty_iff prod.inject) (elim disjE conjE; simp add: dtype_defs)
  with assms show ?thesis by blast
qed

theorem str2buf_dtype_str_eq_int_witness:
  "str2buf_dtype_str \<lparr>long_bits = 32, malloc_ok = (\<lambda>_. True), strtof_c = (\<lambda>s. (0, 0))\<rparr> ''int16'' (Some ''-2'') 0
   = str2buf_dtype_int \<lparr>long_bits = 32, malloc_ok = (\<lambda>_. True), strtof_c = (\<lambda>s. (0, 0))\<rparr> INTERGER16 (Some ''-2'') 0"
  by (rule str2buf_dtype_str_eq_int) (simp add: dtype_table_def)

end
