(* ===== verification/Load_Configs.thy ===== *)
theory Load_Configs
  imports Str2buf Filesystem
begin

unbundle bit_operations_syntax

text \<open>
  Model of \<^verbatim>\<open>src/load_configs.c\<close>: the settings of the node, and the object dictionary of a card, which is read from a table
  and merged with the dictionary built into the daemon. Structures of the CANopen stack that the loader builds are records with the stack's member
  names; memory that nobody has written is a value of its own.
\<close>

section \<open>Lines and numbers\<close>

definition newline :: char where "newline = CHR 0x0A"

text \<open>The lines \<^verbatim>\<open>getline\<close> delivers, each with its newline, which the last one may lack.\<close>

fun getlines :: "string \<Rightarrow> string list" where
  "getlines [] = []"
| "getlines (c # cs) =
     (if c = newline then [c] # getlines cs
      else case getlines cs of [] \<Rightarrow> [[c]] | l # ls \<Rightarrow> (c # l) # ls)"

text \<open>The tokens \<^verbatim>\<open>strsep(&line, ",")\<close> delivers.\<close>

fun split_comma :: "string \<Rightarrow> string list" where
  "split_comma [] = [[]]"
| "split_comma (c # cs) =
     (if c = CHR '','' then [] # split_comma cs
      else case split_comma cs of [] \<Rightarrow> [[c]] | w # ws \<Rightarrow> (c # w) # ws)"

text \<open>
  \<^verbatim>\<open>sscanf\<close> with \<^verbatim>\<open>%d\<close> and with \<^verbatim>\<open>%x\<close>: \<open>None\<close> when nothing is converted. A number the target cannot hold is undefined
  behaviour. After a prefix \<^verbatim>\<open>0x\<close> there has to be a digit, since the scanner cannot give back two characters.
\<close>

definition sscanf_d :: "string \<Rightarrow> int option outcome" where
  "sscanf_d s =
     (case strto_scan s 10 of (neg, m, n) \<Rightarrow>
        let v = (if neg then - int m else int m) in
        if n = 0 then Ret None
        else if v < - (2 ^ 31) \<or> 2 ^ 31 - 1 < v then Fault Signed_overflow else Ret (Some v))"

definition sscanf_x :: "string \<Rightarrow> u32 option outcome" where
  "sscanf_x s =
     (let ds = takeWhile (is_digit 16) (drop 2 s) in
      if ds = [] then Ret None
      else if 2 ^ 32 \<le> digits_acc 16 0 ds then Fault Signed_overflow else Ret (Some (of_nat (digits_acc 16 0 ds))))"

text \<open>
  \<open>parse_int_key str value\<close> is what the caller's variable holds afterwards: its old value when there is no number. The
  unsigned number of the hexadecimal form is stored in an \<^verbatim>\<open>int\<close>.
\<close>

definition parse_int_key :: "string \<Rightarrow> int \<Rightarrow> int outcome" where
  "parse_int_key str value =
     (if 2 \<le> length str \<and> str ! 0 = CHR ''0'' \<and> str ! 1 = CHR ''x''
      then bind_outcome (sscanf_x str) (\<lambda>r. Ret (case r of None \<Rightarrow> value | Some utmp \<Rightarrow> sint utmp))
      else bind_outcome (sscanf_d str) (\<lambda>r. Ret (case r of None \<Rightarrow> value | Some tmp \<Rightarrow> tmp)))"

section \<open>Settings of the node\<close>

text \<open>Where the files are: the user's identity and the expansion of \<^verbatim>\<open>~\<close> by \<^verbatim>\<open>wordexp\<close> are parameters.\<close>

definition NODE_CONFIG_ROOT_PATH :: string where "NODE_CONFIG_ROOT_PATH = ''/etc/oresat/node.conf''"
definition NODE_CONFIG_HOME_PATH :: string where "NODE_CONFIG_HOME_PATH = ''~/.config/oresat/node.conf''"
definition OD_CONFIG_ROOT_PATH :: string where "OD_CONFIG_ROOT_PATH = ''/etc/oresat/od.csv''"
definition OD_CONFIG_HOME_PATH :: string where "OD_CONFIG_HOME_PATH = ''~/.config/oresat/od.csv''"

definition copy_path :: "string \<Rightarrow> char list \<Rightarrow> nat \<Rightarrow> (int \<times> char list) outcome" where
  "copy_path s path path_max =
     (if length s + 1 < path_max then bind_outcome (poke path 0 (s @ [nul])) (\<lambda>path'. Ret (0, path')) else Ret (-1, path))"

definition get_default_node_config_path ::
  "nat \<Rightarrow> (string \<Rightarrow> string) \<Rightarrow> char list \<Rightarrow> nat \<Rightarrow> (int \<times> char list) outcome" where
  "get_default_node_config_path uid wordexp path path_max =
     (if uid = 0 then copy_path NODE_CONFIG_ROOT_PATH path path_max
      else copy_path (wordexp NODE_CONFIG_HOME_PATH) path path_max)"

definition get_default_od_config_path ::
  "nat \<Rightarrow> (string \<Rightarrow> string) \<Rightarrow> char list \<Rightarrow> nat \<Rightarrow> (int \<times> char list) outcome" where
  "get_default_od_config_path uid wordexp path path_max =
     (if uid = 0 then copy_path OD_CONFIG_ROOT_PATH path path_max
      else copy_path (wordexp OD_CONFIG_HOME_PATH) path path_max)"

definition default_node_config :: string where
  "default_node_config =
     ''[Node]CanInterface=can0'' @ [newline] @ ''NodeId=0x7C'' @ [newline] @ ''NetworkManager=false'' @ [newline]"

definition make_node_config :: "string option \<Rightarrow> fsys \<Rightarrow> int \<times> fsys" where
  "make_node_config path fs = (case path of
       None \<Rightarrow> (- EINVAL, fs)
     | Some p \<Rightarrow>
         (case fs_create fs p of
            Inl e \<Rightarrow> (- e, fs)
          | Inr fs1 \<Rightarrow> (0, AList.update (resolve p) (File (bytes_of_string default_node_config)) fs1)))"

record node_settings =
  can_interface :: "char list"
  node_id :: byte
  network_manager :: bool

definition has_key :: "string \<Rightarrow> string \<Rightarrow> bool" where
  "has_key key line = strncmp_eq line key (length key)"

text \<open>
  One line. The copy of the interface's name leaves out the terminator and the newline becomes one. For the network manager the
  value of the line is copied over with \<^verbatim>\<open>"true"\<close>, and what is stored is whether the pointer that the copy returns is null.
\<close>

definition node_config_line :: "string \<Rightarrow> node_settings \<Rightarrow> node_settings outcome" where
  "node_config_line line st =
     (if has_key ''CanInterface='' line then
        let tmp = drop (length ''CanInterface='') line in
        bind_outcome (poke (can_interface st) 0 tmp) (\<lambda>ci.
        if tmp = [] then Fault Out_of_bounds
        else bind_outcome (poke ci (length tmp - 1) [nul]) (\<lambda>ci'. Ret (st\<lparr>can_interface := ci'\<rparr>)))
      else if has_key ''NodeId='' line then
        bind_outcome (parse_int_key (drop (length ''NodeId='') line) 0) (\<lambda>tmp. Ret (st\<lparr>node_id := of_int tmp\<rparr>))
      else if has_key ''NetworkManager='' line then Ret (st\<lparr>network_manager := True\<rparr>)
      else Ret st)"

fun node_config_lines :: "string list \<Rightarrow> node_settings \<Rightarrow> node_settings outcome" where
  "node_config_lines [] st = Ret st"
| "node_config_lines (line # lines) st = bind_outcome (node_config_line (cstr line) st) (node_config_lines lines)"

text \<open>From a directory nothing can be read.\<close>

definition text_of :: "node \<Rightarrow> string" where
  "text_of n = (case n of File d \<Rightarrow> string_of_bytes d | Dir \<Rightarrow> [])"

definition node_config_load :: "string option \<Rightarrow> fsys \<Rightarrow> node_settings \<Rightarrow> (int \<times> node_settings) outcome" where
  "node_config_load file_path fs st = (case file_path of
       None \<Rightarrow> Ret (- EINVAL, st)
     | Some p \<Rightarrow>
         (case fs_open_rd fs p of
            Inl e \<Rightarrow> Ret (- EINVAL, st)
          | Inr n \<Rightarrow> bind_outcome (node_config_lines (getlines (text_of n)) st) (\<lambda>st'. Ret (0, st'))))"

section \<open>The object dictionary in memory\<close>

text \<open>A pointer to a block of memory of its own: never written, null, or the block.\<close>

datatype ptr = Unset | Null | Block "byte list"

text \<open>
  The data of an array object: the values one behind the other, or one pointer for each element. The members are those of
  \<^verbatim>\<open>OD_obj_var_t\<close>, \<^verbatim>\<open>OD_obj_record_t\<close> and \<^verbatim>\<open>OD_obj_array_t\<close>; lengths are of type \<^verbatim>\<open>OD_size_t\<close>, which holds all that occur.
\<close>

datatype arr_block = Arr_null | Arr_values "byte list" | Arr_pointers "ptr list"

record od_var =
  var_data :: ptr
  var_length :: nat
  var_attribute :: byte

record od_rec = od_var +
  rec_subIndex :: byte

record od_arr =
  arr_data0 :: ptr
  arr_data :: arr_block
  arr_attribute0 :: byte
  arr_attribute :: byte
  arr_elementLength :: nat
  arr_elementSizeof :: nat

datatype od_object = Obj_null | Obj_var od_var | Obj_arr od_arr | Obj_rec "od_rec list"

datatype od_type = ODT_VAR | ODT_ARR | ODT_REC

datatype extension = Ext_unset | Ext_null | Ext_hook | Ext_os_command | Ext_scet | Ext_utc | Ext_fread | Ext_fwrite | Ext_system

record od_entry =
  entry_index :: u16
  entry_subCount :: byte
  entry_type :: "od_type option"
  entry_object :: od_object
  entry_extension :: extension

text \<open>
  What the loader depends on besides the C library: the sizes of the stack's structures, its attribute bits, and what fresh
  memory happens to hold.
\<close>

record ld_env = cenv +
  sizeof_entry :: nat
  sizeof_size :: nat
  sizeof_var :: nat
  sizeof_arr :: nat
  sizeof_rec :: nat
  sizeof_ptr :: nat
  sizeof_OD :: nat
  fresh_byte :: byte
  ODA_SDO_R :: byte
  ODA_SDO_W :: byte
  ODA_SDO_RW :: byte
  ODA_TRPDO :: byte
  ODA_MB :: byte
  ODA_STR :: byte

section \<open>One line of the table\<close>

definition VARIABLE :: int where "VARIABLE = 7"
definition ARRAY :: int where "ARRAY = 8"
definition RECORD :: int where "RECORD = 9"

definition OBJECTS_COMMENT :: string where "OBJECTS_COMMENT = '';objects=''"

record tmp_data =
  object_type :: int
  data_type :: int
  access_type :: "char list"
  tmp_index :: int
  tmp_subindex :: int
  total_subindexes :: int
  default_value :: "char list"

definition reset_tmp_data :: "tmp_data \<Rightarrow> tmp_data outcome" where
  "reset_tmp_data data =
     bind_outcome (poke (access_type data) 0 (''rw'' @ [nul])) (\<lambda>acc.
     bind_outcome (poke (default_value data) 0 [nul]) (\<lambda>dflt.
     Ret \<lparr>object_type = 0, data_type = 0, access_type = acc, tmp_index = 0, tmp_subindex = -1, total_subindexes = 0,
          default_value = dflt\<rparr>))"

text \<open>
  The fields by their number. The default of a variable loses its last character, which is meant to be the
  newline, and for an empty token the store before the array is out of its bounds.
\<close>

definition csv_field :: "nat \<Rightarrow> string \<Rightarrow> tmp_data \<Rightarrow> tmp_data outcome" where
  "csv_field count token data =
     (if count = 0 then
        bind_outcome (parse_int_key token (object_type data)) (\<lambda>v. Ret (data\<lparr>object_type := v\<rparr>))
      else if count = 1 then
        bind_outcome (parse_int_key token (tmp_index data)) (\<lambda>v. Ret (data\<lparr>tmp_index := v\<rparr>))
      else if count = 2 then
        (if object_type data = VARIABLE \<and> length token > 0
         then bind_outcome (parse_int_key token (tmp_subindex data)) (\<lambda>v. Ret (data\<lparr>tmp_subindex := v\<rparr>)) else Ret data)
      else if count = 3 then
        (if object_type data = VARIABLE
         then bind_outcome (poke (access_type data) 0 (token @ [nul])) (\<lambda>acc. Ret (data\<lparr>access_type := acc\<rparr>)) else Ret data)
      else if count = 4 then
        (if object_type data = VARIABLE
         then bind_outcome (parse_int_key token (data_type data)) (\<lambda>v. Ret (data\<lparr>data_type := v\<rparr>)) else Ret data)
      else
        (if object_type data = VARIABLE then
           (if token \<noteq> [] \<and> hd token = newline then Ret data
            else bind_outcome (poke (default_value data) 0 token) (\<lambda>dflt.
                 if token = [] then Fault Out_of_bounds
                 else bind_outcome (poke dflt (length token - 1) [nul]) (\<lambda>dflt'. Ret (data\<lparr>default_value := dflt'\<rparr>))))
         else bind_outcome (parse_int_key token (total_subindexes data)) (\<lambda>v. Ret (data\<lparr>total_subindexes := v\<rparr>))))"

fun csv_fields :: "nat \<Rightarrow> string list \<Rightarrow> tmp_data \<Rightarrow> tmp_data outcome" where
  "csv_fields count [] data = Ret data"
| "csv_fields count (token # tokens) data =
     (if count < 6 then bind_outcome (csv_field count token data) (csv_fields (Suc count) tokens) else Ret data)"

section \<open>Values\<close>

definition strncpy :: "char list \<Rightarrow> string \<Rightarrow> nat \<Rightarrow> char list outcome" where
  "strncpy dst src n = poke dst 0 (take n (src @ replicate n nul))"

text \<open>
  The access rights: each test calls \<^verbatim>\<open>strncpy\<close>, which overwrites the text and returns it, so that no test succeeds. The result
  is the attribute and the text that is left.
\<close>

definition get_access_attr :: "('x ld_env_scheme) \<Rightarrow> char list \<Rightarrow> (byte \<times> char list) outcome" where
  "get_access_attr env acc =
     bind_outcome (read_cstr acc) (\<lambda>s.
     bind_outcome (strncpy acc ''ro'' (length s)) (\<lambda>acc1.
     bind_outcome (read_cstr acc1) (\<lambda>s1.
     bind_outcome (strncpy acc1 ''const'' (length s1)) (\<lambda>acc2.
     bind_outcome (read_cstr acc2) (\<lambda>s2.
     bind_outcome (strncpy acc2 ''wo'' (length s2)) (\<lambda>acc3.
     Ret (ODA_SDO_RW env, acc3)))))))"

definition ptr_of :: "byte list option \<Rightarrow> ptr" where
  "ptr_of b = (case b of None \<Rightarrow> Null | Some d \<Rightarrow> Block d)"

text \<open>The types of a fixed size: the bytes of the value, if there is one, its length and its attribute bits.\<close>

definition numeric_value :: "'x ld_env_scheme \<Rightarrow> int \<Rightarrow> string \<Rightarrow> (byte list option \<times> nat \<times> byte) option" where
  "numeric_value env t s =
     (let ce = cenv.truncate env; one = ODA_TRPDO env; more = ODA_MB env OR ODA_TRPDO env
      in if t = uint BOOLEAN then Some (map_option bool_image (str2buf_bool ce (Some s)), 1, one)
         else if t = uint INTERGER8 then Some (map_option image (str2buf_int8 ce (Some s)), 1, one)
         else if t = uint UNSIGNED8 then Some (map_option image (str2buf_uint8 ce (Some s)), 1, one)
         else if t = uint INTERGER16 then Some (map_option image (str2buf_int16 ce (Some s)), 2, more)
         else if t = uint UNSIGNED16 then Some (map_option image (str2buf_uint16 ce (Some s)), 2, more)
         else if t = uint INTERGER32 then Some (map_option image (str2buf_int32 ce (Some s)), 4, more)
         else if t = uint UNSIGNED32 then Some (map_option image (str2buf_uint32 ce (Some s)), 4, more)
         else if t = uint REAL32 then Some (map_option image (str2buf_float32 ce (Some s)), 4, more)
         else if t = uint INTERGER64 then Some (map_option image (str2buf_int64 ce (Some s)), 8, more)
         else if t = uint UNSIGNED64 then Some (map_option image (str2buf_uint64 ce (Some s)), 8, more)
         else if t = uint REAL64 then Some (map_option image (str2buf_float64 ce (Some s)), 8, more)
         else None)"

text \<open>
  The switch of \<^verbatim>\<open>fill_var\<close> over the type: the value, its length, the attribute bits and the text of the default; \<open>None\<close> for an unknown type.
  For an octet string the text of the default is overwritten before it is converted.
\<close>

definition fill_var_value :: "'x ld_env_scheme \<Rightarrow> tmp_data \<Rightarrow> string \<Rightarrow> (ptr \<times> nat \<times> byte \<times> char list) option outcome" where
  "fill_var_value env data s =
     (let t = data_type data; dv = default_value data in
      case numeric_value env t s of
        Some (v, n, bits) \<Rightarrow> Ret (Some (ptr_of v, n, bits, dv))
      | None \<Rightarrow>
          if t = uint VISIBLE_STRING then
            (if s = [] then Ret (Some (Null, 0, ODA_STR env, dv))
             else if malloc_ok env (length s + 1) then Ret (Some (Block (bytes_of_string s @ [0]), length s + 1, ODA_STR env, dv))
             else Fault Null_pointer)
          else if t = uint OCTET_STRING then
            bind_outcome (strncpy dv ''0'' (length s + 1)) (\<lambda>dv'.
            bind_outcome (read_cstr dv') (\<lambda>s'.
            case str2buf_bytes (cenv.truncate env) (Some s') (Some 0) of (b, len) \<Rightarrow>
              Ret (Some (ptr_of b, (case len of None \<Rightarrow> 0 | Some n \<Rightarrow> n), ODA_STR env, dv'))))
          else if t = uint DOMAIN then Ret (Some (Null, 0, ODA_MB env, dv))
          else Ret None)"

definition is_text_type :: "int \<Rightarrow> bool" where
  "is_text_type t \<longleftrightarrow> t = uint DOMAIN \<or> t = uint OCTET_STRING \<or> t = uint VISIBLE_STRING"

text \<open>
  \<^verbatim>\<open>fill_var\<close>: the result is the return code, the value, its length, the attribute with the new bits, and the text
  that the call leaves. When the code is negative the length is not stored.
\<close>

definition fill_var :: "'x ld_env_scheme \<Rightarrow> tmp_data \<Rightarrow> ptr \<Rightarrow> byte \<Rightarrow> (int \<times> ptr \<times> nat \<times> byte \<times> tmp_data) outcome" where
  "fill_var env data value attribute =
     bind_outcome (read_cstr (default_value data)) (\<lambda>s.
     bind_outcome (fill_var_value env data s) (\<lambda>r.
     case r of
       None \<Rightarrow> Ret (-1, value, 0, attribute, data)
     | Some (v, n, bits, dv) \<Rightarrow>
         let data1 = data\<lparr>default_value := dv\<rparr>; attribute1 = attribute OR bits;
             v1 = (if \<not> is_text_type (data_type data) \<and> s = [] then (if malloc_ok env n then Block (replicate n 0) else Null) else v)
         in if \<not> is_text_type (data_type data) \<and> v1 = Null then Ret (-1, v1, 0, attribute1, data1)
            else bind_outcome (get_access_attr env (access_type data1)) (\<lambda>(a, acc).
                 Ret (0, v1, n, attribute1 OR a, data1\<lparr>access_type := acc\<rparr>))))"

section \<open>Entries\<close>

text \<open>
  The memory cell of an entry is \<open>None\<close> while nobody has written it. The extension pointer of the cell is not touched. A variable starts with the attribute that
  fresh memory holds; the memory for it is not checked.
\<close>

definition cell_extension :: "od_entry option \<Rightarrow> extension" where
  "cell_extension c = (case c of None \<Rightarrow> Ext_unset | Some e \<Rightarrow> entry_extension e)"

definition cell_type :: "od_entry option \<Rightarrow> od_type option" where
  "cell_type c = (case c of None \<Rightarrow> None | Some e \<Rightarrow> entry_type e)"

definition new_arr :: od_arr where
  "new_arr = \<lparr>arr_data0 = Null, arr_data = Arr_null, arr_attribute0 = 0, arr_attribute = 0, arr_elementLength = 0, arr_elementSizeof = 0\<rparr>"

definition new_rec :: od_rec where
  "new_rec = \<lparr>var_data = Null, var_length = 0, var_attribute = 0, rec_subIndex = 0\<rparr>"

definition fill_entry_index ::
  "'x ld_env_scheme \<Rightarrow> od_entry option \<Rightarrow> tmp_data \<Rightarrow> (int \<times> od_entry \<times> tmp_data) outcome" where
  "fill_entry_index env cell data =
     (let entry = \<lparr>entry_index = of_int (tmp_index data), entry_subCount = of_int (max (total_subindexes data) 1),
                   entry_type = cell_type cell, entry_object = Obj_null, entry_extension = cell_extension cell\<rparr>
      in if object_type data = VARIABLE then
           let entry1 = entry\<lparr>entry_type := Some ODT_VAR\<rparr> in
           if \<not> malloc_ok env (sizeof_var env) then Fault Null_pointer
           else bind_outcome (fill_var env data Unset (fresh_byte env)) (\<lambda>(r, v, n, a, data1).
                if r < 0 then Ret (-1, entry1, data1)
                else Ret (0, entry1\<lparr>entry_object := Obj_var \<lparr>var_data = v, var_length = n, var_attribute = a\<rparr>\<rparr>, data1))
         else if object_type data = ARRAY then
           let entry1 = entry\<lparr>entry_type := Some ODT_ARR\<rparr> in
           if \<not> malloc_ok env (sizeof_arr env) then Ret (-1, entry1, data)
           else Ret (0, entry1\<lparr>entry_object := Obj_arr new_arr\<rparr>, data)
         else if object_type data = RECORD then
           let entry1 = entry\<lparr>entry_type := Some ODT_REC\<rparr> in
           if total_subindexes data < 0 \<or> \<not> malloc_ok env (sizeof_rec env * nat (total_subindexes data)) then Ret (-1, entry1, data)
           else Ret (0, entry1\<lparr>entry_subCount := of_int (total_subindexes data),
                               entry_object := Obj_rec (replicate (nat (total_subindexes data)) new_rec)\<rparr>, data)
         else Ret (-1, entry, data))"

text \<open>
  An element of an array. \<open>count\<close> elements are allocated with the first one; the element is stored at the position \<open>sub_offset\<close> of
  the line among the lines of the object, and the offset in bytes is kept in one byte.
\<close>

definition fill_arr_pointer :: "'x ld_env_scheme \<Rightarrow> int \<Rightarrow> tmp_data \<Rightarrow> nat \<Rightarrow> od_arr \<Rightarrow> (int \<times> od_arr \<times> tmp_data) outcome" where
  "fill_arr_pointer env count data sub_offset arr =
     (case arr_data arr of
        Arr_values _ \<Rightarrow> Fault Mixed_layout
      | blk \<Rightarrow>
          let ps = (case blk of Arr_pointers ps \<Rightarrow> Some ps
                    | _ \<Rightarrow> if 0 \<le> count \<and> malloc_ok env (sizeof_ptr env * nat count) then Some (replicate (nat count) Unset) else None)
          in case ps of
               None \<Rightarrow> Fault Null_pointer
             | Some ps \<Rightarrow>
                 bind_outcome (peek ps sub_offset 1) (\<lambda>old.
                 bind_outcome (fill_var env data (hd old) (arr_attribute arr)) (\<lambda>(r, v, n, a, data1).
                 let arr1 = arr\<lparr>arr_data := Arr_pointers (ps[sub_offset := v]), arr_attribute := a\<rparr> in
                 if r < 0 then Ret (r, arr1, data1)
                 else Ret (0, arr1\<lparr>arr_elementSizeof := n, arr_elementLength := n\<rparr>, data1))))"

definition fill_arr_value :: "'x ld_env_scheme \<Rightarrow> int \<Rightarrow> tmp_data \<Rightarrow> nat \<Rightarrow> od_arr \<Rightarrow> (int \<times> od_arr \<times> tmp_data) outcome" where
  "fill_arr_value env count data sub_offset arr =
     bind_outcome (fill_var env data Null (arr_attribute arr)) (\<lambda>(r, v, n, a, data1).
     let arr1 = arr\<lparr>arr_attribute := a\<rparr> in
     if r < 0 then Ret (r, arr1, data1)
     else
       let arr2 = arr1\<lparr>arr_elementSizeof := n\<rparr> in
       case arr_data arr of
         Arr_pointers _ \<Rightarrow> Fault Mixed_layout
       | blk \<Rightarrow>
           let block = (case blk of Arr_values d \<Rightarrow> Some d
                        | _ \<Rightarrow> if 0 \<le> count \<and> malloc_ok env (nat count * n) then Some (replicate (nat count * n) (fresh_byte env)) else None)
           in case (block, v) of
                (Some d, Block b) \<Rightarrow>
                  bind_outcome (poke d ((n * sub_offset) mod 256) (take n b)) (\<lambda>d'.
                  Ret (0, arr2\<lparr>arr_data := Arr_values d', arr_elementLength := n\<rparr>, data1))
              | _ \<Rightarrow> Fault Null_pointer)"

definition fill_entry_subindex ::
  "'x ld_env_scheme \<Rightarrow> od_entry \<Rightarrow> tmp_data \<Rightarrow> nat \<Rightarrow> (int \<times> od_entry \<times> tmp_data) outcome" where
  "fill_entry_subindex env entry data sub_offset =
     (let count = uint (entry_subCount entry) - 1 in
      case (entry_type entry, entry_object entry) of
        (Some ODT_ARR, Obj_arr arr) \<Rightarrow>
          if tmp_subindex data = 0 then
            bind_outcome (fill_var env data (arr_data0 arr) (arr_attribute0 arr)) (\<lambda>(r, v, n, a, data1).
            Ret (r, entry\<lparr>entry_object := Obj_arr (arr\<lparr>arr_data0 := v, arr_attribute0 := a\<rparr>)\<rparr>, data1))
          else if data_type data = uint OCTET_STRING \<or> data_type data = uint VISIBLE_STRING then
            bind_outcome (fill_arr_pointer env count data sub_offset arr) (\<lambda>(r, arr1, data1).
            Ret (r, entry\<lparr>entry_object := Obj_arr arr1\<rparr>, data1))
          else if data_type data = uint DOMAIN then
            (let blk = (case arr_data arr of
                          Arr_null \<Rightarrow> if 0 \<le> count \<and> malloc_ok env (sizeof_ptr env * nat count) then Arr_pointers (replicate (nat count) Null) else Arr_null
                        | b \<Rightarrow> b)
             in if blk = Arr_null then Fault Null_pointer
                else bind_outcome (get_access_attr env (access_type data)) (\<lambda>(a, acc).
                     Ret (0, entry\<lparr>entry_object := Obj_arr (arr\<lparr>arr_data := blk, arr_attribute := a OR ODA_MB env,
                               arr_elementLength := arr_elementSizeof arr\<rparr>)\<rparr>, data\<lparr>access_type := acc\<rparr>)))
          else
            bind_outcome (fill_arr_value env count data sub_offset arr) (\<lambda>(r, arr1, data1).
            Ret (r, entry\<lparr>entry_object := Obj_arr arr1\<rparr>, data1))
      | (Some ODT_ARR, _) \<Rightarrow> Fault Null_pointer
      | (Some ODT_REC, Obj_rec rs) \<Rightarrow>
          bind_outcome (peek rs sub_offset 1) (\<lambda>old.
          bind_outcome (fill_var env data (var_data (hd old)) (var_attribute (hd old))) (\<lambda>(r, v, n, a, data1).
          let rv = (hd old)\<lparr>var_data := v, var_attribute := a\<rparr> in
          if r < 0 then Ret (r, entry\<lparr>entry_object := Obj_rec (rs[sub_offset := rv])\<rparr>, data1)
          else Ret (0, entry\<lparr>entry_object := Obj_rec (rs[sub_offset := rv\<lparr>var_length := n, rec_subIndex := of_int (tmp_subindex data)\<rparr>])\<rparr>, data1)))
      | (Some ODT_REC, _) \<Rightarrow> Fault Null_pointer
      | _ \<Rightarrow> Ret (-1, entry, data))"

section \<open>Freeing an object dictionary\<close>

text \<open>
  \<open>list\<close> is the memory of the entries, \<open>None\<close> for a null pointer. What is freed is recorded: the data of an entry or of a member
  of it, the array of a record's members, the list and the dictionary itself.
\<close>

record od_t =
  od_list :: "od_entry option list option"
  od_size :: u32

datatype freed = Free_data nat | Free_data0 nat | Free_sub nat nat | Free_rec nat | Free_list | Free_od

definition free_ptr :: "ptr \<Rightarrow> freed \<Rightarrow> freed list outcome" where
  "free_ptr p f = (case p of Unset \<Rightarrow> Fault Uninitialised | Null \<Rightarrow> Ret [] | Block _ \<Rightarrow> Ret [f])"

fun free_subs :: "nat \<Rightarrow> nat \<Rightarrow> od_rec list \<Rightarrow> freed list outcome" where
  "free_subs i j [] = Ret []"
| "free_subs i j (r # rs) =
     bind_outcome (free_ptr (var_data r) (Free_sub i j)) (\<lambda>f. bind_outcome (free_subs i (Suc j) rs) (\<lambda>fs. Ret (f @ fs)))"

definition free_entry :: "nat \<Rightarrow> od_entry \<Rightarrow> freed list outcome" where
  "free_entry i e =
     (case (entry_type e, entry_object e) of
        (Some ODT_VAR, Obj_var v) \<Rightarrow> free_ptr (var_data v) (Free_data i)
      | (Some ODT_ARR, Obj_arr a) \<Rightarrow>
          bind_outcome (free_ptr (arr_data0 a) (Free_data0 i)) (\<lambda>f.
          Ret (f @ (if arr_data a = Arr_null then [] else [Free_data i])))
      | (Some ODT_REC, Obj_rec rs) \<Rightarrow>
          bind_outcome (peek rs 0 (unat (entry_subCount e))) (\<lambda>subs.
          bind_outcome (free_subs i 0 subs) (\<lambda>f. Ret (f @ [Free_rec i])))
      | (None, _) \<Rightarrow> Ret []
      | _ \<Rightarrow> Fault Mixed_layout)"

text \<open>The list ends at an entry with index 0; \<open>OD\<close> holds the entries of the built-in dictionary.\<close>

fun free_entries :: "od_entry list \<Rightarrow> bool \<Rightarrow> nat \<Rightarrow> od_entry option list \<Rightarrow> freed list outcome" where
  "free_entries OD ext i [] = Fault Out_of_bounds"
| "free_entries OD ext i (None # cells) = Fault Uninitialised"
| "free_entries OD ext i (Some e # cells) =
     (if entry_index e = 0 then Ret []
      else if entry_object e = Obj_null \<or> ext \<and> entry_index e \<in> entry_index ` set OD then free_entries OD ext (Suc i) cells
      else bind_outcome (free_entry i e) (\<lambda>f. bind_outcome (free_entries OD ext (Suc i) cells) (\<lambda>fs. Ret (f @ fs))))"

definition od_config_free :: "od_entry list \<Rightarrow> od_t option \<Rightarrow> bool \<Rightarrow> freed list outcome" where
  "od_config_free OD od extend_internal_od = (case od of
       None \<Rightarrow> Ret []
     | Some od \<Rightarrow>
         (case od_list od of
            None \<Rightarrow> Ret [Free_od]
          | Some cells \<Rightarrow>
              bind_outcome (free_entries OD extend_internal_od 0 cells) (\<lambda>fs. Ret (fs @ [Free_list, Free_od]))))"

section \<open>Loading the table\<close>

text \<open>
  The variables of \<^verbatim>\<open>od_config_load\<close>. \<open>ld_left\<close> are the entries of the built-in dictionary that have not been merged yet; \<open>ld_entry\<close>
  is the pointer to the current entry, which is stale once the list has been reallocated; \<open>ld_line_lost\<close> says that
  \<^verbatim>\<open>line\<close> points into the middle of its buffer, after a line with more than seven fields.
\<close>

datatype entry_ptr = Entry_null | Entry_at u32 | Entry_stale

record loader =
  ld_size :: u32
  ld_e :: u32
  ld_list :: "od_entry option list option"
  ld_entry :: entry_ptr
  ld_left :: "od_entry list"
  ld_last :: u32
  ld_sub :: nat
  ld_header :: bool
  ld_comment :: bool
  ld_line_lost :: bool
  ld_data :: tmp_data

definition resize_list :: "'x ld_env_scheme \<Rightarrow> od_entry option list option \<Rightarrow> u32 \<Rightarrow> od_entry option list option" where
  "resize_list env l sz =
     (let n = unat (sz + 1); old = (case l of None \<Rightarrow> [] | Some cells \<Rightarrow> cells) in
      if n \<noteq> 0 \<and> malloc_ok env (sizeof_entry env * n) then Some (take n old @ replicate (n - length old) None) else None)"

definition get_cell :: "loader \<Rightarrow> entry_ptr \<Rightarrow> od_entry option outcome" where
  "get_cell st p = (case p of
       Entry_null \<Rightarrow> Fault Null_pointer
     | Entry_stale \<Rightarrow> Fault Out_of_bounds
     | Entry_at i \<Rightarrow>
         (case ld_list st of
            None \<Rightarrow> Fault Null_pointer
          | Some cells \<Rightarrow> if unat i < length cells then Ret (cells ! unat i) else Fault Out_of_bounds))"

definition put_cell :: "loader \<Rightarrow> entry_ptr \<Rightarrow> od_entry \<Rightarrow> loader outcome" where
  "put_cell st p e = bind_outcome (get_cell st p) (\<lambda>_.
     case (p, ld_list st) of
       (Entry_at i, Some cells) \<Rightarrow> Ret (st\<lparr>ld_list := Some (cells[unat i := Some e])\<rparr>)
     | _ \<Rightarrow> Fault Null_pointer)"

text \<open>Built-in entries up to the index of the line go in front of it.\<close>

fun copy_internal :: "od_entry list \<Rightarrow> int \<Rightarrow> loader \<Rightarrow> loader outcome" where
  "copy_internal [] index st = Ret (st\<lparr>ld_left := []\<rparr>)"
| "copy_internal (i # is') index st =
     (if index \<ge> uint (entry_index i)
      then bind_outcome (put_cell (st\<lparr>ld_last := ucast (entry_index i)\<rparr>) (ld_entry st) i) (\<lambda>st1.
           copy_internal is' index (st1\<lparr>ld_e := ld_e st1 + 1, ld_entry := Entry_at (ld_e st1 + 1)\<rparr>))
      else Ret (st\<lparr>ld_left := i # is'\<rparr>))"

text \<open>What one line of data does; the flag is \<open>False\<close> for the jump to the error exit.\<close>

definition is_internal :: "bool \<Rightarrow> loader \<Rightarrow> bool" where
  "is_internal ext st \<longleftrightarrow> ext \<and> ucast (of_int (tmp_index (ld_data st)) :: u16) = ld_last st"

definition skip_index :: "'x ld_env_scheme \<Rightarrow> loader \<Rightarrow> loader" where
  "skip_index env st =
     st\<lparr>ld_e := ld_e st - 1, ld_size := ld_size st - 1, ld_list := resize_list env (ld_list st) (ld_size st - 1), ld_entry := Entry_stale\<rparr>"

definition load_index :: "'x ld_env_scheme \<Rightarrow> bool \<Rightarrow> loader \<Rightarrow> (bool \<times> loader) outcome" where
  "load_index env ext st =
     (let st0 = st\<lparr>ld_e := ld_e st + 1, ld_entry := Entry_at (ld_e st + 1)\<rparr> in
      bind_outcome (if ext then copy_internal (ld_left st0) (tmp_index (ld_data st0)) st0 else Ret st0) (\<lambda>st1.
      if is_internal ext st1 then Ret (True, (skip_index env st1)\<lparr>ld_sub := 0\<rparr>)
      else
        bind_outcome (get_cell st1 (ld_entry st1)) (\<lambda>cell.
        bind_outcome (fill_entry_index env cell (ld_data st1)) (\<lambda>(r, entry, data).
        bind_outcome (put_cell st1 (ld_entry st1) entry) (\<lambda>st2.
        Ret (\<not> r < 0, st2\<lparr>ld_data := data, ld_sub := 0\<rparr>))))))"

definition load_subindex :: "'x ld_env_scheme \<Rightarrow> bool \<Rightarrow> loader \<Rightarrow> (bool \<times> loader) outcome" where
  "load_subindex env ext st =
     (if is_internal ext st then Ret (True, st\<lparr>ld_sub := ld_sub st + 1\<rparr>)
      else if ld_entry st = Entry_null then Ret (False, st)
      else
        bind_outcome (get_cell st (ld_entry st)) (\<lambda>cell.
        case cell of
          None \<Rightarrow> Fault Uninitialised
        | Some e \<Rightarrow>
            bind_outcome (fill_entry_subindex env e (ld_data st) (ld_sub st)) (\<lambda>(r, entry, data).
            bind_outcome (put_cell st (ld_entry st) entry) (\<lambda>st1.
            Ret (\<not> r < 0, st1\<lparr>ld_data := data, ld_sub := ld_sub st1 + 1\<rparr>)))))"

definition load_data :: "'x ld_env_scheme \<Rightarrow> bool \<Rightarrow> loader \<Rightarrow> (bool \<times> loader) outcome" where
  "load_data env ext st =
     bind_outcome
       (if tmp_subindex (ld_data st) = -1 then load_index env ext st
        else if object_type (ld_data st) = VARIABLE then load_subindex env ext st
        else Ret (True, st))
       (\<lambda>(ok, st1). Ret (ok \<and> \<not> ld_e st1 > ld_size st1, st1))"

text \<open>
  One line of the file. The comment with the number of objects makes room for them; the first line that is neither empty nor a comment is the header.
  Lines before the comment are passed over.
\<close>

definition load_line :: "'x ld_env_scheme \<Rightarrow> bool \<Rightarrow> string \<Rightarrow> loader \<Rightarrow> (bool \<times> loader) outcome" where
  "load_line env ext line st =
     (if ld_line_lost st then Fault Out_of_bounds
      else
        bind_outcome (reset_tmp_data (ld_data st)) (\<lambda>data0.
        let st0 = st\<lparr>ld_data := data0\<rparr>; s = cstr line in
        if s \<noteq> [] \<and> (hd s = newline \<or> hd s = CHR '';'') then
          (if has_key OBJECTS_COMMENT s then
             bind_outcome (parse_int_key (drop (length OBJECTS_COMMENT) s) 0) (\<lambda>tmp.
             let sz = ld_size st0 + of_int tmp in
             Ret (True, st0\<lparr>ld_comment := True, ld_size := sz, ld_list := resize_list env (ld_list st0) sz,
                    ld_entry := (case ld_entry st0 of Entry_at _ \<Rightarrow> Entry_stale | p \<Rightarrow> p)\<rparr>))
           else Ret (True, st0))
        else if \<not> ld_header st0 then Ret (True, st0\<lparr>ld_header := True\<rparr>)
        else if \<not> ld_comment st0 then Ret (True, st0)
        else
          bind_outcome (csv_fields 0 (split_comma s) data0) (\<lambda>data.
          load_data env ext (st0\<lparr>ld_data := data, ld_line_lost := 7 < length (split_comma s)\<rparr>))))"

fun load_lines :: "'x ld_env_scheme \<Rightarrow> bool \<Rightarrow> string list \<Rightarrow> loader \<Rightarrow> (bool \<times> loader) outcome" where
  "load_lines env ext [] st = Ret (True, st)"
| "load_lines env ext (line # lines) st =
     bind_outcome (load_line env ext line st) (\<lambda>(ok, st1). if ok then load_lines env ext lines st1 else Ret (False, st1))"

text \<open>
  Memory for the built-in entries is cleared by the size of a length, not of an entry: only the cells that lie in the
  cleared bytes are set.
\<close>

definition cleared_cell :: "'x ld_env_scheme \<Rightarrow> nat \<Rightarrow> nat \<Rightarrow> od_entry option" where
  "cleared_cell env bytes i =
     (let zero = \<lparr>entry_index = 0, entry_subCount = 0, entry_type = None, entry_object = Obj_null, entry_extension = Ext_unset\<rparr> in
      if (i + 1) * sizeof_entry env \<le> bytes then Some (zero\<lparr>entry_extension := Ext_null\<rparr>)
      else if i * sizeof_entry env + 2 \<le> bytes then Some zero else None)"

definition start_list :: "'x ld_env_scheme \<Rightarrow> od_entry list \<Rightarrow> od_entry option list" where
  "start_list env OD = map (cleared_cell env (sizeof_size env * (length OD + 1))) [0..<length OD + 1]"

definition start_loader :: "od_entry option list option \<Rightarrow> nat \<Rightarrow> od_entry list \<Rightarrow> tmp_data \<Rightarrow> loader" where
  "start_loader cells n OD data =
     \<lparr>ld_size = of_nat n, ld_e = - 1, ld_list = cells, ld_entry = Entry_null, ld_left = OD, ld_last = 0, ld_sub = 0,
      ld_header = False, ld_comment = False, ld_line_lost = False, ld_data = data\<rparr>"

text \<open>
  \<^verbatim>\<open>od_config_load\<close>: \<open>path\<close> is \<open>None\<close> for a null pointer, \<open>data\<close> the uninitialised variable of the line. The result is the code and the
  dictionary, if there is one, and what was freed.
\<close>

definition od_config_load ::
  "'x ld_env_scheme \<Rightarrow> od_entry list \<Rightarrow> tmp_data \<Rightarrow> string option \<Rightarrow> fsys \<Rightarrow> bool \<Rightarrow> (int \<times> od_t option \<times> freed list) outcome" where
  "od_config_load env OD data path fs extend_internal_od = (case path of
       None \<Rightarrow> Ret (-1, None, [])
     | Some p \<Rightarrow>
         if extend_internal_od \<and> \<not> malloc_ok env (sizeof_entry env * (length OD + 1)) then Ret (-1, None, [])
         else
           let cells = (if extend_internal_od then Some (start_list env OD) else None);
               n = (if extend_internal_od then length OD else 0)
           in case fs_open_rd fs p of
                Inl e \<Rightarrow> Ret (-1, None, if extend_internal_od then [Free_list] else [])
              | Inr node \<Rightarrow>
                  if \<not> malloc_ok env (sizeof_OD env) then Ret (-1, None, [])
                  else
                    bind_outcome (load_lines env extend_internal_od (getlines (text_of node)) (start_loader cells n OD data)) (\<lambda>(ok, st).
                    let out = \<lparr>od_list = ld_list st, od_size = ld_size st\<rparr> in
                    if ok \<and> ld_comment st then Ret (0, Some out, [])
                    else bind_outcome (od_config_free OD (Some out) extend_internal_od) (\<lambda>fs. Ret (-1, None, fs))))"

end
