(* ===== verification/Od_Table.thy ===== *)
theory Od_Table
  imports Load_Configs
begin

unbundle bit_operations_syntax

text \<open>
  Correctness of the loader in \<open>Load_Configs\<close>. First the text of a line: numbers, tokens, fields. Then values and their attributes,
  entries, and the merge of the table with the built-in dictionary, whose specification is \<open>od_merge\<close>. Last the release of the memory.
\<close>

section \<open>Numbers and tokens\<close>

text \<open>A text behind a number that does not continue it.\<close>

definition ends_number :: "string \<Rightarrow> bool" where
  "ends_number r \<longleftrightarrow> r = [] \<or> digit_val (hd r) = None"

lemma takeWhile_digits:
  assumes "\<forall>c \<in> set ds. is_digit base c" and "ends_number r"
  shows "takeWhile (is_digit base) (ds @ r) = ds"
proof -
  have "takeWhile (is_digit base) r = []" using assms(2) by (cases r) (auto simp: ends_number_def is_digit_def)
  then show ?thesis using assms(1) by (simp add: takeWhile_append)
qed

lemma sscanf_d_number:
  assumes "n < 2 ^ 31" and "ends_number r"
  shows "sscanf_d (num_string 10 n @ r) = Ret (Some (int n))"
proof -
  let ?ds = "num_string 10 n"
  have d: "\<forall>c \<in> set ?ds. is_digit 10 c" by (simp add: num_string_digits)
  obtain c ds' where ds: "?ds = c # ds'" by (cases ?ds) (use num_string_not_Nil [of 10 n] in auto)
  have "\<not> isspace_c c" "c \<noteq> CHR ''-''" "c \<noteq> CHR ''+''" using is_digit_char [of 10 c] d ds by auto
  then have s: "dropWhile isspace_c (?ds @ r) = ?ds @ r" "skip_sign (?ds @ r) = (False, ?ds @ r)" by (simp_all add: ds skip_sign_def)
  have "strto_scan (?ds @ r) 10 = (False, digits_acc 10 0 ?ds, length ?ds)"
    unfolding strto_scan_def using s takeWhile_digits [OF d assms(2)] num_string_not_Nil [of 10 n] by (simp add: skip_0x_def Let_def)
  then show ?thesis using assms(1) num_string_not_Nil [of 10 n] by (simp add: sscanf_d_def digits_acc_num_string Let_def)
qed

lemma parse_int_key_decimal:
  assumes "n < 2 ^ 31" and "ends_number r"
  shows "parse_int_key (num_string 10 n @ r) v = Ret (int n)"
proof -
  have d: "\<forall>c \<in> set (num_string 10 n). is_digit 10 c" by (simp add: num_string_digits)
  obtain c ds where ds: "num_string 10 n = c # ds" by (cases "num_string 10 n") (use num_string_not_Nil [of 10 n] in auto)
  have "(num_string 10 n @ r) ! 1 \<noteq> CHR ''x'' \<or> c \<noteq> CHR ''0'' \<or> length (num_string 10 n @ r) < 2"
  proof (cases ds)
    case Nil
    show ?thesis
    proof (cases "c = CHR ''0''")
      case True
      \<comment> \<open>a single digit 0, followed by something that does not continue the number\<close>
      then show ?thesis using Nil ds assms(2) by (cases r) (auto simp: ends_number_def digit_val_def)
    qed simp
  next
    case (Cons e es)
    then have "is_digit 10 e" using d ds by simp
    then show ?thesis using not_digit_x [of 10 e] by (auto simp: ds Cons)
  qed
  then show ?thesis using sscanf_d_number [OF assms] by (auto simp: parse_int_key_def ds)
qed

lemma parse_int_key_hex:
  assumes "n < 2 ^ 31" and "ends_number r"
  shows "parse_int_key (''0x'' @ num_string 16 n @ r) v = Ret (int n)"
proof -
  have d: "\<forall>c \<in> set (num_string 16 n). is_digit 16 c" by (simp add: num_string_digits)
  have "sscanf_x (''0x'' @ num_string 16 n @ r) = Ret (Some (of_nat n))"
    using takeWhile_digits [OF d assms(2)] assms(1) by (simp add: sscanf_x_def digits_acc_num_string Let_def)
  moreover have "sint (of_nat n :: u32) = int n" using assms(1) by (simp add: signed_of_nat signed_take_bit_int_eq_self)
  ultimately show ?thesis by (simp add: parse_int_key_def)
qed

lemma split_comma_not_Nil [simp]: "split_comma s \<noteq> []"
  by (induction s) (auto split: list.splits)

lemma split_comma_append: "CHR '','' \<notin> set w \<Longrightarrow> split_comma (w @ CHR '','' # r) = w # split_comma r"
  by (induction w) auto

lemma split_comma_word [simp]: "CHR '','' \<notin> set w \<Longrightarrow> split_comma w = [w]"
  by (induction w) auto

section \<open>The line of a variable\<close>

text \<open>
  A variable of the table: its index, access rights, data type and default, and the line that describes it. The parts of the line hold no
  comma, newline or terminator, and fit into the arrays of the loader.
\<close>

record var_spec =
  vs_index :: nat
  vs_access :: string
  vs_type :: nat
  vs_default :: string

definition var_line :: "var_spec \<Rightarrow> string" where
  "var_line v = ''7,0x'' @ num_string 16 (vs_index v) @ '',,'' @ vs_access v @ '','' @ num_string 10 (vs_type v) @ '','' @ vs_default v @ [newline]"

definition plain_field :: "string \<Rightarrow> bool" where
  "plain_field s \<longleftrightarrow> CHR '','' \<notin> set s \<and> newline \<notin> set s \<and> nul \<notin> set s"

definition spec_ok :: "var_spec \<Rightarrow> bool" where
  "spec_ok v \<longleftrightarrow> vs_index v < 2 ^ 16 \<and> vs_index v \<noteq> 0 \<and> vs_type v < 2 ^ 31 \<and> plain_field (vs_access v) \<and> length (vs_access v) < 16
     \<and> plain_field (vs_default v) \<and> length (vs_default v) < 256"

text \<open>The arrays of the loader's variable have their sizes, and their texts end inside them.\<close>

definition data_ok :: "tmp_data \<Rightarrow> bool" where
  "data_ok d \<longleftrightarrow> length (access_type d) = 16 \<and> length (default_value d) = 256"

lemma digit_in_num: "2 \<le> base \<Longrightarrow> base \<le> 36 \<Longrightarrow> c \<in> set (num_string base n) \<Longrightarrow> is_digit base c"
  using num_string_digits by blast

lemma plain_num_string: "2 \<le> base \<Longrightarrow> base \<le> 36 \<Longrightarrow> plain_field (num_string base n)"
  unfolding plain_field_def
  by (auto dest!: digit_in_num [rotated 2] simp: is_digit_def digit_val_def newline_def nul_def Let_def)

lemma reset_ok:
  assumes "data_ok d"
  obtains d' where "reset_tmp_data d = Ret d'" "data_ok d'" "object_type d' = 0" "data_type d' = 0" "tmp_index d' = 0" "tmp_subindex d' = -1"
    "total_subindexes d' = 0" "take 3 (access_type d') = ''rw'' @ [nul]" "take 1 (default_value d') = [nul]"
  using assms by (auto simp: reset_tmp_data_def data_ok_def)

lemma cstr_take: "take (Suc n) r = s @ [nul] \<Longrightarrow> length s = n \<Longrightarrow> nul \<notin> set s \<Longrightarrow> cstr r = s \<and> nul \<in> set r"
proof -
  assume a: "take (Suc n) r = s @ [nul]" and s: "length s = n" "nul \<notin> set s"
  have "r = (s @ [nul]) @ drop (Suc n) r" using append_take_drop_id [of "Suc n" r] a by simp
  then have r: "r = s @ nul # drop (Suc n) r" by simp
  have "cstr (s @ nul # drop (Suc n) r) = s" by (rule cstr_terminated) (simp add: is_cstr_def s)
  then show ?thesis using r by (metis in_set_conv_decomp)
qed

text \<open>What the fields of the line leave in the loader's variable.\<close>

lemma var_line_fields:
  assumes v: "spec_ok v" and d: "data_ok d" "object_type d = 0" "tmp_subindex d = -1" "take 1 (default_value d) = [nul]"
  obtains d' where "csv_fields 0 (split_comma (var_line v)) d = Ret d'" "data_ok d'" "object_type d' = VARIABLE" "tmp_index d' = int (vs_index v)"
    "tmp_subindex d' = -1" "data_type d' = int (vs_type v)" "take (length (vs_access v) + 1) (access_type d') = vs_access v @ [nul]"
    "cstr (default_value d') = vs_default v" "nul \<in> set (default_value d')" "length (split_comma (var_line v)) = 6"
    "total_subindexes d' = total_subindexes d"
proof -
  have plain: "plain_field (num_string 16 (vs_index v))" "plain_field (num_string 10 (vs_type v))" "plain_field (vs_access v)"
    "plain_field (vs_default v)" using v by (simp_all add: plain_num_string spec_ok_def)
  let ?t = "[''7'', ''0x'' @ num_string 16 (vs_index v), [], vs_access v, num_string 10 (vs_type v), vs_default v @ [newline]]"
  have tokens: "split_comma (var_line v) = ?t"
  proof -
    have "var_line v = ''7'' @ CHR '','' # (''0x'' @ num_string 16 (vs_index v)) @ CHR '','' # [] @ CHR '','' # vs_access v @ CHR '','' #
        num_string 10 (vs_type v) @ CHR '','' # (vs_default v @ [newline])" by (simp add: var_line_def)
    moreover have "CHR '','' \<notin> set ''7''" "CHR '','' \<notin> set (''0x'' @ num_string 16 (vs_index v))" "CHR '','' \<notin> set []"
      "CHR '','' \<notin> set (vs_access v)" "CHR '','' \<notin> set (num_string 10 (vs_type v))" "CHR '','' \<notin> set (vs_default v @ [newline])"
      using plain by (simp_all add: plain_field_def newline_def)
    ultimately show ?thesis by (simp only: split_comma_append split_comma_word not_False_eq_True)
  qed
  have "num_string 10 7 = ''7''" by code_simp
  then have seven: "parse_int_key ''7'' x = Ret VARIABLE" for x
    using parse_int_key_decimal [of 7 "[]" x] by (simp add: ends_number_def VARIABLE_def)
  have nums: "parse_int_key (''0x'' @ num_string 16 (vs_index v)) x = Ret (int (vs_index v))"
    "parse_int_key (num_string 10 (vs_type v)) x = Ret (int (vs_type v))" for x
    using parse_int_key_hex [of "vs_index v" "[]" x] parse_int_key_decimal [of "vs_type v" "[]" x] v
    by (simp_all add: spec_ok_def ends_number_def)
  define dv where "dv = (if vs_default v = [] then default_value d
      else vs_default v @ nul # drop (Suc (length (vs_default v))) (default_value d))"
  define acc where "acc = vs_access v @ nul # drop (Suc (length (vs_access v))) (access_type d)"
  let ?d1 = "d\<lparr>object_type := VARIABLE\<rparr>" and ?d2 = "d\<lparr>object_type := VARIABLE, tmp_index := int (vs_index v)\<rparr>"
  let ?d4 = "?d2\<lparr>access_type := acc\<rparr>" and ?d5 = "?d2\<lparr>access_type := acc, data_type := int (vs_type v)\<rparr>"
  let ?d = "?d5\<lparr>default_value := dv\<rparr>"
  have fields: "csv_field 0 ''7'' d = Ret ?d1" "csv_field 1 (''0x'' @ num_string 16 (vs_index v)) ?d1 = Ret ?d2"
    "csv_field 2 [] ?d2 = Ret ?d2" "csv_field 3 (vs_access v) ?d2 = Ret ?d4" "csv_field 4 (num_string 10 (vs_type v)) ?d4 = Ret ?d5"
    using v d(1) seven nums by (simp_all add: csv_field_def spec_ok_def data_ok_def acc_def)
  have last: "csv_field 5 (vs_default v @ [newline]) ?d5 = Ret ?d"
    using v d(1) by (cases "vs_default v") (auto simp: csv_field_def dv_def spec_ok_def plain_field_def data_ok_def)
  have "csv_fields 0 ?t d = Ret ?d"
    using fields last by (simp add: numeral_eq_Suc del: append_Cons)
  moreover have "cstr dv = vs_default v \<and> nul \<in> set dv"
    using cstr_take [of "length (vs_default v)" dv "vs_default v"] v d(4) by (auto simp: dv_def spec_ok_def plain_field_def)
  moreover have "length dv = 256" using v d(1) by (simp add: dv_def data_ok_def spec_ok_def)
  ultimately show ?thesis using that [of ?d] tokens v d(1,3) by (simp add: data_ok_def spec_ok_def acc_def)
qed

section \<open>Values and access rights\<close>

lemma strncpy_inside:
  assumes "nul \<in> set r"
  obtains r' where "strncpy r src (length (cstr r)) = Ret r'" "length r' = length r" "nul \<in> set r'"
proof -
  let ?n = "length (cstr r)" and ?s = "take (length (cstr r)) (src @ replicate (length (cstr r)) nul)"
  have n: "?n < length r" by (rule length_cstr_less [OF assms])
  have s: "length ?s = ?n" by simp
  have "dropWhile (\<lambda>c. c \<noteq> nul) r \<noteq> []" using assms by (auto simp: dropWhile_eq_Nil_conv)
  moreover have "dropWhile (\<lambda>c. c \<noteq> nul) r = drop ?n r" by (simp add: dropWhile_eq_drop cstr_def)
  ultimately have "nul \<in> set (drop ?n r)" using hd_dropWhile [of "\<lambda>c. c \<noteq> nul" r] by (metis hd_in_set)
  then show ?thesis
    using that [of "?s @ drop ?n r"] n s by (simp add: strncpy_def)
qed

lemma get_access_attr_rw:
  assumes "nul \<in> set acc"
  obtains acc' where "get_access_attr env acc = Ret (ODA_SDO_RW env, acc')" "length acc' = length acc" "nul \<in> set acc'"
proof -
  obtain r1 where 1: "strncpy acc ''ro'' (length (cstr acc)) = Ret r1" "length r1 = length acc" "nul \<in> set r1"
    using strncpy_inside [OF assms] by blast
  obtain r2 where 2: "strncpy r1 ''const'' (length (cstr r1)) = Ret r2" "length r2 = length r1" "nul \<in> set r2"
    using strncpy_inside [OF 1(3)] by blast
  obtain r3 where 3: "strncpy r2 ''wo'' (length (cstr r2)) = Ret r3" "length r3 = length r2" "nul \<in> set r3"
    using strncpy_inside [OF 2(3)] by blast
  show ?thesis using that [of r3] assms 1 2 3 by (simp add: get_access_attr_def read_cstr_def)
qed

text \<open>The value of a type and default, and its attribute bits, for every type but octet strings, whose default is overwritten.\<close>

definition type_value :: "'x ld_env_scheme \<Rightarrow> int \<Rightarrow> string \<Rightarrow> (ptr \<times> nat \<times> byte) option" where
  "type_value env t s =
     (case fill_var_value env \<lparr>object_type = 0, data_type = t, access_type = [], tmp_index = 0, tmp_subindex = 0, total_subindexes = 0,
          default_value = []\<rparr> s of
        Ret (Some (v, n, bits, _)) \<Rightarrow>
          let v1 = (if \<not> is_text_type t \<and> s = [] then (if malloc_ok env n then Block (replicate n 0) else Null) else v) in
          if \<not> is_text_type t \<and> v1 = Null then None else Some (v1, n, bits)
      | _ \<Rightarrow> None)"

lemma fill_var_value_default:
  assumes "data_type data \<noteq> uint OCTET_STRING"
  shows "fill_var_value env data s =
     (case fill_var_value env \<lparr>object_type = 0, data_type = data_type data, access_type = [], tmp_index = 0, tmp_subindex = 0,
          total_subindexes = 0, default_value = []\<rparr> s of
        Ret (Some (v, n, bits, _)) \<Rightarrow> Ret (Some (v, n, bits, default_value data)) | r \<Rightarrow> r)"
  using assms by (simp add: fill_var_value_def Let_def split: option.split)

lemma fill_var_ok:
  assumes "type_value env (data_type data) (cstr (default_value data)) = Some (v, n, bits)" and "data_type data \<noteq> uint OCTET_STRING"
    and "nul \<in> set (default_value data)" and "nul \<in> set (access_type data)"
  obtains acc where "fill_var env data v0 a = Ret (0, v, n, a OR bits OR ODA_SDO_RW env, data\<lparr>access_type := acc\<rparr>)"
    "length acc = length (access_type data)"
proof -
  let ?z = "\<lparr>object_type = 0, data_type = data_type data, access_type = [], tmp_index = 0, tmp_subindex = 0, total_subindexes = 0, default_value = []\<rparr>"
  obtain v1 dv where z: "fill_var_value env ?z (cstr (default_value data)) = Ret (Some (v1, n, bits, dv))"
    using assms(1) by (auto simp: type_value_def Let_def split: outcome.splits option.splits if_splits)
  obtain acc where acc: "get_access_attr env (access_type data) = Ret (ODA_SDO_RW env, acc)" "length acc = length (access_type data)"
    using get_access_attr_rw [OF assms(4)] by blast
  have "fill_var env data v0 a = Ret (0, v, n, a OR bits OR ODA_SDO_RW env, data\<lparr>access_type := acc\<rparr>)"
    using assms(1,3) z acc(1) fill_var_value_default [OF assms(2), of env]
    by (auto simp: fill_var_def type_value_def read_cstr_def Let_def or.assoc split: if_splits)
  then show ?thesis using that acc(2) by blast
qed

lemma numeric_value_size:
  "numeric_value env t s = Some (v, n, bits) \<Longrightarrow>
     n \<in> {1, 2, 4, 8} \<and> bits \<in> {ODA_TRPDO env, ODA_MB env OR ODA_TRPDO env} \<and> (\<forall>b. v = Some b \<longrightarrow> length b = n)"
  unfolding numeric_value_def Let_def by (simp split: if_split_asm; fastforce)


section \<open>Merging with the built-in dictionary\<close>

text \<open>The entry of a variable, and the dictionary that results: before an entry of the table come the built-in ones up to its index.\<close>

definition var_entry :: "'x ld_env_scheme \<Rightarrow> extension \<Rightarrow> var_spec \<Rightarrow> od_entry" where
  "var_entry env x v =
     (case type_value env (int (vs_type v)) (vs_default v) of
        Some (val, n, bits) \<Rightarrow>
          \<lparr>entry_index = of_nat (vs_index v), entry_subCount = 1, entry_type = Some ODT_VAR,
           entry_object = Obj_var \<lparr>var_data = val, var_length = n, var_attribute = fresh_byte env OR bits OR ODA_SDO_RW env\<rparr>,
           entry_extension = x\<rparr>
      | None \<Rightarrow> \<lparr>entry_index = of_nat (vs_index v), entry_subCount = 1, entry_type = Some ODT_VAR, entry_object = Obj_null, entry_extension = x\<rparr>)"

definition spec_loads :: "'x ld_env_scheme \<Rightarrow> var_spec \<Rightarrow> bool" where
  "spec_loads env v \<longleftrightarrow> spec_ok v \<and> int (vs_type v) \<noteq> uint OCTET_STRING \<and> type_value env (int (vs_type v)) (vs_default v) \<noteq> None
     \<and> malloc_ok env (sizeof_var env)"

fun od_merge :: "od_entry list \<Rightarrow> od_entry list \<Rightarrow> od_entry list" where
  "od_merge is' [] = []"
| "od_merge is' (c # cs) =
     takeWhile (\<lambda>i. entry_index i \<le> entry_index c) is' @ c # od_merge (dropWhile (\<lambda>i. entry_index i \<le> entry_index c) is') cs"

definition bare :: "od_entry \<Rightarrow> od_entry" where
  "bare e = e\<lparr>entry_extension := Ext_null\<rparr>"

lemma bare_var_entry [simp]: "bare (var_entry env x v) = var_entry env Ext_null v"
  by (simp add: bare_def var_entry_def split: option.split prod.split)

lemma entry_index_var_entry [simp]: "entry_index (var_entry env x v) = of_nat (vs_index v)"
  by (simp add: var_entry_def split: option.split prod.split)

text \<open>The loader with \<open>front\<close> filled and \<open>rest\<close> still to be filled, of a list for \<open>n\<close> entries and a terminator.\<close>

definition ld_at :: "nat \<Rightarrow> loader \<Rightarrow> od_entry option list \<Rightarrow> od_entry option list \<Rightarrow> bool" where
  "ld_at n st front rest \<longleftrightarrow> ld_list st = Some (front @ rest) \<and> ld_e st = of_nat (length front) - 1 \<and> ld_size st = of_nat n
     \<and> length front + length rest = n + 1 \<and> n < 2 ^ 31 \<and> ld_header st \<and> ld_comment st \<and> \<not> ld_line_lost st \<and> data_ok (ld_data st)"

lemma unat_u32 [simp]: "k < 2 ^ 32 \<Longrightarrow> unat (of_nat k :: u32) = k"
  by (simp add: unat_of_nat take_bit_nat_eq_self)

lemma put_cell_at:
  assumes "ld_list st = Some (front @ c # rest)" and "length front < 2 ^ 32"
  shows "get_cell st (Entry_at (of_nat (length front))) = Ret c"
    and "put_cell st (Entry_at (of_nat (length front))) e = Ret (st\<lparr>ld_list := Some (front @ Some e # rest)\<rparr>)"
  using assms by (simp_all add: get_cell_def put_cell_def)

lemma copy_internal_run:
  "ld_list st = Some (front @ rest) \<Longrightarrow> ld_entry st = Entry_at (of_nat (length front)) \<Longrightarrow> ld_e st = of_nat (length front) \<Longrightarrow>
     length pre \<le> length rest \<Longrightarrow> length front + length rest < 2 ^ 32 \<Longrightarrow> \<forall>i \<in> set pre. uint (entry_index i) \<le> index \<Longrightarrow>
     post = [] \<or> index < uint (entry_index (hd post)) \<Longrightarrow>
     copy_internal (pre @ post) index st =
       Ret (st\<lparr>ld_list := Some (front @ map Some pre @ drop (length pre) rest), ld_e := of_nat (length front + length pre),
              ld_entry := Entry_at (of_nat (length front + length pre)), ld_left := post,
              ld_last := (if pre = [] then ld_last st else ucast (entry_index (last pre)))\<rparr>)"
proof (induction pre arbitrary: st front rest)
  case Nil
  then show ?case by (cases post) auto
next
  case (Cons p pre)
  obtain c rest' where rest: "rest = c # rest'" using Cons.prems(4) by (cases rest) auto
  let ?st = "st\<lparr>ld_last := ucast (entry_index p), ld_list := Some ((front @ [Some p]) @ rest'), ld_e := of_nat (length (front @ [Some p])),
      ld_entry := Entry_at (of_nat (length (front @ [Some p])))\<rparr>"
  have "put_cell (st\<lparr>ld_last := ucast (entry_index p)\<rparr>) (ld_entry st) p
      = Ret (st\<lparr>ld_last := ucast (entry_index p), ld_list := Some (front @ Some p # rest')\<rparr>)"
    using put_cell_at(2) [of "st\<lparr>ld_last := ucast (entry_index p)\<rparr>" front c rest' p] Cons.prems(1,2,5) rest by simp
  then have "copy_internal ((p # pre) @ post) index st = copy_internal (pre @ post) index ?st"
    using Cons.prems(3,6) by (simp add: add.commute)
  also have "\<dots> = Ret (?st\<lparr>ld_list := Some ((front @ [Some p]) @ map Some pre @ drop (length pre) rest'),
        ld_e := of_nat (length (front @ [Some p]) + length pre), ld_entry := Entry_at (of_nat (length (front @ [Some p]) + length pre)),
        ld_left := post, ld_last := (if pre = [] then ld_last ?st else ucast (entry_index (last pre)))\<rparr>)"
    by (rule Cons.IH) (use Cons.prems rest in \<open>simp_all\<close>)
  finally show ?case using rest by (simp add: ac_simps)
qed

text \<open>The loader's variable after the line of \<open>v\<close>.\<close>

definition data_of :: "var_spec \<Rightarrow> tmp_data \<Rightarrow> bool" where
  "data_of v d \<longleftrightarrow> data_ok d \<and> object_type d = VARIABLE \<and> tmp_index d = int (vs_index v) \<and> tmp_subindex d = -1 \<and> data_type d = int (vs_type v)
     \<and> nul \<in> set (access_type d) \<and> cstr (default_value d) = vs_default v \<and> nul \<in> set (default_value d) \<and> total_subindexes d = 0"

lemma fill_entry_index_var:
  assumes "spec_loads env v" and "data_of v d"
  obtains acc where "fill_entry_index env cell d = Ret (0, var_entry env (cell_extension cell) v, d\<lparr>access_type := acc\<rparr>)" "length acc = 16"
proof -
  obtain val n bits where tv: "type_value env (int (vs_type v)) (vs_default v) = Some (val, n, bits)"
    using assms(1) by (auto simp: spec_loads_def)
  have d: "type_value env (data_type d) (cstr (default_value d)) = Some (val, n, bits)" "data_type d \<noteq> uint OCTET_STRING"
    "nul \<in> set (default_value d)" "nul \<in> set (access_type d)" using assms tv by (simp_all add: data_of_def spec_loads_def)
  obtain acc where "fill_var env d Unset (fresh_byte env) = Ret (0, val, n, fresh_byte env OR bits OR ODA_SDO_RW env, d\<lparr>access_type := acc\<rparr>)"
    "length acc = length (access_type d)" by (rule fill_var_ok [OF d])
  then show ?thesis
    using that [of acc] assms tv by (simp add: fill_entry_index_def data_of_def spec_loads_def data_ok_def var_entry_def Let_def)
qed

text \<open>The built-in entries that go in front of \<open>v\<close>, and those that stay.\<close>

abbreviation "before v \<equiv> takeWhile (\<lambda>i. entry_index i \<le> of_nat (vs_index v))"
abbreviation "behind v \<equiv> dropWhile (\<lambda>i. entry_index i \<le> of_nat (vs_index v))"

lemma uint_index: "vs_index v < 2 ^ 16 \<Longrightarrow> uint (w :: u16) \<le> int (vs_index v) \<longleftrightarrow> w \<le> of_nat (vs_index v)"
proof -
  assume "vs_index v < 2 ^ 16"
  then have "unat (of_nat (vs_index v) :: u16) = vs_index v" by (simp add: unat_of_nat take_bit_nat_eq_self)
  moreover have "uint w \<le> int (vs_index v) \<longleftrightarrow> unat w \<le> vs_index v" by (metis nat_le_iff unat_eq_nat_uint)
  ultimately show ?thesis by (simp add: word_le_nat_alt)
qed

lemma copy_internal_before:
  assumes "ld_list st = Some (front @ rest)" "ld_entry st = Entry_at (of_nat (length front))" "ld_e st = of_nat (length front)"
    and "length (before v is') \<le> length rest" "length front + length rest < 2 ^ 32" "vs_index v < 2 ^ 16"
  shows "copy_internal is' (int (vs_index v)) st =
       Ret (st\<lparr>ld_list := Some (front @ map Some (before v is') @ drop (length (before v is')) rest),
              ld_e := of_nat (length front + length (before v is')),
              ld_entry := Entry_at (of_nat (length front + length (before v is'))), ld_left := behind v is',
              ld_last := (if before v is' = [] then ld_last st else ucast (entry_index (last (before v is'))))\<rparr>)"
proof -
  have "\<forall>i \<in> set (before v is'). uint (entry_index i) \<le> int (vs_index v)"
    using uint_index [OF assms(6)] by (auto dest: set_takeWhileD)
  moreover have "behind v is' = [] \<or> int (vs_index v) < uint (entry_index (hd (behind v is')))"
    using hd_dropWhile [of "\<lambda>i. entry_index i \<le> of_nat (vs_index v)" is'] uint_index [OF assms(6)] by (auto simp: not_le [symmetric])
  ultimately show ?thesis
    using copy_internal_run [OF assms(1-5), of "int (vs_index v)" "behind v is'"] by simp
qed

text \<open>The index of the built-in entry that was merged last is 0 or the index of a built-in entry.\<close>

definition last_ok :: "od_entry list \<Rightarrow> loader \<Rightarrow> bool" where
  "last_ok OD st \<longleftrightarrow> ld_last st = 0 \<or> ld_last st \<in> (\<lambda>i. ucast (entry_index i)) ` set OD"

lemma load_index_var:
  assumes pre_def: "pre = (if ext then before v (ld_left st) else [])"
    and at: "ld_list st = Some (front @ rest)" "ld_e st = of_nat (length front) - 1" "length front + length rest < 2 ^ 32"
    and v: "spec_loads env v" "data_of v (ld_data st)" "of_nat (vs_index v) \<notin> entry_index ` set OD"
    and left: "ext \<Longrightarrow> set (ld_left st) \<subseteq> set OD" "ext \<Longrightarrow> last_ok OD st" "length pre < length rest"
  shows "\<exists>acc x l. length acc = 16 \<and> (ext \<longrightarrow> last_ok OD (st\<lparr>ld_last := l\<rparr>)) \<and> load_index env ext st =
     Ret (True, st\<lparr>ld_list := Some (front @ map Some pre @ Some (var_entry env x v) # drop (length pre + 1) rest),
       ld_e := of_nat (length front + length pre), ld_entry := Entry_at (of_nat (length front + length pre)),
       ld_left := (if ext then behind v (ld_left st) else ld_left st), ld_last := l, ld_sub := 0, ld_data := (ld_data st)\<lparr>access_type := acc\<rparr>\<rparr>)"
proof -
  let ?st0 = "st\<lparr>ld_e := of_nat (length front), ld_entry := Entry_at (of_nat (length front))\<rparr>"
  define l where "l = (if pre = [] then ld_last st else ucast (entry_index (last pre)))"
  let ?st1 = "st\<lparr>ld_list := Some ((front @ map Some pre) @ drop (length pre) rest), ld_e := of_nat (length front + length pre),
      ld_entry := Entry_at (of_nat (length (front @ map Some pre))), ld_left := (if ext then behind v (ld_left st) else ld_left st), ld_last := l\<rparr>"
  have ix: "vs_index v < 2 ^ 16" "vs_index v \<noteq> 0" "tmp_index (ld_data st) = int (vs_index v)"
    using v(1,2) by (simp_all add: spec_loads_def spec_ok_def data_of_def)
  have copy: "(if ext then copy_internal (ld_left ?st0) (tmp_index (ld_data ?st0)) ?st0 else Ret ?st0) = Ret ?st1"
    using copy_internal_before [of ?st0 front rest v "ld_left st"] at left(3) ix by (auto simp: pre_def l_def)
  have l: "last_ok OD (st\<lparr>ld_last := l\<rparr>)" if ext
  proof -
    have "last pre \<in> set OD" if "pre \<noteq> []"
      using last_in_set [OF that] left(1) \<open>ext\<close> by (auto simp: pre_def dest: set_takeWhileD)
    then show ?thesis using left(2) that by (auto simp: last_ok_def l_def)
  qed
  have up: "unat (ucast x :: u32) = unat x" for x :: u16
    using unsigned_less [of x, where ?'a = nat] by (simp add: unsigned_ucast_eq take_bit_nat_eq_self)
  have "unat (of_nat (vs_index v) :: u16) = vs_index v" using ix(1) by (simp add: unat_of_nat take_bit_nat_eq_self)
  then have idx: "(ucast (of_nat (vs_index v) :: u16) :: u32) \<noteq> 0" "ucast (of_nat (vs_index v) :: u16) = (ucast w :: u32) \<Longrightarrow> w = of_nat (vs_index v)"
    for w :: u16
    using ix(2) up unsigned_0 word_eq_iff_unsigned [where ?'a = nat] by metis+
  have new: "\<not> is_internal ext ?st1"
    using l idx v(3) ix(3) by (auto simp: is_internal_def last_ok_def)
  obtain c rest' where c: "drop (length pre) rest = c # rest'" using left(3) by (cases "drop (length pre) rest") auto
  then have rest': "rest' = drop (length pre + 1) rest" by (metis drop_Suc_Cons drop_drop drop0 Suc_eq_plus1 add.commute)
  obtain acc where f: "fill_entry_index env c (ld_data st) = Ret (0, var_entry env (cell_extension c) v, (ld_data st)\<lparr>access_type := acc\<rparr>)"
    "length acc = 16" by (rule fill_entry_index_var [OF v(1,2)])
  have len: "length (front @ map Some pre) < 2 ^ 32" using at(3) left(3) by simp
  have cell: "get_cell ?st1 (ld_entry ?st1) = Ret c"
    "put_cell ?st1 (ld_entry ?st1) e = Ret (?st1\<lparr>ld_list := Some ((front @ map Some pre) @ Some e # rest')\<rparr>)" for e
    using put_cell_at(1) [of ?st1 "front @ map Some pre" c rest'] put_cell_at(2) [of ?st1 "front @ map Some pre" c rest' e] len c by simp_all
  define st1 where "st1 = ?st1"
  have e: "ld_e st + 1 = of_nat (length front)" using at(2) by simp
  have "ld_data st1 = ld_data st" by (simp add: st1_def)
  then have "load_index env ext st = Ret (True, st1\<lparr>ld_list := Some ((front @ map Some pre) @ Some (var_entry env (cell_extension c) v) # rest'),
      ld_data := (ld_data st)\<lparr>access_type := acc\<rparr>, ld_sub := 0\<rparr>)"
    using new cell f(1) unfolding load_index_def Let_def e copy st1_def [symmetric] by simp
  then have "load_index env ext st = Ret (True, ?st1\<lparr>ld_list := Some ((front @ map Some pre) @ Some (var_entry env (cell_extension c) v) # rest'),
      ld_data := (ld_data st)\<lparr>access_type := acc\<rparr>, ld_sub := 0\<rparr>)" by (simp only: st1_def)
  then show ?thesis using l f(2) rest' by (intro exI [of _ acc] exI [of _ "cell_extension c"] exI [of _ l]) (auto simp: Let_def)
qed

lemma cstr_var_line: "spec_ok v \<Longrightarrow> cstr (var_line v) = var_line v \<and> var_line v \<noteq> [] \<and> hd (var_line v) = CHR ''7''"
proof -
  assume v: "spec_ok v"
  have "plain_field (num_string 16 (vs_index v))" "plain_field (num_string 10 (vs_type v))" by (simp_all add: plain_num_string)
  then have "is_cstr (var_line v)" using v by (auto simp: var_line_def is_cstr_def plain_field_def spec_ok_def newline_def nul_def)
  then show ?thesis by (simp add: cstr_id) (simp add: var_line_def)
qed

lemma load_line_var:
  assumes at: "ld_at n st front rest" and v: "spec_loads env v" "of_nat (vs_index v) \<notin> entry_index ` set OD"
    and pre: "pre = (if ext then before v (ld_left st) else [])" "length front + length pre < n"
    and left: "ext \<Longrightarrow> set (ld_left st) \<subseteq> set OD" "ext \<Longrightarrow> last_ok OD st"
  shows "\<exists>x st'. load_line env ext (var_line v) st = Ret (True, st')
    \<and> ld_at n st' (front @ map Some pre @ [Some (var_entry env x v)]) (drop (length pre + 1) rest)
    \<and> ld_left st' = (if ext then behind v (ld_left st) else ld_left st) \<and> (ext \<longrightarrow> last_ok OD st')"
proof -
  have ok: "spec_ok v" using v(1) by (simp add: spec_loads_def)
  have st: "ld_list st = Some (front @ rest)" "ld_e st = of_nat (length front) - 1" "ld_size st = of_nat n" "length front + length rest = n + 1"
    "n < 2 ^ 31" "ld_header st" "ld_comment st" "\<not> ld_line_lost st" "data_ok (ld_data st)" using at by (simp_all add: ld_at_def)
  obtain d0 where d0: "reset_tmp_data (ld_data st) = Ret d0" "data_ok d0" "object_type d0 = 0" "tmp_subindex d0 = -1" "total_subindexes d0 = 0"
    "take 1 (default_value d0) = [nul]"
    using reset_ok [OF st(9)] by metis
  obtain d where d: "csv_fields 0 (split_comma (var_line v)) d0 = Ret d" "data_ok d" "object_type d = VARIABLE" "tmp_index d = int (vs_index v)"
    "tmp_subindex d = -1" "data_type d = int (vs_type v)" "take (length (vs_access v) + 1) (access_type d) = vs_access v @ [nul]"
    "cstr (default_value d) = vs_default v" "nul \<in> set (default_value d)" "length (split_comma (var_line v)) = 6" "total_subindexes d = 0"
    using var_line_fields [OF ok d0(2,3,4,6)] d0(5) by metis
  have "nul \<in> set (access_type d)" using d(7) by (metis in_set_takeD in_set_conv_decomp)
  then have of_v: "data_of v d" using d by (simp add: data_of_def)
  let ?st = "st\<lparr>ld_data := d, ld_line_lost := False\<rparr>"
  have line: "load_line env ext (var_line v) st = load_data env ext ?st"
    using cstr_var_line [OF ok] st(6-8) d0(1) d(1,10) by (simp add: load_line_def newline_def Let_def)
  have len: "length front + length rest < 2 ^ 32" "length pre < length rest" using st(4,5) pre(2) by simp_all
  define st0 where "st0 = ?st"
  have st0: "ld_list st0 = ld_list st" "ld_e st0 = ld_e st" "ld_data st0 = d" "ld_left st0 = ld_left st" "ld_last st0 = ld_last st"
    by (simp_all add: st0_def)
  have "last_ok OD st0" if ext using left(2) [OF that] by (simp add: last_ok_def st0)
  then have "\<exists>acc x l. length acc = 16 \<and> (ext \<longrightarrow> last_ok OD (st0\<lparr>ld_last := l\<rparr>)) \<and> load_index env ext st0 =
     Ret (True, st0\<lparr>ld_list := Some (front @ map Some pre @ Some (var_entry env x v) # drop (length pre + 1) rest),
       ld_e := of_nat (length front + length pre), ld_entry := Entry_at (of_nat (length front + length pre)),
       ld_left := (if ext then behind v (ld_left st0) else ld_left st0), ld_last := l, ld_sub := 0, ld_data := (ld_data st0)\<lparr>access_type := acc\<rparr>\<rparr>)"
    by (intro load_index_var) (use pre(1) st(1,2) len v of_v left(1) st0 in simp_all)
  then obtain acc x l where acc: "length acc = 16" "ext \<longrightarrow> last_ok OD (?st\<lparr>ld_last := l\<rparr>)" and ix: "load_index env ext ?st =
     Ret (True, ?st\<lparr>ld_list := Some (front @ map Some pre @ Some (var_entry env x v) # drop (length pre + 1) rest),
       ld_e := of_nat (length front + length pre), ld_entry := Entry_at (of_nat (length front + length pre)),
       ld_left := (if ext then behind v (ld_left ?st) else ld_left ?st), ld_last := l, ld_sub := 0, ld_data := (ld_data ?st)\<lparr>access_type := acc\<rparr>\<rparr>)"
    unfolding st0_def by blast
  have le: "\<not> of_nat n < (of_nat (length front + length pre) :: u32)"
    using pre(2) st(5) by (simp add: word_less_nat_alt del: of_nat_add)
  define st' where "st' = ?st\<lparr>ld_list := Some (front @ map Some pre @ Some (var_entry env x v) # drop (length pre + 1) rest),
       ld_e := of_nat (length front + length pre), ld_entry := Entry_at (of_nat (length front + length pre)),
       ld_left := (if ext then behind v (ld_left ?st) else ld_left ?st), ld_last := l, ld_sub := 0, ld_data := (ld_data ?st)\<lparr>access_type := acc\<rparr>\<rparr>"
  have "load_data env ext ?st = Ret (True, st')"
    using ix d(5) le st(3) unfolding st'_def [symmetric] load_data_def by (simp add: st'_def)
  moreover have "ld_at n st' (front @ map Some pre @ [Some (var_entry env x v)]) (drop (length pre + 1) rest)"
    using st pre(2) d(2) acc(1) by (simp add: ld_at_def st'_def data_ok_def)
  moreover have "ld_left st' = (if ext then behind v (ld_left st) else ld_left st)" "ext \<longrightarrow> last_ok OD st'"
    using acc(2) by (simp_all add: st'_def last_ok_def)
  ultimately show ?thesis using line by auto
qed

lemma load_lines_vars:
  "ld_at n st front rest \<Longrightarrow> \<forall>v \<in> set vs. spec_loads env v \<and> of_nat (vs_index v) \<notin> entry_index ` set OD \<Longrightarrow>
     left = (if ext then ld_left st else []) \<Longrightarrow> length front + length (od_merge left (map (var_entry env Ext_null) vs)) \<le> n \<Longrightarrow>
     (ext \<Longrightarrow> set (ld_left st) \<subseteq> set OD) \<Longrightarrow> (ext \<Longrightarrow> last_ok OD st) \<Longrightarrow>
     \<exists>st' new. load_lines env ext (map var_line vs) st = Ret (True, st') \<and> ld_at n st' (front @ new) (drop (length new) rest)
       \<and> map (map_option bare) new = map (\<lambda>e. Some (bare e)) (od_merge left (map (var_entry env Ext_null) vs))"
proof (induction vs arbitrary: st front rest left)
  case (Cons v vs)
  let ?pre = "if ext then before v (ld_left st) else []" and ?left = "if ext then behind v (ld_left st) else []"
  have merge: "od_merge left (map (var_entry env Ext_null) (v # vs)) = ?pre @ var_entry env Ext_null v # od_merge ?left (map (var_entry env Ext_null) vs)"
    using Cons.prems(3) by simp
  have "length front + length ?pre < n" using Cons.prems(4) unfolding merge by simp
  then obtain x st1 where 1: "load_line env ext (var_line v) st = Ret (True, st1)"
    "ld_at n st1 (front @ map Some ?pre @ [Some (var_entry env x v)]) (drop (length ?pre + 1) rest)"
    "ld_left st1 = (if ext then behind v (ld_left st) else ld_left st)" "ext \<longrightarrow> last_ok OD st1"
    using load_line_var [OF Cons.prems(1), of env v OD ?pre ext] Cons.prems(2,5,6) by auto
  let ?front = "front @ map Some ?pre @ [Some (var_entry env x v)]"
  have "\<exists>st' new. load_lines env ext (map var_line vs) st1 = Ret (True, st') \<and> ld_at n st' (?front @ new) (drop (length new) (drop (length ?pre + 1) rest))
       \<and> map (map_option bare) new = map (\<lambda>e. Some (bare e)) (od_merge ?left (map (var_entry env Ext_null) vs))"
  proof (rule Cons.IH [OF 1(2)])
    show "\<forall>v \<in> set vs. spec_loads env v \<and> of_nat (vs_index v) \<notin> entry_index ` set OD" using Cons.prems(2) by simp
    show "?left = (if ext then ld_left st1 else [])" using 1(3) by simp
    show "length ?front + length (od_merge ?left (map (var_entry env Ext_null) vs)) \<le> n" using Cons.prems(4) unfolding merge by simp
    show "set (ld_left st1) \<subseteq> set OD" if ext using that 1(3) Cons.prems(5) by (auto dest: set_dropWhileD)
    show "last_ok OD st1" if ext using that 1(4) by blast
  qed
  then obtain st' new where 2: "load_lines env ext (map var_line vs) st1 = Ret (True, st')"
    "ld_at n st' (?front @ new) (drop (length new) (drop (length ?pre + 1) rest))"
    "map (map_option bare) new = map (\<lambda>e. Some (bare e)) (od_merge ?left (map (var_entry env Ext_null) vs))" by blast
  let ?new = "map Some ?pre @ [Some (var_entry env x v)] @ new"
  have "load_lines env ext (map var_line (v # vs)) st = Ret (True, st')" using 1(1) 2(1) by simp
  moreover have "ld_at n st' (front @ ?new) (drop (length ?new) rest)" using 2(2) by (simp add: ac_simps)
  moreover have "map (map_option bare) ?new = map (\<lambda>e. Some (bare e)) (od_merge left (map (var_entry env Ext_null) (v # vs)))"
    unfolding merge using 2(3) by simp
  ultimately show ?case by blast
qed auto

section \<open>A whole table\<close>

text \<open>The file: the number of objects, the header, and one line for each variable.\<close>

definition table_text :: "string \<Rightarrow> var_spec list \<Rightarrow> string" where
  "table_text header vs = OBJECTS_COMMENT @ num_string 10 (length vs) @ [newline] @ header @ [newline] @ concat (map var_line vs)"

definition header_ok :: "string \<Rightarrow> bool" where
  "header_ok h \<longleftrightarrow> h \<noteq> [] \<and> hd h \<noteq> CHR '';'' \<and> newline \<notin> set h \<and> nul \<notin> set h"

lemma getlines_line: "newline \<notin> set w \<Longrightarrow> getlines (w @ newline # r) = (w @ [newline]) # getlines r"
  by (induction w) auto

lemma getlines_var_line: "spec_ok v \<Longrightarrow> getlines (var_line v @ r) = var_line v # getlines r"
proof -
  assume v: "spec_ok v"
  let ?w = "''7,0x'' @ num_string 16 (vs_index v) @ '',,'' @ vs_access v @ '','' @ num_string 10 (vs_type v) @ '','' @ vs_default v"
  have "plain_field (num_string 16 (vs_index v))" "plain_field (num_string 10 (vs_type v))" by (simp_all add: plain_num_string)
  then have "newline \<notin> set ?w" using v by (auto simp: plain_field_def spec_ok_def newline_def)
  then show ?thesis using getlines_line [of ?w r] by (simp add: var_line_def)
qed

lemma getlines_vars: "\<forall>v \<in> set vs. spec_ok v \<Longrightarrow> getlines (concat (map var_line vs)) = map var_line vs"
  by (induction vs) (auto simp: getlines_var_line)

lemma getlines_table:
  assumes "\<forall>v \<in> set vs. spec_ok v" and "header_ok h"
  shows "getlines (table_text h vs) = (OBJECTS_COMMENT @ num_string 10 (length vs) @ [newline]) # (h @ [newline]) # map var_line vs"
proof -
  have "plain_field (num_string 10 (length vs))" by (simp add: plain_num_string)
  then have "newline \<notin> set (OBJECTS_COMMENT @ num_string 10 (length vs))" by (auto simp: plain_field_def OBJECTS_COMMENT_def newline_def)
  then show ?thesis
    using getlines_line [of "OBJECTS_COMMENT @ num_string 10 (length vs)" "h @ newline # concat (map var_line vs)"]
      getlines_line [of h "concat (map var_line vs)"] assms getlines_vars by (simp add: table_text_def header_ok_def)
qed

text \<open>The first two lines: room for the objects, and the header.\<close>

lemma load_comment:
  assumes "\<not> ld_line_lost st" and "data_ok (ld_data st)" and "ld_entry st = Entry_null" and "k < 2 ^ 31"
  obtains d where "load_line env ext (OBJECTS_COMMENT @ num_string 10 k @ [newline]) st =
      Ret (True, st\<lparr>ld_data := d, ld_comment := True, ld_size := ld_size st + of_nat k,
        ld_list := resize_list env (ld_list st) (ld_size st + of_nat k)\<rparr>)" "data_ok d"
proof -
  let ?l = "OBJECTS_COMMENT @ num_string 10 k @ [newline]"
  obtain d where d: "reset_tmp_data (ld_data st) = Ret d" "data_ok d" using reset_ok [OF assms(2)] by metis
  have "plain_field (num_string 10 k)" by (simp add: plain_num_string)
  then have "is_cstr ?l" by (auto simp: is_cstr_def plain_field_def OBJECTS_COMMENT_def newline_def nul_def)
  then have l: "cstr ?l = ?l" by (rule cstr_id)
  have hd: "?l \<noteq> []" "hd ?l = CHR '';''" "has_key OBJECTS_COMMENT ?l" "drop (length OBJECTS_COMMENT) ?l = num_string 10 k @ [newline]"
    by (simp_all add: OBJECTS_COMMENT_def has_key_def strncmp_eq_def)
  have "parse_int_key (num_string 10 k @ [newline]) 0 = Ret (int k)"
    using assms(4) by (intro parse_int_key_decimal) (simp_all add: ends_number_def newline_def digit_val_def)
  then have "load_line env ext ?l st = Ret (True, st\<lparr>ld_data := d, ld_comment := True, ld_size := ld_size st + of_nat k,
        ld_list := resize_list env (ld_list st) (ld_size st + of_nat k)\<rparr>)"
    unfolding load_line_def l using assms(1,3) d(1) hd by (simp add: Let_def)
  then show ?thesis using that d(2) by blast
qed

lemma load_header:
  assumes "\<not> ld_line_lost st" and "data_ok (ld_data st)" and "\<not> ld_header st" and "header_ok h"
  obtains d where "load_line env ext (h @ [newline]) st = Ret (True, st\<lparr>ld_data := d, ld_header := True\<rparr>)" "data_ok d"
proof -
  obtain d where d: "reset_tmp_data (ld_data st) = Ret d" "data_ok d" using reset_ok [OF assms(2)] by metis
  have "is_cstr (h @ [newline])" using assms(4) by (auto simp: is_cstr_def header_ok_def newline_def nul_def)
  then have l: "cstr (h @ [newline]) = h @ [newline]" by (rule cstr_id)
  have "hd (h @ [newline]) \<noteq> newline" "hd (h @ [newline]) \<noteq> CHR '';''" using assms(4) by (cases h; auto simp: header_ok_def)+
  then have "load_line env ext (h @ [newline]) st = Ret (True, st\<lparr>ld_data := d, ld_header := True\<rparr>)"
    unfolding load_line_def l using assms(1,3) d(1) by (simp add: Let_def)
  then show ?thesis using that d(2) by blast
qed

text \<open>The memory of the list before the first entry is stored.\<close>

definition fresh_list :: "'x ld_env_scheme \<Rightarrow> bool \<Rightarrow> od_entry list \<Rightarrow> nat \<Rightarrow> od_entry option list" where
  "fresh_list env ext OD k = (if ext then start_list env OD @ replicate k None else replicate (k + 1) None)"

abbreviation own_count :: "bool \<Rightarrow> od_entry list \<Rightarrow> nat" where
  "own_count ext OD \<equiv> if ext then length OD else 0"

lemma resize_fresh:
  assumes "own_count ext OD + k < 2 ^ 31" and "malloc_ok env (sizeof_entry env * (own_count ext OD + k + 1))"
  shows "resize_list env (if ext then Some (start_list env OD) else None) (of_nat (own_count ext OD) + of_nat k) = Some (fresh_list env ext OD k)"
proof -
  have "of_nat (own_count ext OD) + of_nat k + 1 = (of_nat (own_count ext OD + k + 1) :: u32)" by simp
  moreover have "unat (of_nat (own_count ext OD + k + 1) :: u32) = own_count ext OD + k + 1" using assms(1) by (intro unat_u32) simp
  ultimately have "unat (of_nat (own_count ext OD) + of_nat k + 1 :: u32) = own_count ext OD + k + 1" by presburger
  then show ?thesis unfolding resize_list_def fresh_list_def using assms(2) by (simp add: Let_def start_list_def)
qed

lemma length_od_merge: "length (od_merge is' cs) \<le> length is' + length cs"
proof (induction cs arbitrary: is')
  case (Cons c cs)
  let ?P = "\<lambda>i. entry_index i \<le> entry_index c"
  have "length (takeWhile ?P is') + length (dropWhile ?P is') = length is'" by (metis length_append takeWhile_dropWhile_id)
  then show ?case using Cons [of "dropWhile ?P is'"] by simp
qed simp

lemma load_table:
  assumes vs: "\<forall>v \<in> set vs. spec_loads env v \<and> of_nat (vs_index v) \<notin> entry_index ` set OD"
    and h: "header_ok h" "data_ok data"
    and n: "n = own_count ext OD + length vs" "n < 2 ^ 31" "malloc_ok env (sizeof_entry env * (n + 1))"
    and st: "st = start_loader (if ext then Some (start_list env OD) else None) (own_count ext OD) OD data"
    and merged: "merged = od_merge (if ext then OD else []) (map (var_entry env Ext_null) vs)"
  shows "\<exists>st' new. load_lines env ext (getlines (table_text h vs)) st = Ret (True, st') \<and> ld_comment st' \<and> ld_size st' = of_nat n
    \<and> ld_list st' = Some (new @ drop (length new) (fresh_list env ext OD (length vs)))
    \<and> map (map_option bare) new = map (\<lambda>e. Some (bare e)) merged"
proof -
  let ?k = "length vs"
  have s: "\<not> ld_line_lost st" "data_ok (ld_data st)" "ld_entry st = Entry_null" "\<not> ld_header st" "ld_left st = OD" "ld_last st = 0"
    "ld_e st = -1" "ld_size st = of_nat (own_count ext OD)" "ld_list st = (if ext then Some (start_list env OD) else None)"
    using st h(2) by (simp_all add: start_loader_def)
  have "?k < 2 ^ 31" using n by simp
  then obtain d1 where l1: "load_line env ext (OBJECTS_COMMENT @ num_string 10 ?k @ [newline]) st =
      Ret (True, st\<lparr>ld_data := d1, ld_comment := True, ld_size := ld_size st + of_nat ?k,
        ld_list := resize_list env (ld_list st) (ld_size st + of_nat ?k)\<rparr>)" "data_ok d1" by (rule load_comment [OF s(1-3)])
  define st1 where "st1 = st\<lparr>ld_data := d1, ld_comment := True, ld_size := ld_size st + of_nat ?k,
      ld_list := resize_list env (ld_list st) (ld_size st + of_nat ?k)\<rparr>"
  have "resize_list env (ld_list st) (ld_size st + of_nat ?k) = Some (fresh_list env ext OD ?k)"
    unfolding s(8,9) by (rule resize_fresh) (use n in simp_all)
  then have s1: "\<not> ld_line_lost st1" "data_ok (ld_data st1)" "\<not> ld_header st1" "ld_left st1 = OD" "ld_last st1 = 0" "ld_e st1 = -1"
    "ld_size st1 = of_nat n" "ld_list st1 = Some (fresh_list env ext OD ?k)" "ld_comment st1"
    using s(1,4-8) l1(2) n(1) by (simp_all add: st1_def)
  obtain d2 where l2: "load_line env ext (h @ [newline]) st1 = Ret (True, st1\<lparr>ld_data := d2, ld_header := True\<rparr>)" "data_ok d2"
    by (rule load_header [OF s1(1-3) h(1)])
  define st2 where "st2 = st1\<lparr>ld_data := d2, ld_header := True\<rparr>"
  have "length (fresh_list env ext OD ?k) = n + 1" by (simp add: fresh_list_def start_list_def n(1))
  then have at: "ld_at n st2 [] (fresh_list env ext OD ?k)" using s1 l2(2) n(2) by (simp add: ld_at_def st2_def)
  have s2: "ld_left st2 = OD" "last_ok OD st2" using s1 by (simp_all add: st2_def last_ok_def)
  have "length merged \<le> n" unfolding merged n(1) using length_od_merge [of "if ext then OD else []" "map (var_entry env Ext_null) vs"] by auto
  then have "\<exists>st' new. load_lines env ext (map var_line vs) st2 = Ret (True, st') \<and> ld_at n st' ([] @ new) (drop (length new) (fresh_list env ext OD ?k))
       \<and> map (map_option bare) new = map (\<lambda>e. Some (bare e)) merged"
    unfolding merged by (intro load_lines_vars [OF at vs]) (use s2 in simp_all)
  then obtain st' new where l: "load_lines env ext (map var_line vs) st2 = Ret (True, st')" "ld_at n st' new (drop (length new) (fresh_list env ext OD ?k))"
    "map (map_option bare) new = map (\<lambda>e. Some (bare e)) merged" by auto
  have "\<forall>v \<in> set vs. spec_ok v" using vs by (simp add: spec_loads_def)
  then have "load_lines env ext (getlines (table_text h vs)) st = Ret (True, st')"
    using getlines_table [OF _ h(1)] l1(1) l2(1) l(1) by (simp add: st1_def [symmetric] st2_def [symmetric])
  then show ?thesis using l by (auto simp: ld_at_def)
qed

lemma od_config_load_table:
  assumes "\<forall>v \<in> set vs. spec_loads env v \<and> of_nat (vs_index v) \<notin> entry_index ` set OD"
    and "header_ok header" and "data_ok data"
    and "fs_open_rd fs path = Inr (File (bytes_of_string (table_text header vs)))"
    and "n = own_count ext OD + length vs" and "n < 2 ^ 31"
    and "\<forall>b. malloc_ok env b"
    and "merged = od_merge (if ext then OD else []) (map (var_entry env Ext_null) vs)"
  shows "\<exists>new. od_config_load env OD data (Some path) fs ext =
      Ret (0, Some \<lparr>od_list = Some (new @ drop (length merged) (fresh_list env ext OD (length vs))), od_size = of_nat n\<rparr>, [])
    \<and> map (map_option bare) new = map (\<lambda>e. Some (bare e)) merged"
proof -
  define st where "st = start_loader (if ext then Some (start_list env OD) else None) (own_count ext OD) OD data"
  obtain st' new where l: "load_lines env ext (getlines (table_text header vs)) st = Ret (True, st')" "ld_comment st'" "ld_size st' = of_nat n"
    "ld_list st' = Some (new @ drop (length new) (fresh_list env ext OD (length vs)))"
    and new: "map (map_option bare) new = map (\<lambda>e. Some (bare e)) merged"
    using load_table [OF assms(1-3,5,6) _ st_def assms(8)] assms(7) by blast
  have "length new = length merged" using arg_cong [OF new, of length] by simp
  then have "od_config_load env OD data (Some path) fs ext =
      Ret (0, Some \<lparr>od_list = Some (new @ drop (length merged) (fresh_list env ext OD (length vs))), od_size = of_nat n\<rparr>, [])"
    using l assms(4,7) unfolding od_config_load_def by (simp add: text_of_def Let_def st_def [symmetric])
  then show ?thesis using new by blast
qed

text \<open>
  C10: a table of variables is merged with the built-in dictionary. The file names the number of its objects and has a header; its variables
  have types and defaults the loader accepts, and indexes that are not built in. Then the loader succeeds, and the list holds, in order, the
  variables of the table, each after the built-in entries up to its index, as \<open>od_merge\<close> says, but for the pointers to their extensions.
  Without extension of the built-in dictionary it holds the variables alone. The size counts all objects, and the cells behind the last
  variable of the table are those of the fresh memory: built-in entries behind it are not in the list.
\<close>

theorem od_config_load_merges:
  assumes "\<forall>v \<in> set vs. spec_loads env v \<and> of_nat (vs_index v) \<notin> entry_index ` set OD"
    and "header_ok header" and "data_ok data"
    and "fs_open_rd fs path = Inr (File (bytes_of_string (table_text header vs)))"
    and "n = own_count ext OD + length vs" and "n < 2 ^ 31"
    and "\<forall>b. malloc_ok env b"
    and "merged = od_merge (if ext then OD else []) (map (var_entry env Ext_null) vs)"
  shows "\<exists>new. od_config_load env OD data (Some path) fs ext =
      Ret (0, Some \<lparr>od_list = Some (new @ drop (length merged) (fresh_list env ext OD (length vs))), od_size = of_nat n\<rparr>, [])
    \<and> map (map_option bare) new = map (\<lambda>e. Some (bare e)) merged"
  by (rule od_config_load_table [OF assms])

text \<open>Order of the merged list.\<close>

abbreviation by_index :: "od_entry list \<Rightarrow> bool" where
  "by_index es \<equiv> sorted_wrt (\<lambda>a b. entry_index a < entry_index b) es"

lemma by_index_split:
  fixes c :: od_entry
  assumes "by_index is'"
  defines "P \<equiv> \<lambda>i. entry_index i \<le> entry_index c"
  shows "by_index (takeWhile P is')" and "by_index (dropWhile P is')" and "set is' = set (takeWhile P is') \<union> set (dropWhile P is')"
    and "i \<in> set (takeWhile P is') \<Longrightarrow> entry_index i \<le> entry_index c" and "j \<in> set (dropWhile P is') \<Longrightarrow> entry_index c < entry_index j"
proof -
  have "by_index (takeWhile P is' @ dropWhile P is')" using assms(1) by simp
  then show "by_index (takeWhile P is')" and d: "by_index (dropWhile P is')" unfolding sorted_wrt_append by blast+
  show "set is' = set (takeWhile P is') \<union> set (dropWhile P is')" by (metis set_append takeWhile_dropWhile_id)
  show "i \<in> set (takeWhile P is') \<Longrightarrow> entry_index i \<le> entry_index c" by (auto dest: set_takeWhileD simp: P_def)
  show "entry_index c < entry_index j" if j: "j \<in> set (dropWhile P is')"
  proof (cases "dropWhile P is'")
    case (Cons a as)
    then have "\<not> P a" using hd_dropWhile [of P is'] by simp
    then have "entry_index c < entry_index a" by (simp add: P_def not_le)
    moreover have "j = a \<or> entry_index a < entry_index j" using d j Cons by auto
    ultimately show ?thesis by (elim disjE) (simp, rule less_trans)
  qed (use j in \<open>simp del: dropWhile_eq_Nil_conv\<close>)
qed

lemma od_merge_set:
  "by_index cs \<Longrightarrow> cs \<noteq> [] \<Longrightarrow> by_index is' \<Longrightarrow>
     set (od_merge is' cs) = set cs \<union> {i \<in> set is'. entry_index i \<le> entry_index (last cs)}"
proof (induction cs arbitrary: is')
  case (Cons c cs)
  define t d where "t = takeWhile (\<lambda>i. entry_index i \<le> entry_index c) is'" and "d = dropWhile (\<lambda>i. entry_index i \<le> entry_index c) is'"
  note parts = by_index_split [OF Cons.prems(3), where c = c, folded t_def d_def]
  show ?case
  proof (cases "cs = []")
    case True
    have "{i \<in> set t \<union> set d. entry_index i \<le> entry_index c} = set t" using parts(4,5) by (auto simp: not_le [symmetric])
    then show ?thesis unfolding parts(3) using True by (simp add: t_def Un_commute)
  next
    case False
    then have "entry_index c < entry_index (last cs)" using Cons.prems(1) by simp
    then have before: "entry_index i \<le> entry_index (last cs)" if "i \<in> set t" for i
      using order_trans [OF parts(4) [OF that], of "entry_index (last cs)"] by simp
    have "set (od_merge d cs) = set cs \<union> {i \<in> set d. entry_index i \<le> entry_index (last cs)}"
      by (rule Cons.IH [OF _ False parts(2)]) (use Cons.prems(1) in simp)
    then have "set (od_merge is' (c # cs)) = set t \<union> insert c (set cs \<union> {i \<in> set d. entry_index i \<le> entry_index (last cs)})"
      by (simp add: t_def d_def)
    also have "\<dots> = insert c (set cs) \<union> {i \<in> set t \<union> set d. entry_index i \<le> entry_index (last cs)}"
      using before by blast
    finally show ?thesis unfolding parts(3) using False by simp
  qed
qed simp

lemma od_merge_sorted:
  "by_index cs \<Longrightarrow> by_index is' \<Longrightarrow> entry_index ` set cs \<inter> entry_index ` set is' = {} \<Longrightarrow> by_index (od_merge is' cs)"
proof (induction cs arbitrary: is')
  case (Cons c cs)
  define t d where "t = takeWhile (\<lambda>i. entry_index i \<le> entry_index c) is'" and "d = dropWhile (\<lambda>i. entry_index i \<le> entry_index c) is'"
  note parts = by_index_split [OF Cons.prems(2), where c = c, folded t_def d_def]
  have t: "entry_index i < entry_index c" if "i \<in> set t" for i
  proof -
    have "entry_index i \<in> entry_index ` set is'" using that parts(3) by blast
    then have "entry_index i \<noteq> entry_index c" using Cons.prems(3) by (metis disjoint_iff image_eqI list.set_intros(1))
    then show ?thesis using parts(4) [OF that] by simp
  qed
  have "set (od_merge d cs) \<subseteq> set cs \<union> set d"
    using Cons.prems(1) od_merge_set [OF _ _ parts(2), of cs] by (cases "cs = []") auto
  then have m: "entry_index c < entry_index x" if "x \<in> set (od_merge d cs)" for x using that parts(5) Cons.prems(1) by auto
  have "entry_index ` set cs \<inter> entry_index ` set d = {}"
    using Cons.prems(3) unfolding parts(3) by (simp add: image_Un Int_Un_distrib)
  then have "by_index (od_merge d cs)" using Cons.prems(1) by (intro Cons.IH parts(2)) simp_all
  moreover have "entry_index i < entry_index x" if "i \<in> set t" "x \<in> set (od_merge d cs)" for i x
    using less_trans [OF t [OF that(1)] m [OF that(2)]] .
  ultimately show ?case using parts(1) t m by (simp add: sorted_wrt_append t_def [symmetric] d_def [symmetric])
qed simp

lemma entry_index_bare [simp]: "entry_index (bare e) = entry_index e"
  by (simp add: bare_def)

lemma bare_cells:
  assumes "map (map_option bare) new = map (\<lambda>e. Some (bare e)) es"
  obtains fs where "new = map Some fs" "map bare fs = map bare es"
proof -
  have "\<exists>fs. new = map Some fs \<and> map bare fs = map bare es" using assms
  proof (induction new arbitrary: es)
    case (Cons c new)
    then obtain e es' where "es = e # es'" by (cases es) auto
    then show ?case using Cons.IH [of es'] Cons.prems by (cases c) (auto intro: exI [of _ "x # y" for x y])
  qed simp
  then show ?thesis using that by blast
qed

lemma indexes_bare: "map bare fs = map bare es \<Longrightarrow> map entry_index fs = map entry_index es"
proof -
  assume "map bare fs = map bare es"
  then have "map (entry_index \<circ> bare) fs = map (entry_index \<circ> bare) es" by (metis map_map)
  then show ?thesis by (simp add: comp_def)
qed

text \<open>
  C19: order of the loaded dictionary. When the built-in dictionary and the table are sorted by their indexes, the entries of the list are, up to the
  last variable of the table: that is what the search of the stack relies on. Every variable of the table can be found in it, and of
  the built-in entries exactly those whose index is below that of the last variable.
\<close>

theorem od_config_load_sorted:
  assumes "\<forall>v \<in> set vs. spec_loads env v \<and> of_nat (vs_index v) \<notin> entry_index ` set OD"
    and "header_ok header" and "data_ok data"
    and "fs_open_rd fs path = Inr (File (bytes_of_string (table_text header vs)))"
    and "length OD + length vs < 2 ^ 31" and "\<forall>b. malloc_ok env b"
    and "by_index OD" and "sorted_wrt (<) (map vs_index vs)" and "vs \<noteq> []"
  shows "\<exists>entries rest. od_config_load env OD data (Some path) fs True =
      Ret (0, Some \<lparr>od_list = Some (map Some entries @ rest), od_size = of_nat (length OD + length vs)\<rparr>, [])
    \<and> by_index entries
    \<and> entry_index ` set entries = of_nat ` vs_index ` set vs \<union> {x \<in> entry_index ` set OD. x < of_nat (vs_index (last vs))}"
proof -
  let ?cs = "map (var_entry env Ext_null) vs"
  obtain new where load: "od_config_load env OD data (Some path) fs True =
      Ret (0, Some \<lparr>od_list = Some (new @ drop (length (od_merge OD ?cs)) (fresh_list env True OD (length vs))), od_size = of_nat (length OD + length vs)\<rparr>, [])"
    and new: "map (map_option bare) new = map (\<lambda>e. Some (bare e)) (od_merge OD ?cs)"
    using od_config_load_table [OF assms(1-4) refl, of True "od_merge OD ?cs"] assms(5,6) by auto
  obtain es where es: "new = map Some es" "map bare es = map bare (od_merge OD ?cs)" by (rule bare_cells [OF new])
  note ix = indexes_bare [OF es(2)]
  have small: "\<forall>v \<in> set vs. vs_index v < 2 ^ 16" using assms(1) by (simp add: spec_loads_def spec_ok_def)
  have less: "(of_nat a :: u16) < of_nat b" if "a < b" "b < 2 ^ 16" for a b
    using that by (simp add: word_less_nat_alt unat_of_nat take_bit_nat_eq_self)
  have "by_index ?cs"
    using assms(8) less small unfolding sorted_wrt_map by (auto intro: sorted_wrt_mono_rel [rotated])
  moreover have "entry_index ` set ?cs \<inter> entry_index ` set OD = {}" using assms(1) by auto
  ultimately have merged: "by_index (od_merge OD ?cs)" and "set (od_merge OD ?cs) = set ?cs \<union> {i \<in> set OD. entry_index i \<le> entry_index (last ?cs)}"
    using od_merge_sorted [OF _ assms(7), of ?cs] od_merge_set [OF _ _ assms(7), of ?cs] assms(9) by simp_all
  then have "entry_index ` set (od_merge OD ?cs) = of_nat ` vs_index ` set vs \<union> {x \<in> entry_index ` set OD. x \<le> of_nat (vs_index (last vs))}"
    using assms(9) by (simp add: image_Un image_image last_map) blast
  moreover have "x \<noteq> of_nat (vs_index (last vs))" if "x \<in> entry_index ` set OD" for x
    using assms(1,9) that last_in_set [of vs] by blast
  ultimately have "entry_index ` set es = of_nat ` vs_index ` set vs \<union> {x \<in> entry_index ` set OD. x < of_nat (vs_index (last vs))}"
    using arg_cong [OF ix, of set] by (auto simp: order_le_less)
  moreover have "by_index es" using merged ix by (metis sorted_wrt_map)
  ultimately show ?thesis using load es(1) by blast
qed

section \<open>Releasing a dictionary\<close>

text \<open>The number of the entry whose memory an action releases.\<close>

fun freed_entry :: "freed \<Rightarrow> nat option" where
  "freed_entry (Free_data i) = Some i"
| "freed_entry (Free_data0 i) = Some i"
| "freed_entry (Free_sub i j) = Some i"
| "freed_entry (Free_rec i) = Some i"
| "freed_entry Free_list = None"
| "freed_entry Free_od = None"

lemma free_ptr_entry: "free_ptr p f = Ret fs \<Longrightarrow> g \<in> set fs \<Longrightarrow> g = f"
  by (auto simp: free_ptr_def split: ptr.splits)

lemma free_subs_entry: "free_subs i j rs = Ret fs \<Longrightarrow> g \<in> set fs \<Longrightarrow> freed_entry g = Some i"
proof (induction rs arbitrary: j fs)
  case (Cons r rs)
  then obtain f fs' where "free_ptr (var_data r) (Free_sub i j) = Ret f" "free_subs i (Suc j) rs = Ret fs'" "fs = f @ fs'"
    by (auto simp: bind_outcome_Ret_iff)
  then show ?case using Cons.IH Cons.prems(2) by (auto dest: free_ptr_entry)
qed simp

lemma free_entry_entry: "free_entry i e = Ret fs \<Longrightarrow> g \<in> set fs \<Longrightarrow> freed_entry g = Some i"
  unfolding free_entry_def
  by (auto simp: bind_outcome_Ret_iff split: option.splits od_type.splits od_object.splits if_splits
      dest!: free_ptr_entry dest: free_subs_entry)

lemma free_entries_own:
  "free_entries OD ext i cells = Ret fs \<Longrightarrow> g \<in> set fs \<Longrightarrow>
     \<exists>k e. freed_entry g = Some (i + k) \<and> k < length cells \<and> cells ! k = Some e \<and> \<not> (ext \<and> entry_index e \<in> entry_index ` set OD)"
proof (induction cells arbitrary: i fs)
  case (Cons c cells)
  then obtain e where c: "c = Some e" "entry_index e \<noteq> 0" by (cases c) (auto split: if_splits)
  show ?case
  proof (cases "entry_object e = Obj_null \<or> ext \<and> entry_index e \<in> entry_index ` set OD")
    case True
    then obtain k e' where "freed_entry g = Some (Suc i + k)" "k < length cells" "cells ! k = Some e'" "\<not> (ext \<and> entry_index e' \<in> entry_index ` set OD)"
      using Cons.IH [of "Suc i" fs] Cons.prems c by auto
    then show ?thesis by (intro exI [of _ "Suc k"] exI [of _ e']) simp
  next
    case False
    then obtain f fs' where f: "free_entry i e = Ret f" "free_entries OD ext (Suc i) cells = Ret fs'" "fs = f @ fs'"
      using Cons.prems(1) c by (auto simp: bind_outcome_Ret_iff)
    show ?thesis
    proof (cases "g \<in> set f")
      case True
      then have "freed_entry g = Some i" using free_entry_entry f(1) by blast
      then show ?thesis using False c by (intro exI [of _ 0] exI [of _ e]) auto
    next
      case g: False
      then obtain k e' where "freed_entry g = Some (Suc i + k)" "k < length cells" "cells ! k = Some e'" "\<not> (ext \<and> entry_index e' \<in> entry_index ` set OD)"
        using Cons.IH [OF f(2)] Cons.prems(2) f(3) by auto
      then show ?thesis by (intro exI [of _ "Suc k"] exI [of _ e']) simp
    qed
  qed
qed simp

text \<open>
  Releasing an extended dictionary releases memory of entries of the table only: no entry with the index of a built-in one is touched.
\<close>

lemma od_config_free_spares_internal:
  assumes "od_config_free OD (Some od) True = Ret fs" and "g \<in> set fs" and "freed_entry g = Some i"
  shows "\<exists>cells e. od_list od = Some cells \<and> i < length cells \<and> cells ! i = Some e \<and> entry_index e \<notin> entry_index ` set OD"
proof (cases "od_list od")
  case None
  then show ?thesis using assms by (auto simp: od_config_free_def)
next
  case (Some cells)
  then obtain fs' where "free_entries OD True 0 cells = Ret fs'" "g \<in> set fs'"
    using assms by (auto simp: od_config_free_def bind_outcome_Ret_iff)
  from free_entries_own [OF this] show ?thesis using Some assms(3) by auto
qed

lemma type_value_set: "type_value env t s = Some (v, n, bits) \<Longrightarrow> t \<noteq> uint OCTET_STRING \<Longrightarrow> v \<noteq> Unset"
  by (auto simp: type_value_def fill_var_value_def ptr_of_def Let_def split: outcome.splits option.splits if_splits)

lemma free_entry_var:
  assumes "spec_loads env v" and "bare e = var_entry env Ext_null v"
  shows "\<exists>f. free_entry i e = Ret f" and "entry_index e \<noteq> 0"
proof -
  obtain val n bits where tv: "type_value env (int (vs_type v)) (vs_default v) = Some (val, n, bits)" using assms(1) by (auto simp: spec_loads_def)
  obtain x where e: "e = var_entry env x v"
    using assms(2) tv by (cases e) (auto simp: bare_def var_entry_def intro: that [of "entry_extension e"])
  show "\<exists>f. free_entry i e = Ret f"
    using tv type_value_set [OF tv] assms(1) by (cases val) (auto simp: e free_entry_def var_entry_def free_ptr_def spec_loads_def)
  have "unat (of_nat (vs_index v) :: u16) \<noteq> 0"
    using assms(1) by (simp add: spec_loads_def spec_ok_def unat_of_nat take_bit_nat_eq_self)
  then show "entry_index e \<noteq> 0" by (auto simp: e)
qed

lemma free_entries_unset:
  "map bare es = map (var_entry env Ext_null) vs \<Longrightarrow> \<forall>v \<in> set vs. spec_loads env v \<Longrightarrow>
     free_entries OD False i (map Some es @ None # rest) = Fault Uninitialised"
proof (induction es arbitrary: i vs)
  case (Cons e es)
  then obtain v vs' where vs: "vs = v # vs'" "bare e = var_entry env Ext_null v" "map bare es = map (var_entry env Ext_null) vs'" by auto
  then obtain f where "free_entry i e = Ret f" "entry_index e \<noteq> 0" using free_entry_var [of env v e] Cons.prems(2) by auto
  then show ?case using Cons.IH [OF vs(3), of "Suc i"] Cons.prems(2) vs(1) by simp
qed simp

text \<open>
  A dictionary that was loaded on its own has no end mark. The loop that releases it looks for an entry with index 0, but the cell behind the last
  entry is memory nobody has written, so that the release reads an indeterminate value after all entries are done.
\<close>

lemma od_config_free_reads_unset:
  assumes "\<forall>v \<in> set vs. spec_loads env v" and "header_ok header" and "data_ok data"
    and "fs_open_rd fs path = Inr (File (bytes_of_string (table_text header vs)))"
    and "length vs < 2 ^ 31" and "\<forall>b. malloc_ok env b"
  shows "\<exists>od. od_config_load env [] data (Some path) fs False = Ret (0, Some od, []) \<and> od_size od = of_nat (length vs)
    \<and> od_config_free [] (Some od) False = Fault Uninitialised"
proof -
  let ?cs = "map (var_entry env Ext_null) vs"
  have m: "od_merge [] cs = cs" for cs by (induction cs) auto
  obtain new where load: "od_config_load env [] data (Some path) fs False =
      Ret (0, Some \<lparr>od_list = Some (new @ drop (length ?cs) (fresh_list env False [] (length vs))), od_size = of_nat (length vs)\<rparr>, [])"
    and new: "map (map_option bare) new = map (\<lambda>e. Some (bare e)) ?cs"
    using od_config_load_table [of vs env "[]" header data fs path "length vs" False ?cs] assms m by auto
  obtain es where es: "new = map Some es" "map bare es = map bare ?cs" by (rule bare_cells [OF new])
  have "new @ drop (length ?cs) (fresh_list env False [] (length vs)) = map Some es @ None # []" by (simp add: es fresh_list_def replicate_append_same [symmetric])
  moreover have "map bare ?cs = ?cs" by simp
  ultimately show ?thesis
    using load free_entries_unset [of es env vs "[]" 0 "[]"] assms(1) es(2) by (simp add: od_config_free_def)
qed

section \<open>Arrays and octet strings\<close>

text \<open>
  An element of an array of numbers. The lines of an array count its elements from the line of the number of elements, so that element \<open>k\<close> is
  stored at position \<open>k\<close> instead of \<open>k - 1\<close>: inside the block for all but the last element, which is written behind the end of the memory.
\<close>

lemma array_element_position:
  assumes "entry_type entry = Some ODT_ARR" and "entry_object entry = Obj_arr arr" and "arr_data arr = Arr_values d"
    and "tmp_subindex data \<noteq> 0" and "\<not> is_text_type (data_type data)"
    and "type_value env (data_type data) (cstr (default_value data)) = Some (Block b, n, bits)" and "length b = n" and "0 < n"
    and "nul \<in> set (default_value data)" and "nul \<in> set (access_type data)"
    and "uint (entry_subCount entry) = int count + 1" and "length d = count * n" and "count * n < 256" and "k \<le> count"
  shows "if k < count
     then \<exists>acc. fill_entry_subindex env entry data k =
        Ret (0, entry\<lparr>entry_object := Obj_arr (arr\<lparr>arr_data := Arr_values (take (k * n) d @ b @ drop (k * n + n) d),
               arr_attribute := arr_attribute arr OR bits OR ODA_SDO_RW env, arr_elementLength := n, arr_elementSizeof := n\<rparr>)\<rparr>,
             data\<lparr>access_type := acc\<rparr>)
     else fill_entry_subindex env entry data k = Fault Out_of_bounds"
proof -
  have t: "data_type data \<noteq> uint OCTET_STRING" "data_type data \<noteq> uint VISIBLE_STRING" "data_type data \<noteq> uint DOMAIN"
    using assms(5) by (auto simp: is_text_type_def)
  obtain acc where v: "fill_var env data Null (arr_attribute arr) = Ret (0, Block b, n, arr_attribute arr OR bits OR ODA_SDO_RW env, data\<lparr>access_type := acc\<rparr>)"
    by (rule fill_var_ok [OF assms(6) t(1) assms(9,10)])
  have off: "n * k mod 256 = n * k"
    using le_less_trans [OF mult_le_mono1 [OF assms(14), of n] assms(13)] by (intro mod_less) (simp only: mult.commute)
  have f: "fill_arr_value env (int count) data k arr = bind_outcome (poke d (n * k) b) (\<lambda>d'.
      Ret (0, arr\<lparr>arr_attribute := arr_attribute arr OR bits OR ODA_SDO_RW env, arr_elementSizeof := n, arr_data := Arr_values d', arr_elementLength := n\<rparr>,
           data\<lparr>access_type := acc\<rparr>))"
    unfolding fill_arr_value_def using v assms(3,7) off by (simp add: Let_def)
  have "k * n + n \<le> count * n" if "k < count" using mult_le_mono1 [of "Suc k" count n] that by simp
  moreover have "fill_entry_subindex env entry data k = bind_outcome (fill_arr_value env (int count) data k arr) (\<lambda>(r, arr1, data1).
      Ret (r, entry\<lparr>entry_object := Obj_arr arr1\<rparr>, data1))"
    unfolding fill_entry_subindex_def using assms(1,2,4,11) t by simp
  ultimately show ?thesis using f assms(7,8,12,14) by (auto simp: poke_def mult.commute)
qed

text \<open>
  The default of an octet string is lost. The loader overwrites the text before it converts it, and what is left has an odd number of digits:
  the variable gets no value and the length 0, whatever default the table gives, and the loader reports success.
\<close>

lemma octet_string_default_lost:
  assumes "data_type data = uint OCTET_STRING" and "cstr (default_value data) \<noteq> []"
    and "nul \<in> set (default_value data)" and "nul \<in> set (access_type data)"
  shows "\<exists>acc dflt. fill_var env data v0 a = Ret (0, Null, 0, a OR ODA_STR env OR ODA_SDO_RW env, data\<lparr>access_type := acc, default_value := dflt\<rparr>)
    \<and> cstr dflt = ''0''"
proof -
  let ?dv = "default_value data"
  obtain acc where acc: "get_access_attr env (access_type data) = Ret (ODA_SDO_RW env, acc)"
    using get_access_attr_rw [OF assms(4)] by blast
  have len: "0 < length (cstr ?dv)" "length (cstr ?dv) + 1 \<le> length ?dv"
    using assms(2) length_cstr_less [OF assms(3)] by auto
  define m where "m = length (cstr ?dv) - 1"
  have prefix: "take (length (cstr ?dv) + 1) (''0'' @ replicate (length (cstr ?dv) + 1) nul) = ''0'' @ nul # replicate m nul"
    using len(1) by (cases "length (cstr ?dv)") (auto simp: m_def replicate_append_same [symmetric])
  define dflt where "dflt = ''0'' @ nul # replicate m nul @ drop (length (cstr ?dv) + 1) ?dv"
  have "cstr (''0'' @ nul # (replicate m nul @ drop (length (cstr ?dv) + 1) ?dv)) = ''0''" by (rule cstr_terminated) (simp add: is_cstr_def nul_def)
  then have c: "cstr dflt = ''0''" "nul \<in> set dflt" unfolding dflt_def by simp_all
  have s: "strncpy ?dv ''0'' (length (cstr ?dv) + 1) = Ret dflt"
    unfolding strncpy_def prefix using len by (simp add: poke_def dflt_def m_def)
  have "fill_var_value env data (cstr ?dv) = Ret (Some (Null, 0, ODA_STR env, dflt))"
    unfolding fill_var_value_def using assms(1) s c
    by (simp add: numeric_value_def dtype_defs read_cstr_def str2buf_bytes_def ptr_of_def Let_def)
  then have "fill_var env data v0 a = Ret (0, Null, 0, a OR ODA_STR env OR ODA_SDO_RW env, data\<lparr>access_type := acc, default_value := dflt\<rparr>)"
    using assms(1,3) acc by (simp add: fill_var_def read_cstr_def is_text_type_def or.assoc)
  then show ?thesis using c(1) by blast
qed

section \<open>Settings of the node\<close>

text \<open>A file with the settings the daemon is to run with.\<close>

definition node_text :: "string \<Rightarrow> nat \<Rightarrow> string" where
  "node_text interface nid = ''[Node]'' @ [newline] @ ''CanInterface='' @ interface @ [newline] @ ''NodeId=0x'' @ num_string 16 nid @ [newline]"

lemma getlines_node_text:
  assumes "plain_field interface"
  shows "getlines (node_text interface nid) =
     [''[Node]'' @ [newline], ''CanInterface='' @ interface @ [newline], ''NodeId=0x'' @ num_string 16 nid @ [newline]]"
proof -
  have "plain_field (num_string 16 nid)" by (simp add: plain_num_string)
  then have n: "newline \<notin> set ''[Node]''" "newline \<notin> set (''CanInterface='' @ interface)" "newline \<notin> set (''NodeId=0x'' @ num_string 16 nid)"
    using assms by (auto simp: plain_field_def newline_def)
  show ?thesis
    using getlines_line [OF n(1), of "''CanInterface='' @ interface @ newline # ''NodeId=0x'' @ num_string 16 nid @ [newline]"]
      getlines_line [OF n(2), of "''NodeId=0x'' @ num_string 16 nid @ [newline]"] getlines_line [OF n(3), of "[]"]
    by (simp add: node_text_def)
qed

lemma line_is_cstr: "plain_field w \<Longrightarrow> cstr (w @ [newline]) = w @ [newline]"
  by (intro cstr_id) (auto simp: is_cstr_def plain_field_def newline_def nul_def)

lemma has_key_append: "has_key key (key @ r)"
  by (simp add: has_key_def strncmp_eq_def)

lemma node_config_line_interface:
  assumes "plain_field interface"
  shows "node_config_line (''CanInterface='' @ interface @ [newline]) st =
     (if length interface < length (can_interface st)
      then Ret (st\<lparr>can_interface := interface @ nul # drop (length interface + 1) (can_interface st)\<rparr>) else Fault Out_of_bounds)"
  using has_key_append [of "''CanInterface=''" "interface @ [newline]"] by (auto simp: node_config_line_def poke_def Let_def)

lemma node_config_line_id:
  assumes "nid < 2 ^ 31"
  shows "node_config_line (''NodeId=0x'' @ num_string 16 nid @ [newline]) st = Ret (st\<lparr>node_id := of_nat nid\<rparr>)"
proof -
  have "parse_int_key (''0x'' @ num_string 16 nid @ [newline]) 0 = Ret (int nid)"
    using assms by (intro parse_int_key_hex) (simp_all add: ends_number_def newline_def digit_val_def)
  then show ?thesis
    using has_key_append [of "''NodeId=''" "''0x'' @ num_string 16 nid @ [newline]"]
    by (simp add: node_config_line_def) (simp add: has_key_def strncmp_eq_def)
qed

text \<open>
  C33: the settings of the node. From a file that names the interface and the number of the node both are taken over, the number modulo 256, and the role
  of the node stays; a name of the interface that the array of the caller cannot hold with its terminator is written behind the array.
\<close>

theorem node_config_load_settings:
  assumes "fs_open_rd fs path = Inr (File (bytes_of_string (node_text interface nid)))" and "plain_field interface" and "nid < 2 ^ 31"
  shows "if length interface < length (can_interface st)
     then \<exists>st'. node_config_load (Some path) fs st = Ret (0, st') \<and> cstr (can_interface st') = interface
        \<and> length (can_interface st') = length (can_interface st) \<and> node_id st' = of_nat nid \<and> network_manager st' = network_manager st
     else node_config_load (Some path) fs st = Fault Out_of_bounds"
proof -
  let ?i = "''CanInterface='' @ interface" and ?n = "''NodeId=0x'' @ num_string 16 nid"
  have "plain_field (num_string 16 nid)" by (simp add: plain_num_string)
  then have "plain_field ''[Node]''" "plain_field ?i" "plain_field ?n" using assms(2) by (auto simp: plain_field_def newline_def nul_def)
  note cs = this [THEN line_is_cstr]
  have head: "node_config_line (''[Node]'' @ [newline]) s = Ret s" for s by (simp add: node_config_line_def has_key_def strncmp_eq_def)
  have load: "node_config_load (Some path) fs st = bind_outcome (node_config_line (?i @ [newline]) st) (\<lambda>st1. Ret (0, st1\<lparr>node_id := of_nat nid\<rparr>))"
    using assms(1) cs head node_config_line_id [OF assms(3)] getlines_node_text [OF assms(2)]
    by (simp add: node_config_load_def text_of_def bind_outcome_assoc)
  have "is_cstr interface" using assms(2) by (simp add: plain_field_def is_cstr_def)
  then have "cstr (interface @ nul # drop (length interface + 1) (can_interface st)) = interface" by (rule cstr_terminated)
  then show ?thesis unfolding load using node_config_line_interface [OF assms(2), of st] by auto
qed

text \<open>
  The file the daemon writes when there is none, read back: the interface stays, since its line is not the start of a line of the file, and the node becomes the network
  manager although the file says it is not.
\<close>

lemma default_node_config_read:
  assumes "make_node_config (Some path) fs = (0, fs')"
  shows "node_config_load (Some path) fs' st = Ret (0, st\<lparr>node_id := 0x7C, network_manager := True\<rparr>)"
proof -
  obtain fs1 where c: "fs_create fs path = Inr fs1" "fs' = AList.update (resolve path) (File (bytes_of_string default_node_config)) fs1"
    using assms by (auto simp: make_node_config_def fs_create_def Let_def errno_defs split: sum.splits node.splits option.splits if_splits)
  have "fs_open_rd fs' path = Inr (File (bytes_of_string default_node_config))"
    using c by (auto simp: fs_open_rd_def fs_node_def fs_create_def update_conv' Let_def split: if_splits option.splits node.splits)
  moreover have "getlines default_node_config = [''[Node]CanInterface=can0'' @ [newline], ''NodeId=0x7C'' @ [newline], ''NetworkManager=false'' @ [newline]]"
    by (simp add: default_node_config_def newline_def)
  moreover have "cstr (''[Node]CanInterface=can0'' @ [newline]) = ''[Node]CanInterface=can0'' @ [newline]" "cstr (''NodeId=0x7C'' @ [newline]) = ''NodeId=0x7C'' @ [newline]"
    "cstr (''NetworkManager=false'' @ [newline]) = ''NetworkManager=false'' @ [newline]"
    by (rule line_is_cstr; simp add: plain_field_def newline_def nul_def)+
  moreover have "node_config_line (''[Node]CanInterface=can0'' @ [newline]) s = Ret s" "node_config_line (''NodeId=0x7C'' @ [newline]) s = Ret (s\<lparr>node_id := 0x7C\<rparr>)"
    "node_config_line (''NetworkManager=false'' @ [newline]) s = Ret (s\<lparr>network_manager := True\<rparr>)" for s
    by (simp_all add: node_config_line_def has_key_def strncmp_eq_def parse_int_key_def sscanf_x_def is_digit_def digit_val_def newline_def Let_def)
  ultimately show ?thesis by (simp add: node_config_load_def text_of_def)
qed

section \<open>Examples\<close>

text \<open>A 64 bit system, a built-in dictionary with two entries, and a table with a variable between them.\<close>

definition ex_env :: ld_env where
  "ex_env = \<lparr>long_bits = 64, malloc_ok = (\<lambda>_. True), strtof_c = (\<lambda>_. (0, 1)), sizeof_entry = 24, sizeof_size = 4, sizeof_var = 24,
     sizeof_arr = 40, sizeof_rec = 24, sizeof_ptr = 8, sizeof_OD = 16, fresh_byte = 0xA5, ODA_SDO_R = 1, ODA_SDO_W = 2, ODA_SDO_RW = 3,
     ODA_TRPDO = 12, ODA_MB = 0x40, ODA_STR = 0x80\<rparr>"

definition ex_data :: tmp_data where
  "ex_data = \<lparr>object_type = 0, data_type = 5, access_type = ''ro'' @ replicate 14 nul, tmp_index = 0x4000, tmp_subindex = 2, total_subindexes = 0,
     default_value = ''7'' @ replicate 255 nul\<rparr>"

definition ex_internal :: "u16 \<Rightarrow> od_entry" where
  "ex_internal i = \<lparr>entry_index = i, entry_subCount = 1, entry_type = Some ODT_VAR,
     entry_object = Obj_var \<lparr>var_data = Block [7], var_length = 1, var_attribute = 3\<rparr>, entry_extension = Ext_null\<rparr>"

definition ex_var :: var_spec where
  "ex_var = \<lparr>vs_index = 0x4000, vs_access = ''ro'', vs_type = 5, vs_default = ''7''\<rparr>"

definition ex_fs :: "string \<Rightarrow> fsys" where
  "ex_fs s = [([], Dir), ([''f''], File (bytes_of_string s))]"

lemma ex_open: "fs_open_rd (ex_fs s) ''/f'' = Inr (File (bytes_of_string s))"
  by (simp add: fs_open_rd_def fs_node_def resolve_def path_push_def ex_fs_def)

lemma ex_uint8: "str2buf_uint8 (cenv.truncate ex_env) (Some ''7'') = Some 7"
proof -
  have "strto_scan ''7'' 10 = (False, 7, 1)" by (simp add: strto_scan_def skip_sign_def skip_0x_def isspace_c_def is_digit_def digit_val_def)
  then show ?thesis by (simp add: str2buf_uint8_def strtoul_def get_str_base_def ex_env_def cenv.truncate_def)
qed

lemma ex_type_value: "type_value ex_env 5 ''7'' = Some (Block [7], 1, 12)"
proof -
  have "image (7 :: byte) = [7]" "ODA_TRPDO ex_env = 12" by (simp_all add: image_def ex_env_def)
  then have "numeric_value ex_env 5 ''7'' = Some (Some [7], 1, 12)" using ex_uint8 by (simp add: numeric_value_def dtype_defs Let_def)
  then show ?thesis by (simp add: type_value_def fill_var_value_def ptr_of_def)
qed

lemma ex_spec: "spec_loads ex_env ex_var" "spec_ok ex_var"
  using ex_type_value
  by (auto simp: spec_loads_def spec_ok_def plain_field_def ex_var_def newline_def nul_def dtype_defs ex_env_def)

lemma ex_data_ok: "data_ok ex_data" "header_ok ''h''"
  by (simp_all add: data_ok_def ex_data_def header_ok_def newline_def nul_def)

lemma ex_data_fields:
  "type_value ex_env (data_type ex_data) (cstr (default_value ex_data)) = Some (Block [7], 1, 12)" "data_type ex_data = 5" "\<not> is_text_type (data_type ex_data)"
  "nul \<in> set (default_value ex_data)" "nul \<in> set (access_type ex_data)" "tmp_subindex ex_data \<noteq> 0"
proof -
  have "replicate 255 nul = nul # replicate 254 nul" by (simp add: numeral_nat)
  then have "cstr (default_value ex_data) = ''7''" by (simp add: ex_data_def cstr_def nul_def)
  then show "type_value ex_env (data_type ex_data) (cstr (default_value ex_data)) = Some (Block [7], 1, 12)"
    using ex_type_value by (simp add: ex_data_def)
qed (simp_all add: ex_data_def is_text_type_def dtype_defs)


definition ex_merged :: "od_entry list" where
  "ex_merged = [ex_internal 0x1000, var_entry ex_env Ext_null ex_var]"

lemma ex_merge: "od_merge [ex_internal 0x1000, ex_internal 0x6000] (map (var_entry ex_env Ext_null) [ex_var]) = ex_merged"
  by (simp add: ex_merged_def ex_internal_def ex_var_def)

theorem od_config_load_merges_witness:
  "\<exists>new. od_config_load ex_env [ex_internal 0x1000, ex_internal 0x6000] ex_data (Some ''/f'') (ex_fs (table_text ''h'' [ex_var])) True =
      Ret (0, Some \<lparr>od_list = Some (new @ drop 2 (fresh_list ex_env True [ex_internal 0x1000, ex_internal 0x6000] 1)), od_size = 3\<rparr>, [])
    \<and> map (map_option bare) new = map (\<lambda>e. Some (bare e)) ex_merged"
proof -
  let ?OD = "[ex_internal 0x1000, ex_internal 0x6000]"
  have "\<forall>v \<in> set [ex_var]. spec_loads ex_env v \<and> of_nat (vs_index v) \<notin> entry_index ` set ?OD" "\<forall>b. malloc_ok ex_env b"
    using ex_spec by (simp_all add: ex_internal_def ex_var_def ex_env_def)
  moreover have "length ex_merged = 2" by (simp add: ex_merged_def)
  ultimately show ?thesis
    using od_config_load_merges [of "[ex_var]" ex_env ?OD "''h''" ex_data "ex_fs (table_text ''h'' [ex_var])" "''/f''" 3 True ex_merged]
      ex_data_ok ex_open ex_merge by simp
qed

theorem od_config_load_sorted_witness:
  "\<exists>entries rest. od_config_load ex_env [ex_internal 0x1000, ex_internal 0x6000] ex_data (Some ''/f'') (ex_fs (table_text ''h'' [ex_var])) True =
      Ret (0, Some \<lparr>od_list = Some (map Some entries @ rest), od_size = 3\<rparr>, [])
    \<and> by_index entries \<and> entry_index ` set entries = {0x1000, 0x4000}"
proof -
  let ?OD = "[ex_internal 0x1000, ex_internal 0x6000]"
  have "\<forall>v \<in> set [ex_var]. spec_loads ex_env v \<and> of_nat (vs_index v) \<notin> entry_index ` set ?OD" "\<forall>b. malloc_ok ex_env b" "by_index ?OD"
    using ex_spec by (simp_all add: ex_internal_def ex_var_def ex_env_def)
  moreover have "entry_index ` set ?OD = {0x1000, 0x6000}" "vs_index ex_var = 0x4000" by (auto simp: ex_internal_def ex_var_def)
  moreover have "{x \<in> {0x1000, 0x6000 :: u16}. x < 0x4000} = {0x1000}" by auto
  ultimately show ?thesis
    using od_config_load_sorted [of "[ex_var]" ex_env ?OD "''h''" ex_data "ex_fs (table_text ''h'' [ex_var])" "''/f''"]
      ex_data_ok ex_open by simp
qed

lemma od_config_free_spares_internal_witness:
  "\<exists>cells e. od_list \<lparr>od_list = Some [Some (ex_internal 0x1000), Some (ex_internal 0x4000), Some (ex_internal 0)], od_size = 2\<rparr> = Some cells
    \<and> 1 < length cells \<and> cells ! 1 = Some e \<and> entry_index e \<notin> entry_index ` set [ex_internal 0x1000]"
proof -
  let ?od = "\<lparr>od_list = Some [Some (ex_internal 0x1000), Some (ex_internal 0x4000), Some (ex_internal 0)], od_size = 2\<rparr>"
  have "od_config_free [ex_internal 0x1000] (Some ?od) True = Ret [Free_data 1, Free_list, Free_od]"
    by (simp add: od_config_free_def free_entry_def free_ptr_def ex_internal_def)
  from od_config_free_spares_internal [OF this, of "Free_data 1" 1] show ?thesis by simp
qed

lemma od_config_free_reads_unset_witness:
  "\<exists>od. od_config_load ex_env [] ex_data (Some ''/f'') (ex_fs (table_text ''h'' [ex_var])) False = Ret (0, Some od, []) \<and> od_size od = 1
    \<and> od_config_free [] (Some od) False = Fault Uninitialised"
  using od_config_free_reads_unset [of "[ex_var]" ex_env "''h''" ex_data "ex_fs (table_text ''h'' [ex_var])" "''/f''"]
    ex_spec ex_data_ok ex_open by (simp add: ex_env_def)

definition ex_arr :: od_arr where
  "ex_arr = new_arr\<lparr>arr_data := Arr_values [1, 2], arr_elementLength := 1, arr_elementSizeof := 1\<rparr>"

definition ex_array :: od_entry where
  "ex_array = \<lparr>entry_index = 0x4000, entry_subCount = 3, entry_type = Some ODT_ARR, entry_object = Obj_arr ex_arr, entry_extension = Ext_null\<rparr>"

lemma array_element_position_witness:
  "fill_entry_subindex ex_env ex_array ex_data 2 = Fault Out_of_bounds"
proof -
  have "entry_type ex_array = Some ODT_ARR" "entry_object ex_array = Obj_arr ex_arr" "arr_data ex_arr = Arr_values [1, 2]"
    "uint (entry_subCount ex_array) = int 2 + 1" by (simp_all add: ex_array_def ex_arr_def)
  from array_element_position [OF this(1-3) ex_data_fields(6,3,1) _ _ ex_data_fields(4,5) this(4), of 2] show ?thesis by simp
qed

lemma octet_string_default_lost_witness:
  "\<exists>acc dflt. fill_var ex_env (ex_data\<lparr>data_type := 10\<rparr>) Unset 0 =
      Ret (0, Null, 0, 0 OR 0x80 OR 3, ex_data\<lparr>data_type := 10, access_type := acc, default_value := dflt\<rparr>) \<and> cstr dflt = ''0''"
proof -
  have "cstr (default_value ex_data) \<noteq> []" using ex_data_fields(4) by (auto simp: ex_data_def cstr_def nul_def)
  then show ?thesis
    using octet_string_default_lost [of "ex_data\<lparr>data_type := 10\<rparr>" ex_env Unset 0] ex_data_fields(4,5) by (simp add: dtype_defs ex_env_def)
qed

definition ex_settings :: node_settings where
  "ex_settings = \<lparr>can_interface = ''can0'' @ replicate 16 nul, node_id = 0x7C, network_manager = False\<rparr>"

theorem node_config_load_settings_witness:
  "\<exists>st'. node_config_load (Some ''/f'') (ex_fs (node_text ''vcan0'' 0x12)) ex_settings = Ret (0, st') \<and> cstr (can_interface st') = ''vcan0''
    \<and> length (can_interface st') = 20 \<and> node_id st' = 0x12 \<and> network_manager st' = False"
  using node_config_load_settings [of "ex_fs (node_text ''vcan0'' 0x12)" "''/f''" "''vcan0''" "0x12" ex_settings] ex_open
  by (simp add: ex_settings_def plain_field_def newline_def nul_def)

end
