(* ===== verification/Ipc_Msg.thy ===== *)
theory Ipc_Msg
  imports Od_Ext
begin

text \<open>
  Model of \<^verbatim>\<open>src/ipc/ipc_msg.h\<close> and \<^verbatim>\<open>src/ipc/ipc_broadcast.c\<close>: the messages between the daemon and the applications on the
  card, as the packed structures they are on the wire, and the publisher. The sockets are lists of
  the frames sent; what \<^verbatim>\<open>OD_writeOriginal\<close> of the CANopen stack does is a parameter.
\<close>

section \<open>Messages\<close>

definition IPC_MSG_VERSION :: byte where "IPC_MSG_VERSION = 0"
definition IPC_MSG_MAX_LEN :: nat where "IPC_MSG_MAX_LEN = 1000"
definition IPC_STR_MAX_LEN :: nat where "IPC_STR_MAX_LEN = 255"

definition IPC_MSG_ID_EMCY_SEND :: byte where "IPC_MSG_ID_EMCY_SEND = 0x0"
definition IPC_MSG_ID_TPDO_SEND :: byte where "IPC_MSG_ID_TPDO_SEND = 0x1"
definition IPC_MSG_ID_OD_WRITE :: byte where "IPC_MSG_ID_OD_WRITE = 0x2"
definition IPC_MSG_ID_SDO_READ :: byte where "IPC_MSG_ID_SDO_READ = 0x3"
definition IPC_MSG_ID_SDO_WRITE :: byte where "IPC_MSG_ID_SDO_WRITE = 0x4"
definition IPC_MSG_ID_ADD_FILE :: byte where "IPC_MSG_ID_ADD_FILE = 0x5"
definition IPC_MSG_ID_HB_RECV :: byte where "IPC_MSG_ID_HB_RECV = 0x6"
definition IPC_MSG_ID_EMCY_RECV :: byte where "IPC_MSG_ID_EMCY_RECV = 0x7"
definition IPC_MSG_ID_SYNC_SEND :: byte where "IPC_MSG_ID_SYNC_SEND = 0x8"
definition IPC_MSG_ID_BUS_STATUS :: byte where "IPC_MSG_ID_BUS_STATUS = 0x9"
definition IPC_MSG_ID_SDO_READ_TO_FILE :: byte where "IPC_MSG_ID_SDO_READ_TO_FILE = 0xA"
definition IPC_MSG_ID_SDO_WRITE_FROM_FILE :: byte where "IPC_MSG_ID_SDO_WRITE_FROM_FILE = 0xB"
definition IPC_MSG_ID_CONFIG :: byte where "IPC_MSG_ID_CONFIG = 0xC"
definition IPC_MSG_ID_ERROR :: byte where "IPC_MSG_ID_ERROR = 0x80"
definition IPC_MSG_ID_ERROR_UNKNOWN_ID :: byte where "IPC_MSG_ID_ERROR_UNKNOWN_ID = 0x81"
definition IPC_MSG_ID_ERROR_ABORT :: byte where "IPC_MSG_ID_ERROR_ABORT = 0x82"

lemmas ipc_ids = IPC_MSG_ID_EMCY_SEND_def IPC_MSG_ID_TPDO_SEND_def IPC_MSG_ID_OD_WRITE_def IPC_MSG_ID_SDO_READ_def
  IPC_MSG_ID_SDO_WRITE_def IPC_MSG_ID_ADD_FILE_def IPC_MSG_ID_HB_RECV_def IPC_MSG_ID_EMCY_RECV_def IPC_MSG_ID_SYNC_SEND_def
  IPC_MSG_ID_BUS_STATUS_def IPC_MSG_ID_SDO_READ_TO_FILE_def IPC_MSG_ID_SDO_WRITE_FROM_FILE_def IPC_MSG_ID_CONFIG_def
  IPC_MSG_ID_ERROR_def IPC_MSG_ID_ERROR_UNKNOWN_ID_def IPC_MSG_ID_ERROR_ABORT_def

lemmas ipc_lens = IPC_MSG_MAX_LEN_def IPC_STR_MAX_LEN_def

text \<open>
  One constructor for each structure, with its members after the header; the identifier is a member
  of the header and shared by several structures, so it is an argument where it varies. A text or
  byte member is sent with its length in front and without the unused rest of its array.
\<close>

datatype ipc_msg =
    Msg_emcy_send u16 u32
  | Msg_tpdo_send byte
  | Msg_sync_send
  | Msg_od u16 byte "byte list"
  | Msg_sdo byte byte u16 byte "byte list"
  | Msg_file byte "byte list"
  | Msg_bus_status byte
  | Msg_sdo_file byte byte u16 byte "byte list"
  | Msg_emcy_recv byte u16 u32
  | Msg_hb_recv byte byte
  | Msg_error "32 word"
  | Msg_error_id byte
  | Msg_error_abort u32

definition ipc_header :: "byte \<Rightarrow> byte list" where
  "ipc_header i = [IPC_MSG_VERSION, i]"

definition counted :: "byte list \<Rightarrow> byte list" where
  "counted d = of_nat (length d) # d"

fun ipc_bytes :: "ipc_msg \<Rightarrow> byte list" where
  "ipc_bytes (Msg_emcy_send code info) = ipc_header IPC_MSG_ID_EMCY_SEND @ le_bytes 2 (unat code) @ le_bytes 4 (unat info)"
| "ipc_bytes (Msg_tpdo_send number) = ipc_header IPC_MSG_ID_TPDO_SEND @ [number]"
| "ipc_bytes Msg_sync_send = ipc_header IPC_MSG_ID_SYNC_SEND"
| "ipc_bytes (Msg_od index sub d) = ipc_header IPC_MSG_ID_OD_WRITE @ le_bytes 2 (unat index) @ [sub] @ counted d"
| "ipc_bytes (Msg_sdo i node index sub d) = ipc_header i @ [node] @ le_bytes 2 (unat index) @ [sub] @ counted d"
| "ipc_bytes (Msg_file i path) = ipc_header i @ counted path"
| "ipc_bytes (Msg_bus_status state) = ipc_header IPC_MSG_ID_BUS_STATUS @ [state]"
| "ipc_bytes (Msg_sdo_file i node index sub path) = ipc_header i @ [node] @ le_bytes 2 (unat index) @ [sub] @ counted path"
| "ipc_bytes (Msg_emcy_recv node code info) = ipc_header IPC_MSG_ID_EMCY_RECV @ [node] @ le_bytes 2 (unat code) @ le_bytes 4 (unat info)"
| "ipc_bytes (Msg_hb_recv node state) = ipc_header IPC_MSG_ID_HB_RECV @ [node, state]"
| "ipc_bytes (Msg_error e) = ipc_header IPC_MSG_ID_ERROR @ le_bytes 4 (unat e)"
| "ipc_bytes (Msg_error_id i) = ipc_header IPC_MSG_ID_ERROR_UNKNOWN_ID @ [i]"
| "ipc_bytes (Msg_error_abort code) = ipc_header IPC_MSG_ID_ERROR_ABORT @ le_bytes 4 (unat code)"

text \<open>The sizes of the structures and the least size of those that end in an array.\<close>

definition sizeof_header :: nat where "sizeof_header = 2"
definition sizeof_emcy_send :: nat where "sizeof_emcy_send = sizeof_header + 2 + 4"
definition sizeof_tpdo_send :: nat where "sizeof_tpdo_send = sizeof_header + 1"
definition IPC_MSG_OD_MIN_LEN :: nat where "IPC_MSG_OD_MIN_LEN = sizeof_header + 2 + 1 + 1"
definition sizeof_od :: nat where "sizeof_od = IPC_MSG_OD_MIN_LEN + IPC_STR_MAX_LEN"
definition IPC_MSG_SDO_MIN_LEN :: nat where "IPC_MSG_SDO_MIN_LEN = sizeof_header + 1 + 2 + 1 + 1"
definition sizeof_sdo :: nat where "sizeof_sdo = IPC_MSG_SDO_MIN_LEN + IPC_STR_MAX_LEN"
definition IPC_MSG_FILE_MIN_LEN :: nat where "IPC_MSG_FILE_MIN_LEN = sizeof_header + 1"
definition sizeof_file :: nat where "sizeof_file = IPC_MSG_FILE_MIN_LEN + IPC_STR_MAX_LEN"
definition IPC_MSG_SDO_FILE_MIN_LEN :: nat where "IPC_MSG_SDO_FILE_MIN_LEN = sizeof_header + 1 + 2 + 1 + 1"
definition sizeof_sdo_file :: nat where "sizeof_sdo_file = IPC_MSG_SDO_FILE_MIN_LEN + IPC_STR_MAX_LEN"

lemmas ipc_sizes = sizeof_header_def sizeof_emcy_send_def sizeof_tpdo_send_def IPC_MSG_OD_MIN_LEN_def sizeof_od_def
  IPC_MSG_SDO_MIN_LEN_def sizeof_sdo_def IPC_MSG_FILE_MIN_LEN_def sizeof_file_def IPC_MSG_SDO_FILE_MIN_LEN_def sizeof_sdo_file_def

section \<open>The publisher\<close>

record broadcaster =
  bc_open :: bool
  clients :: byte
  published :: "byte list list"

text \<open>
  One event of the socket monitor: \<open>None\<close> when nothing is waiting. \<open>accepted\<close> and \<open>disconnected\<close> are the two flags
  of the library. A frame with the address follows the event and is dropped.
\<close>

definition ipc_broadcast_process :: "u16 \<Rightarrow> u16 \<Rightarrow> u16 option \<Rightarrow> broadcaster \<Rightarrow> broadcaster" where
  "ipc_broadcast_process accepted disconnected event b = (case event of
       None \<Rightarrow> b
     | Some e \<Rightarrow>
         if and e accepted \<noteq> 0 then b\<lparr>clients := clients b + 1\<rparr>
         else if and e disconnected \<noteq> 0 then b\<lparr>clients := clients b - 1\<rparr>
         else b)"

definition ipc_clients_count :: "broadcaster \<Rightarrow> byte" where
  "ipc_clients_count b = clients b"

definition publish :: "broadcaster \<Rightarrow> byte list \<Rightarrow> broadcaster" where
  "publish b frame = b\<lparr>published := published b @ [frame]\<rparr>"

text \<open>
  The write handler of every object from 0x4000 on. The message takes \<^verbatim>\<open>dataLength\<close> bytes from the buffer of this
  call, however many bytes the call brought.
\<close>

definition ipc_broadcast_data ::
  "('s::len word od_stream \<Rightarrow> byte list \<Rightarrow> 's word \<Rightarrow> 's word \<Rightarrow> (ODR \<times> 's word od_stream \<times> 's word) outcome) \<Rightarrow> u16 \<Rightarrow>
   broadcaster \<Rightarrow> 's word od_stream \<Rightarrow> byte list \<Rightarrow> 's word \<Rightarrow> 's word \<Rightarrow> (ODR \<times> broadcaster \<times> 's word od_stream \<times> 's word) outcome" where
  "ipc_broadcast_data writeOriginal index b stream buf count countWritten =
     bind_outcome (writeOriginal stream buf count countWritten) (\<lambda>(ac, s, cw).
     if ac = ODR_OK \<and> dataLength s > 0 \<and> unat (dataLength s) \<le> IPC_STR_MAX_LEN then
       bind_outcome (peek buf 0 (unat (dataLength s))) (\<lambda>d.
       Ret (ac, publish b (ipc_bytes (Msg_od index (subIndex s) d)), s, cw))
     else Ret (ac, b, s, cw))"

definition ipc_broadcast_hb :: "byte \<Rightarrow> byte \<Rightarrow> broadcaster \<Rightarrow> broadcaster" where
  "ipc_broadcast_hb node_id state b =
     (if clients b = 0 \<or> \<not> bc_open b then b else publish b (ipc_bytes (Msg_hb_recv node_id state)))"

definition ipc_broadcast_emcy :: "byte \<Rightarrow> u16 \<Rightarrow> u32 \<Rightarrow> broadcaster \<Rightarrow> broadcaster" where
  "ipc_broadcast_emcy node_id code info b =
     (if clients b = 0 \<or> \<not> bc_open b then b else publish b (ipc_bytes (Msg_emcy_recv node_id code info)))"

definition CAN_BUS_NOT_FOUND :: byte where "CAN_BUS_NOT_FOUND = 0"
definition CAN_BUS_DOWN :: byte where "CAN_BUS_DOWN = 1"
definition CAN_BUS_UP :: byte where "CAN_BUS_UP = 2"

definition ipc_broadcast_status :: "byte \<Rightarrow> broadcaster \<Rightarrow> broadcaster" where
  "ipc_broadcast_status state b = publish b (ipc_bytes (Msg_bus_status state))"

text \<open>
  \<open>ifName\<close> is the name of the first interface, if there is one; \<open>carrier\<close> is the file of that path, if it can be
  opened, with the characters that can be read from it. The result of \<^verbatim>\<open>fread\<close> is not looked at.
\<close>

definition ipc_broadcast_bus_status ::
  "string option \<Rightarrow> (string \<Rightarrow> char list option) \<Rightarrow> broadcaster \<Rightarrow> broadcaster outcome" where
  "ipc_broadcast_bus_status ifName carrier b =
     (if clients b = 0 \<or> \<not> bc_open b then Ret b
      else case ifName of
        None \<Rightarrow> Ret (ipc_broadcast_status CAN_BUS_NOT_FOUND b)
      | Some n \<Rightarrow>
          let file_path = ''/sys/class/net/'' @ n @ ''/carrier'' in
          if length file_path \<ge> 64 then Fault Out_of_bounds
          else (case carrier file_path of
              None \<Rightarrow> Ret (ipc_broadcast_status CAN_BUS_NOT_FOUND b)
            | Some [] \<Rightarrow> Fault Uninitialised
            | Some (up # _) \<Rightarrow> Ret (ipc_broadcast_status (if up = CHR ''1'' then CAN_BUS_UP else CAN_BUS_DOWN) b)))"

section \<open>Facts about messages\<close>

lemma length_ipc_header [simp]: "length (ipc_header i) = 2"
  by (simp add: ipc_header_def)

lemma length_counted [simp]: "length (counted d) = Suc (length d)"
  by (simp add: counted_def)

lemma u16_le_bytes [simp]: "of_nat (le_val (le_bytes 2 (unat (w :: u16)))) = w"
proof -
  have "unat w < 256 ^ 2" using unsigned_less [of w, where ?'a = nat] by simp
  then show ?thesis by (simp add: le_val_le_bytes)
qed

lemma u32_le_bytes [simp]: "of_nat (le_val (le_bytes 4 (unat (w :: u32)))) = w"
proof -
  have "unat w < 256 ^ 4" using unsigned_less [of w, where ?'a = nat] by simp
  then show ?thesis by (simp add: le_val_le_bytes)
qed

lemma ipc_bytes_od_length: "length (ipc_bytes (Msg_od index sub d)) = IPC_MSG_OD_MIN_LEN + length d"
  by (simp add: ipc_sizes)

end
