(* ===== verification/Ipc_Consume.thy ===== *)
theory Ipc_Consume
  imports Ipc_Msg
begin

text \<open>
  Model of \<^verbatim>\<open>src/ipc/ipc_consume.c\<close>: the messages applications send to the daemon without waiting for an answer.
  Calls into the CANopen stack are recorded as events; the request flags of the transmit PDOs,
  which the daemon writes itself, are state.
\<close>

section \<open>State\<close>

datatype can_event =
    Error_report u16 u32
  | Od_set_value u16 byte "byte list" bool
  | Sync_send

record co_config =
  CNT_TPDO :: u16
  CNT_SYNC :: byte

record consumer =
  buffer_in :: "byte list"
  sendRequest :: "bool list"
  can_events :: "can_event list"
  reset_flag :: bool

definition can_call :: "consumer \<Rightarrow> can_event \<Rightarrow> consumer" where
  "can_call c e = c\<lparr>can_events := can_events c @ [e]\<rparr>"

text \<open>Members of the packed structures, at their offsets in the buffer.\<close>

definition field8 :: "byte list \<Rightarrow> nat \<Rightarrow> byte outcome" where
  "field8 buf off = bind_outcome (peek buf off 1) (\<lambda>bs. Ret (hd bs))"

definition field16 :: "byte list \<Rightarrow> nat \<Rightarrow> u16 outcome" where
  "field16 buf off = bind_outcome (peek buf off 2) (\<lambda>bs. Ret (of_nat (le_val bs)))"

definition field32 :: "byte list \<Rightarrow> nat \<Rightarrow> u32 outcome" where
  "field32 buf off = bind_outcome (peek buf off 4) (\<lambda>bs. Ret (of_nat (le_val bs)))"

section \<open>Handlers\<close>

definition ipc_consume_emcy_send :: "nat \<Rightarrow> consumer \<Rightarrow> consumer outcome" where
  "ipc_consume_emcy_send buffer_in_recv c =
     (if buffer_in_recv \<noteq> sizeof_emcy_send then Ret c
      else bind_outcome (field16 (buffer_in c) 2) (\<lambda>code.
           bind_outcome (field32 (buffer_in c) 4) (\<lambda>info.
           Ret (can_call c (Error_report code info)))))"

text \<open>The number of common PDOs is cut to a byte; the sum is an index into the array of transmit PDOs.\<close>

definition ipc_consume_tpdo_send :: "nat \<Rightarrow> co_config \<Rightarrow> co_config \<Rightarrow> consumer \<Rightarrow> consumer outcome" where
  "ipc_consume_tpdo_send buffer_in_recv base_config config c =
     (if buffer_in_recv \<noteq> sizeof_tpdo_send then Ret c
      else bind_outcome (field8 (buffer_in c) 2) (\<lambda>number.
           if unat number < unat (CNT_TPDO config) then
             let tpdos_offset = (if CNT_TPDO base_config \<noteq> CNT_TPDO config then ucast (CNT_TPDO base_config) else 0 :: byte) in
             bind_outcome (poke (sendRequest c) (unat number + unat tpdos_offset) [True]) (\<lambda>rs.
             Ret (c\<lparr>sendRequest := rs\<rparr>))
           else Ret c))"

definition ipc_consume_od_write :: "nat \<Rightarrow> broadcaster \<Rightarrow> consumer \<Rightarrow> consumer outcome" where
  "ipc_consume_od_write buffer_in_recv b c =
     (if buffer_in_recv < IPC_MSG_OD_MIN_LEN \<or> buffer_in_recv > sizeof_od then Ret c
      else bind_outcome (field16 (buffer_in c) 2) (\<lambda>index.
           bind_outcome (field8 (buffer_in c) 4) (\<lambda>sub.
           bind_outcome (field8 (buffer_in c) 5) (\<lambda>len.
           bind_outcome (peek (buffer_in c) 6 (unat len)) (\<lambda>d.
           Ret (can_call c (Od_set_value index sub d (ipc_clients_count b \<le> 1))))))))"

definition ipc_consume_sync_send :: "co_config \<Rightarrow> consumer \<Rightarrow> consumer" where
  "ipc_consume_sync_send config c = (if CNT_SYNC config \<noteq> 0 then can_call c Sync_send else c)"

text \<open>The environment of the file checks, as in \<open>check_file_crc32_match\<close>.\<close>

record crc_env =
  crc32_fn :: "byte list \<Rightarrow> u32"
  crc_malloc_ok :: bool
  crc_errno :: int

definition dirname :: "string \<Rightarrow> string" where
  "dirname s =
     (let strip = (\<lambda>t. rev (dropWhile (\<lambda>c. c = slash) (rev t)));
          t = strip s;
          d = strip (rev (dropWhile (\<lambda>c. c \<noteq> slash) (rev t)))
      in if t = [] then (if s = [] then ''.'' else ''/'')
         else if slash \<notin> set t then ''.''
         else if d = [] then ''/'' else d)"

text \<open>A path in a message is terminated in place, one character past its length.\<close>

definition message_path :: "byte list \<Rightarrow> nat \<Rightarrow> (string \<times> byte list) outcome" where
  "message_path buf off =
     bind_outcome (field8 buf off) (\<lambda>len.
     bind_outcome (poke buf (off + 1 + unat len) [0]) (\<lambda>buf'.
     bind_outcome (read_cstr (string_of_bytes (drop (off + 1) buf'))) (\<lambda>p. Ret (p, buf'))))"

definition ipc_consume_config ::
  "crc_env \<Rightarrow> kern \<Rightarrow> nat \<Rightarrow> string \<Rightarrow> fsys \<Rightarrow> consumer \<Rightarrow> (fsys \<times> consumer) outcome" where
  "ipc_consume_config env k buffer_in_recv od_config_path fs c =
     (if buffer_in_recv < IPC_MSG_FILE_MIN_LEN \<or> buffer_in_recv > sizeof_file then Ret (fs, c)
      else bind_outcome (message_path (buffer_in c) 2) (\<lambda>(path, buf).
        let c1 = c\<lparr>buffer_in := buf\<rparr> in
        if is_file fs path then
          bind_outcome (check_file_crc32_match (crc32_fn env) k (crc_malloc_ok env) (crc_errno env) fs (Some od_config_path) (Some path)) (\<lambda>same.
          if same then Ret (fs, c1)
          else
            let fs1 = snd (mkdir_path fs (Some (dirname od_config_path))) in
            bind_outcome (copy_file k fs1 path od_config_path) (\<lambda>(r, fs2).
            Ret (fs2, if r < 0 then c1 else c1\<lparr>reset_flag := True\<rparr>)))
        else Ret (fs, c1)))"

text \<open>
  \<^verbatim>\<open>zmq_recv\<close> stores as much of a message as fits and returns its whole length.
\<close>

definition ipc_consume_process ::
  "crc_env \<Rightarrow> kern \<Rightarrow> broadcaster \<Rightarrow> co_config \<Rightarrow> co_config \<Rightarrow> string \<Rightarrow> byte list option \<Rightarrow> fsys \<Rightarrow> consumer \<Rightarrow>
   (fsys \<times> consumer) outcome" where
  "ipc_consume_process env k b base_config config od_config_path msg fs c = (case msg of
       None \<Rightarrow> Ret (fs, c)
     | Some m \<Rightarrow>
         bind_outcome (poke (buffer_in c) 0 (take IPC_MSG_MAX_LEN m)) (\<lambda>buf.
         let nbytes = length m; c1 = c\<lparr>buffer_in := buf\<rparr> in
         if nbytes \<le> sizeof_header then Ret (fs, c1)
         else bind_outcome (field8 buf 0) (\<lambda>version.
           if version \<noteq> IPC_MSG_VERSION then Ret (fs, c1)
           else bind_outcome (field8 buf 1) (\<lambda>i.
             if i = IPC_MSG_ID_EMCY_SEND then
               bind_outcome (ipc_consume_emcy_send nbytes c1) (\<lambda>c2. Ret (fs, c2))
             else if i = IPC_MSG_ID_TPDO_SEND then
               bind_outcome (ipc_consume_tpdo_send nbytes base_config config c1) (\<lambda>c2. Ret (fs, c2))
             else if i = IPC_MSG_ID_OD_WRITE then
               bind_outcome (ipc_consume_od_write nbytes b c1) (\<lambda>c2. Ret (fs, c2))
             else if i = IPC_MSG_ID_SYNC_SEND then Ret (fs, ipc_consume_sync_send config c1)
             else if i = IPC_MSG_ID_CONFIG then ipc_consume_config env k nbytes od_config_path fs c1
             else Ret (fs, c1)))))"

section \<open>Delivery\<close>

text \<open>A message that fits is in front of the buffer, and its members are read from there.\<close>

lemma field8_front [simp]: "off < length m \<Longrightarrow> field8 (m @ r) off = Ret (m ! off)"
  by (simp add: field8_def hd_drop_conv_nth nth_append Suc_le_eq hd_append take_Suc_conv_app_nth)

lemma field16_front [simp]: "off + 2 \<le> length m \<Longrightarrow> field16 (m @ r) off = Ret (of_nat (le_val (take 2 (drop off m))))"
  by (simp add: field16_def)

lemma field32_front [simp]: "off + 4 \<le> length m \<Longrightarrow> field32 (m @ r) off = Ret (of_nat (le_val (take 4 (drop off m))))"
  by (simp add: field32_def)

lemma consumer_receives:
  assumes "length (buffer_in c) = IPC_MSG_MAX_LEN" and "length m \<le> IPC_MSG_MAX_LEN"
  shows "poke (buffer_in c) 0 (take IPC_MSG_MAX_LEN m) = Ret (m @ drop (length m) (buffer_in c))"
  using assms by simp

definition message_seen :: "consumer \<Rightarrow> byte list \<Rightarrow> consumer" where
  "message_seen c m = c\<lparr>buffer_in := m @ drop (length m) (buffer_in c)\<rparr>"

text \<open>
  C18: an emergency and an object value packed by a sender, an object value in particular by the publisher, reach the
  CANopen stack with exactly the members that were packed, up to the largest value of 255 bytes.
\<close>

theorem ipc_consume_delivers:
  assumes "length (buffer_in c) = IPC_MSG_MAX_LEN" and "length d \<le> IPC_STR_MAX_LEN"
  shows "ipc_consume_process env k b base cfg path (Some (ipc_bytes (Msg_emcy_send code info))) fs c
      = Ret (fs, can_call (message_seen c (ipc_bytes (Msg_emcy_send code info))) (Error_report code info))
    \<and> ipc_consume_process env k b base cfg path (Some (ipc_bytes (Msg_od index sub d))) fs c
      = Ret (fs, can_call (message_seen c (ipc_bytes (Msg_od index sub d))) (Od_set_value index sub d (clients b \<le> 1)))"
proof
  let ?m = "ipc_bytes (Msg_emcy_send code info)"
  have len: "length ?m = 8" by simp
  have bytes: "?m ! 0 = IPC_MSG_VERSION" "?m ! 1 = IPC_MSG_ID_EMCY_SEND" "take 2 (drop 2 ?m) = le_bytes 2 (unat code)"
    "take 4 (drop 4 ?m) = le_bytes 4 (unat info)"
    by (simp_all add: ipc_header_def)
  show "ipc_consume_process env k b base cfg path (Some ?m) fs c = Ret (fs, can_call (message_seen c ?m) (Error_report code info))"
    using consumer_receives [of c ?m] assms(1) len bytes
    by (simp del: ipc_bytes.simps add: ipc_consume_process_def ipc_consume_emcy_send_def ipc_lens ipc_sizes message_seen_def Let_def)
next
  let ?m = "ipc_bytes (Msg_od index sub d)"
  have len: "length ?m = 6 + length d" by (simp add: ipc_bytes_od_length ipc_sizes)
  have "unat (of_nat (length d) :: byte) = length d" using assms(2) by (simp add: unat_of_nat take_bit_nat_eq_self ipc_lens)
  then have bytes: "?m ! 0 = IPC_MSG_VERSION" "?m ! 1 = IPC_MSG_ID_OD_WRITE" "take 2 (drop 2 ?m) = le_bytes 2 (unat index)"
    "?m ! 4 = sub" "unat (?m ! 5) = length d" "drop 6 ?m = d"
    by (simp_all add: ipc_header_def counted_def nth_append)
  have ids: "IPC_MSG_ID_OD_WRITE \<noteq> IPC_MSG_ID_EMCY_SEND" "IPC_MSG_ID_OD_WRITE \<noteq> IPC_MSG_ID_TPDO_SEND" by (simp_all add: ipc_ids)
  show "ipc_consume_process env k b base cfg path (Some ?m) fs c
      = Ret (fs, can_call (message_seen c ?m) (Od_set_value index sub d (clients b \<le> 1)))"
    using consumer_receives [of c ?m] assms len bytes ids
    by (simp del: ipc_bytes.simps add: ipc_consume_process_def ipc_consume_od_write_def ipc_lens ipc_sizes message_seen_def Let_def
        ipc_clients_count_def)
qed

theorem ipc_consume_delivers_witness:
  "ipc_consume_process \<lparr>crc32_fn = (\<lambda>_. 0), crc_malloc_ok = True, crc_errno = 0\<rparr> \<lparr>sendfile_k = (\<lambda>off n. Inr n), dir_size_k = 0\<rparr>
       \<lparr>bc_open = True, clients = 1, published = []\<rparr> \<lparr>CNT_TPDO = 1, CNT_SYNC = 1\<rparr> \<lparr>CNT_TPDO = 2, CNT_SYNC = 1\<rparr> ''/o''
       (Some (ipc_bytes (Msg_od 0x4000 1 [7, 8]))) [] \<lparr>buffer_in = replicate 1000 0, sendRequest = [], can_events = [], reset_flag = False\<rparr>
     = Ret ([], can_call (message_seen \<lparr>buffer_in = replicate 1000 0, sendRequest = [], can_events = [], reset_flag = False\<rparr>
         (ipc_bytes (Msg_od 0x4000 1 [7, 8]))) (Od_set_value 0x4000 1 [7, 8] True))"
  using ipc_consume_delivers [where c = "\<lparr>buffer_in = replicate 1000 0, sendRequest = [], can_events = [], reset_flag = False\<rparr>"
      and d = "[7, 8]" and b = "\<lparr>bc_open = True, clients = 1, published = []\<rparr>" and index = "0x4000" and sub = 1 and fs = "[]"]
  by (simp del: ipc_bytes.simps add: ipc_lens)

text \<open>
  The synchronisation message consists of its header alone, and messages of that size are dropped
  before they are looked at: the request never reaches the bus.
\<close>

lemma ipc_consume_drops_sync:
  assumes "length (buffer_in c) = IPC_MSG_MAX_LEN"
  shows "ipc_consume_process env k b base cfg path (Some (ipc_bytes Msg_sync_send)) fs c
    = Ret (fs, message_seen c (ipc_bytes Msg_sync_send))"
  using consumer_receives [of c "ipc_bytes Msg_sync_send"] assms
  by (simp add: ipc_consume_process_def message_seen_def ipc_lens ipc_sizes Let_def)

text \<open>With common PDOs in front, a valid number at the end of the range addresses a PDO past the last.\<close>

lemma ipc_consume_tpdo_out_of_bounds:
  assumes "length (buffer_in c) = IPC_MSG_MAX_LEN" and "length (sendRequest c) = unat (CNT_TPDO cfg)"
    and "CNT_TPDO base \<noteq> CNT_TPDO cfg" and "0 < unat (CNT_TPDO base)" and "unat (CNT_TPDO base) < 256"
    and "unat n + 1 = unat (CNT_TPDO cfg)"
  shows "ipc_consume_process env k b base cfg path (Some (ipc_bytes (Msg_tpdo_send n))) fs c = Fault Out_of_bounds"
proof -
  let ?m = "ipc_bytes (Msg_tpdo_send n)"
  have bytes: "length ?m = 3" "?m ! 0 = IPC_MSG_VERSION" "?m ! 1 = IPC_MSG_ID_TPDO_SEND" "?m ! 2 = n"
    by (simp_all add: ipc_header_def)
  have off: "unat (ucast (CNT_TPDO base) :: byte) = unat (CNT_TPDO base)"
    using assms(5) by (simp add: unsigned_ucast_eq take_bit_nat_eq_self)
  have id: "IPC_MSG_ID_TPDO_SEND \<noteq> IPC_MSG_ID_EMCY_SEND" by (simp add: ipc_ids)
  show ?thesis
    using consumer_receives [of c ?m] assms bytes off id
    by (simp del: ipc_bytes.simps add: ipc_consume_process_def ipc_consume_tpdo_send_def ipc_lens ipc_sizes Let_def)
qed

end
