(* ===== verification/Node_Config.thy ===== *)
theory Node_Config
  imports Od_Table Ipc_Consume
begin

unbundle bit_operations_syntax

text \<open>
  Model of \<^verbatim>\<open>src/canopenlinux/config.c\<close>, of \<^verbatim>\<open>fix_cob_ids\<close> of \<^verbatim>\<open>src/main.c\<close> and of \<^verbatim>\<open>src/ipc/ipc.c\<close> with the opening of the publisher: what the daemon does
  with the list of the object dictionary between loading it and running the stack. The search and the access functions of the stack are parameters.
\<close>

section \<open>The configuration of the stack\<close>

text \<open>An entry pointer is a position in the list, \<open>None\<close> for the null pointer.\<close>

record stack_config = co_config +
  CNT_NMT :: byte
  ENTRY_H1017 :: "nat option"
  CNT_HB_CONS :: byte
  CNT_ARR_1016 :: byte
  ENTRY_H1016 :: "nat option"
  CNT_EM :: byte
  CNT_ARR_1003 :: byte
  ENTRY_H1001 :: "nat option"
  ENTRY_H1003 :: "nat option"
  ENTRY_H1014 :: "nat option"
  ENTRY_H1015 :: "nat option"
  CNT_SDO_SRV :: byte
  ENTRY_H1200 :: "nat option"
  CNT_SDO_CLI :: byte
  ENTRY_H1280 :: "nat option"
  CNT_TIME :: byte
  ENTRY_H1012 :: "nat option"
  ENTRY_H1005 :: "nat option"
  ENTRY_H1006 :: "nat option"
  ENTRY_H1007 :: "nat option"
  ENTRY_H1019 :: "nat option"
  CNT_RPDO :: u16
  ENTRY_H1400 :: "nat option"
  ENTRY_H1600 :: "nat option"
  ENTRY_H1800 :: "nat option"
  ENTRY_H1A00 :: "nat option"
  CNT_LEDS :: byte
  CNT_GFC :: byte
  ENTRY_H1300 :: "nat option"
  CNT_SRDO :: byte
  ENTRY_H1301 :: "nat option"
  ENTRY_H1381 :: "nat option"
  ENTRY_H13FE :: "nat option"
  ENTRY_H13FF :: "nat option"
  CNT_LSS_SLV :: byte
  CNT_LSS_MST :: byte
  CNT_GTWA :: byte
  CNT_TRACE :: byte

text \<open>The entry at a position.\<close>

definition entry_at :: "od_entry option list \<Rightarrow> nat \<Rightarrow> od_entry outcome" where
  "entry_at cells i =
     (if i < length cells then (case cells ! i of None \<Rightarrow> Fault Uninitialised | Some e \<Rightarrow> Ret e) else Fault Out_of_bounds)"

text \<open>\<^verbatim>\<open>entry ? ((OD_obj_array_t *)entry->odObject)->dataElementLength : 0\<close>\<close>

definition element_length :: "od_entry option list \<Rightarrow> nat option \<Rightarrow> byte outcome" where
  "element_length cells p = (case p of
       None \<Rightarrow> Ret 0
     | Some i \<Rightarrow>
         bind_outcome (entry_at cells i) (\<lambda>e.
         case entry_object e of
           Obj_arr a \<Rightarrow> Ret (of_nat (arr_elementLength a))
         | Obj_null \<Rightarrow> Fault Null_pointer
         | _ \<Rightarrow> Fault Mixed_layout))"

text \<open>The loops that count PDOs: from an entry on, as long as the index is below the limit.\<close>

fun count_cells :: "u16 \<Rightarrow> od_entry option list \<Rightarrow> u16 outcome" where
  "count_cells limit [] = Fault Out_of_bounds"
| "count_cells limit (None # cells) = Fault Uninitialised"
| "count_cells limit (Some e # cells) =
     (if entry_index e < limit then bind_outcome (count_cells limit cells) (\<lambda>n. Ret (n + 1)) else Ret 0)"

definition count_entries_below :: "u16 \<Rightarrow> od_entry option list \<Rightarrow> nat option \<Rightarrow> u16 outcome" where
  "count_entries_below limit cells p = (case p of None \<Rightarrow> Ret 0 | Some i \<Rightarrow> count_cells limit (drop i cells))"

definition present :: "nat option \<Rightarrow> byte" where
  "present p = (if p \<noteq> None then 1 else 0)"

definition fill_config ::
  "(od_t \<Rightarrow> u16 \<Rightarrow> nat option) \<Rightarrow> od_t option \<Rightarrow> stack_config option \<Rightarrow> (int \<times> stack_config option) outcome" where
  "fill_config OD_find od config = (case (od, config) of
       (Some d, Some c) \<Rightarrow>
         let find = OD_find d; cells = (case od_list d of None \<Rightarrow> [] | Some cells \<Rightarrow> cells) in
         bind_outcome (element_length cells (find 0x1016)) (\<lambda>n1016.
         bind_outcome (element_length cells (find 0x1003)) (\<lambda>n1003.
         bind_outcome (count_entries_below 0x1600 cells (find 0x1400)) (\<lambda>rpdo.
         bind_outcome (count_entries_below 0x1A00 cells (find 0x1800)) (\<lambda>tpdo.
         Ret (0, Some (c\<lparr>ENTRY_H1017 := find 0x1017, CNT_NMT := present (find 0x1017),
             ENTRY_H1016 := find 0x1016, CNT_HB_CONS := present (find 0x1016), CNT_ARR_1016 := n1016,
             ENTRY_H1003 := find 0x1003, CNT_EM := present (find 0x1003), CNT_ARR_1003 := n1003,
             ENTRY_H1001 := find 0x1001, ENTRY_H1014 := find 0x1014, ENTRY_H1015 := find 0x1015,
             ENTRY_H1200 := find 0x1200, CNT_SDO_SRV := present (find 0x1200),
             ENTRY_H1280 := find 0x1280, CNT_SDO_CLI := present (find 0x1280),
             ENTRY_H1012 := find 0x1012, CNT_TIME := present (find 0x1012),
             ENTRY_H1005 := find 0x1005, CNT_SYNC := present (find 0x1005),
             ENTRY_H1006 := find 0x1006, ENTRY_H1007 := find 0x1007, ENTRY_H1019 := find 0x1019,
             CNT_RPDO := rpdo, ENTRY_H1400 := find 0x1400, ENTRY_H1600 := find 0x1600,
             CNT_TPDO := tpdo, ENTRY_H1800 := find 0x1800, ENTRY_H1A00 := find 0x1A00,
             CNT_LEDS := 0, CNT_GFC := 0, ENTRY_H1300 := None, CNT_SRDO := 0, ENTRY_H1301 := None, ENTRY_H1381 := None,
             ENTRY_H13FE := None, ENTRY_H13FF := None, CNT_LSS_SLV := 0, CNT_LSS_MST := 0, CNT_GTWA := 0, CNT_TRACE := 0\<rparr>))))))
     | _ \<Rightarrow> Ret (-1, config))"

section \<open>Identifiers of the PDOs\<close>

text \<open>
  \<open>OD_get_u32\<close> and \<open>OD_set_u32\<close> of the stack on an entry and subindex: a read that fails leaves the variable as it is, and what
  a write reports is not looked at. The variable \<open>cob_id\<close> is \<open>None\<close> until it is first written, and keeps its value from entry to entry.
\<close>

record u32_access =
  OD_get_u32 :: "od_entry \<Rightarrow> nat \<Rightarrow> u32 option"
  OD_set_u32 :: "od_entry \<Rightarrow> nat \<Rightarrow> u32 \<Rightarrow> od_entry"

definition fix_range :: "u32_access \<Rightarrow> byte \<Rightarrow> u16 \<Rightarrow> u16 \<Rightarrow> u32 \<Rightarrow> u32 option \<Rightarrow> od_entry \<Rightarrow> (u32 option \<times> od_entry) outcome" where
  "fix_range acc nid first limit base cob_id entry =
     (if first \<le> entry_index entry \<and> entry_index entry < limit then
        let i = unat (entry_index entry) - unat first;
            cob_id' = (case OD_get_u32 acc entry 1 of Some v \<Rightarrow> Some v | None \<Rightarrow> cob_id)
        in case cob_id' of
             None \<Rightarrow> Fault Uninitialised
           | Some c \<Rightarrow>
               Ret (cob_id', if c AND 0x7FF = base + (0x100 * of_nat (i mod 4) + of_nat (i div 4))
                             then OD_set_u32 acc entry 1 (c + ucast nid) else entry)
      else Ret (cob_id, entry))"

definition fix_entry :: "u32_access \<Rightarrow> byte \<Rightarrow> u32 option \<Rightarrow> od_entry \<Rightarrow> (u32 option \<times> od_entry) outcome" where
  "fix_entry acc nid cob_id e =
     bind_outcome (fix_range acc nid 0x1400 0x1600 0x200 cob_id e) (\<lambda>(c1, e1). fix_range acc nid 0x1800 0x1A00 0x180 c1 e1)"

fun fix_cells :: "u32_access \<Rightarrow> byte \<Rightarrow> u32 option \<Rightarrow> nat \<Rightarrow> od_entry option list \<Rightarrow> od_entry option list outcome" where
  "fix_cells acc nid cob_id 0 cells = Ret cells"
| "fix_cells acc nid cob_id (Suc n) [] = Fault Out_of_bounds"
| "fix_cells acc nid cob_id (Suc n) (None # cells) = Fault Uninitialised"
| "fix_cells acc nid cob_id (Suc n) (Some e # cells) =
     bind_outcome (fix_entry acc nid cob_id e) (\<lambda>(c1, e1).
     bind_outcome (fix_cells acc nid c1 n cells) (\<lambda>cells'. Ret (Some e1 # cells')))"

definition fix_cob_ids :: "u32_access \<Rightarrow> od_t option \<Rightarrow> byte \<Rightarrow> od_t option outcome" where
  "fix_cob_ids acc od nid = (case od of
       None \<Rightarrow> Ret None
     | Some d \<Rightarrow>
         (case od_list d of
            None \<Rightarrow> if od_size d = 0 then Ret od else Fault Null_pointer
          | Some cells \<Rightarrow>
              bind_outcome (fix_cells acc nid None (unat (od_size d)) cells) (\<lambda>cells'. Ret (Some (d\<lparr>od_list := Some cells'\<rparr>)))))"

section \<open>Opening the publisher\<close>

text \<open>
  \<^verbatim>\<open>OD_extension_init\<close> stores the extension in the entry, so that writes of the objects of the card are published. Sockets open
  whenever there is a context.
\<close>

definition hook_entry :: "od_entry \<Rightarrow> od_entry" where
  "hook_entry e = (if 0x4000 \<le> entry_index e then e\<lparr>entry_extension := Ext_hook\<rparr> else e)"

fun hook_cells :: "nat \<Rightarrow> od_entry option list \<Rightarrow> od_entry option list outcome" where
  "hook_cells 0 cells = Ret cells"
| "hook_cells (Suc n) [] = Fault Out_of_bounds"
| "hook_cells (Suc n) (None # cells) = Fault Uninitialised"
| "hook_cells (Suc n) (Some e # cells) =
     bind_outcome (hook_cells n cells) (\<lambda>cells'. Ret (Some (hook_entry e) # cells'))"

definition ipc_broadcast_init :: "bool \<Rightarrow> od_t option \<Rightarrow> broadcaster \<Rightarrow> (int \<times> od_t option \<times> broadcaster) outcome" where
  "ipc_broadcast_init context od b = (case od of
       None \<Rightarrow> Ret (- EINVAL, od, b)
     | Some d \<Rightarrow>
         if \<not> context then Ret (- EINVAL, od, b)
         else (case od_list d of
                 None \<Rightarrow> if od_size d = 0 then Ret (0, od, b\<lparr>bc_open := True\<rparr>) else Fault Null_pointer
               | Some cells \<Rightarrow>
                   bind_outcome (hook_cells (unat (od_size d)) cells) (\<lambda>cells'.
                   Ret (0, Some (d\<lparr>od_list := Some cells'\<rparr>), b\<lparr>bc_open := True\<rparr>))))"

text \<open>The sockets of the daemon: the publisher, the consumer and the responder, and the context they belong to.\<close>

record ipc_sockets =
  sock_context :: bool
  sock_consumer :: bool
  sock_responder :: bool

definition ipc_consume_init :: "bool \<Rightarrow> ipc_sockets \<Rightarrow> int \<times> ipc_sockets" where
  "ipc_consume_init context s = (if \<not> context then (- EINVAL, s) else (0, s\<lparr>sock_consumer := True\<rparr>))"

definition ipc_respond_init :: "bool \<Rightarrow> ipc_sockets \<Rightarrow> int \<times> ipc_sockets" where
  "ipc_respond_init context s = (if \<not> context then (- EINVAL, s) else (0, s\<lparr>sock_responder := True\<rparr>))"

definition ipc_init :: "bool \<Rightarrow> od_t option \<Rightarrow> broadcaster \<Rightarrow> ipc_sockets \<Rightarrow> (od_t option \<times> broadcaster \<times> ipc_sockets) outcome" where
  "ipc_init zmq_ctx_new od b s =
     (let s1 = s\<lparr>sock_context := zmq_ctx_new\<rparr> in
      if zmq_ctx_new
      then bind_outcome (ipc_broadcast_init zmq_ctx_new od b) (\<lambda>(r, od', b').
           Ret (od', b', snd (ipc_respond_init zmq_ctx_new (snd (ipc_consume_init zmq_ctx_new s1)))))
      else Ret (od, b, s1))"

definition ipc_broadcast_free :: "broadcaster \<Rightarrow> broadcaster" where
  "ipc_broadcast_free b = (if bc_open b then b\<lparr>bc_open := False\<rparr> else b)"

definition ipc_consume_free :: "ipc_sockets \<Rightarrow> ipc_sockets" where
  "ipc_consume_free s = (if sock_consumer s then s\<lparr>sock_consumer := False\<rparr> else s)"

definition ipc_respond_free :: "ipc_sockets \<Rightarrow> ipc_sockets" where
  "ipc_respond_free s = (if sock_responder s then s\<lparr>sock_responder := False\<rparr> else s)"

definition ipc_free :: "broadcaster \<Rightarrow> ipc_sockets \<Rightarrow> broadcaster \<times> ipc_sockets" where
  "ipc_free b s = (if sock_context s then (ipc_broadcast_free b, ipc_respond_free (ipc_consume_free s)) else (b, s))"

section \<open>Walking over the list\<close>

text \<open>
  Two loops pass over as many cells of the list as the dictionary has objects, with something carried from entry to entry. The contract is the
  step on one entry; an unset cell ends the walk.
\<close>

locale cell_walk =
  fixes walk :: "'s \<Rightarrow> nat \<Rightarrow> od_entry option list \<Rightarrow> od_entry option list outcome"
    and step :: "'s \<Rightarrow> od_entry \<Rightarrow> ('s \<times> od_entry) outcome"
  assumes walk_0: "walk s 0 cells = Ret cells"
    and walk_past_end: "walk s (Suc n) [] = Fault Out_of_bounds"
    and walk_unset: "walk s (Suc n) (None # cells) = Fault Uninitialised"
    and walk_set: "walk s (Suc n) (Some e # cells) =
      bind_outcome (step s e) (\<lambda>(s', e'). bind_outcome (walk s' n cells) (\<lambda>cells'. Ret (Some e' # cells')))"
begin

lemma walk_maps:
  "(\<And>s e. e \<in> set es \<Longrightarrow> \<exists>s'. step s e = Ret (s', f e)) \<Longrightarrow> walk s (length es) (map Some es @ rest) = Ret (map Some (map f es) @ rest)"
proof (induction es arbitrary: s)
  case (Cons e es)
  obtain s' where "step s e = Ret (s', f e)" using Cons.prems [of e s] by auto
  moreover have "walk s' (length es) (map Some es @ rest) = Ret (map Some (map f es) @ rest)" using Cons by simp
  ultimately show ?case by (simp add: walk_set)
qed (simp add: walk_0)

lemma walk_reaches_unset:
  "(\<And>s e. e \<in> set es \<Longrightarrow> \<exists>r. step s e = Ret r) \<Longrightarrow> length es < n \<Longrightarrow> walk s n (map Some es @ None # rest) = Fault Uninitialised"
proof (induction es arbitrary: s n)
  case Nil
  then show ?case by (cases n) (simp_all add: walk_unset)
next
  case (Cons e es)
  obtain m where n: "n = Suc m" using Cons.prems(2) by (cases n) auto
  obtain s' e' where "step s e = Ret (s', e')" using Cons.prems(1) [of e s] by auto
  moreover have "walk s' m (map Some es @ None # rest) = Fault Uninitialised" using Cons n by simp
  ultimately show ?case by (simp add: n walk_set)
qed

end

interpretation fixing: cell_walk "fix_cells acc nid" "fix_entry acc nid"
  by unfold_locales simp_all

interpretation hooking: cell_walk "\<lambda>_ :: unit. hook_cells" "\<lambda>s e. Ret (s, hook_entry e)"
  by unfold_locales simp_all

section \<open>Identifiers with the number of the node\<close>

text \<open>What the stack documents of the two functions: a write is read back, and leaves the index of the entry alone.\<close>

definition u32_access_ok :: "u32_access \<Rightarrow> bool" where
  "u32_access_ok acc \<longleftrightarrow> (\<forall>e v. entry_index (OD_set_u32 acc e 1 v) = entry_index e \<and> OD_get_u32 acc (OD_set_u32 acc e 1 v) 1 = Some v)"

text \<open>The PDO objects and the identifiers that CANopen gives them before the number of the node is added.\<close>

definition is_rpdo :: "u16 \<Rightarrow> bool" where "is_rpdo i \<longleftrightarrow> 0x1400 \<le> i \<and> i < 0x1600"
definition is_tpdo :: "u16 \<Rightarrow> bool" where "is_tpdo i \<longleftrightarrow> 0x1800 \<le> i \<and> i < 0x1A00"

definition default_cob_id :: "u16 \<Rightarrow> u32" where
  "default_cob_id i =
     (let k = unat i - (if is_rpdo i then 0x1400 else 0x1800) in
      (if is_rpdo i then 0x200 else 0x180) + (0x100 * of_nat (k mod 4) + of_nat (k div 4)))"

definition fixed :: "u32_access \<Rightarrow> byte \<Rightarrow> od_entry \<Rightarrow> od_entry" where
  "fixed acc nid e =
     (case OD_get_u32 acc e 1 of
        Some v \<Rightarrow>
          if (is_rpdo (entry_index e) \<or> is_tpdo (entry_index e)) \<and> v AND 0x7FF = default_cob_id (entry_index e)
          then OD_set_u32 acc e 1 (v + ucast nid) else e
      | None \<Rightarrow> e)"

lemma not_both_pdo: "is_rpdo i \<Longrightarrow> \<not> is_tpdo i"
  by (auto simp: is_rpdo_def is_tpdo_def word_le_nat_alt word_less_nat_alt)

lemma fix_entry_fixed:
  assumes "u32_access_ok acc" and "is_rpdo (entry_index e) \<or> is_tpdo (entry_index e) \<Longrightarrow> OD_get_u32 acc e 1 \<noteq> None"
  shows "\<exists>c'. fix_entry acc nid c e = Ret (c', fixed acc nid e)"
proof -
  have keep: "entry_index (OD_set_u32 acc e 1 v) = entry_index e" for v using assms(1) by (simp add: u32_access_ok_def)
  consider (r) "is_rpdo (entry_index e)" | (t) "is_tpdo (entry_index e)" "\<not> is_rpdo (entry_index e)" | (n) "\<not> is_rpdo (entry_index e)" "\<not> is_tpdo (entry_index e)"
    by blast
  then show ?thesis
  proof cases
    case r
    then obtain v where "OD_get_u32 acc e 1 = Some v" using assms(2) by auto
    then show ?thesis using r not_both_pdo [OF r] keep
      by (auto simp: fix_entry_def fix_range_def fixed_def default_cob_id_def is_rpdo_def is_tpdo_def Let_def)
  next
    case t
    then obtain v where "OD_get_u32 acc e 1 = Some v" using assms(2) by auto
    then show ?thesis using t by (auto simp: fix_entry_def fix_range_def fixed_def default_cob_id_def is_rpdo_def is_tpdo_def Let_def)
  next
    case n
    then have "fixed acc nid e = e" by (simp add: fixed_def split: option.split)
    then show ?thesis using n by (auto simp: fix_entry_def fix_range_def is_rpdo_def is_tpdo_def)
  qed
qed

lemma fixed_value:
  assumes "u32_access_ok acc"
  shows "entry_index (fixed acc nid e) = entry_index e"
    and "is_rpdo (entry_index e) \<or> is_tpdo (entry_index e) \<Longrightarrow> OD_get_u32 acc e 1 = Some v \<Longrightarrow>
      OD_get_u32 acc (fixed acc nid e) 1 = Some (if v AND 0x7FF = default_cob_id (entry_index e) then v + ucast nid else v)"
    and "\<not> is_rpdo (entry_index e) \<Longrightarrow> \<not> is_tpdo (entry_index e) \<Longrightarrow> fixed acc nid e = e"
  using assms by (auto simp: fixed_def u32_access_ok_def split: option.split)

text \<open>Adding the number of a node changes the low 11 bits.\<close>

lemma low_bits_change:
  fixes v :: u32 and nid :: byte
  assumes "nid \<noteq> 0"
  shows "(v + ucast nid) AND 0x7FF \<noteq> v AND 0x7FF"
proof
  assume eq: "(v + ucast nid) AND 0x7FF = v AND 0x7FF"
  have mask: "unat (w AND 0x7FF) = unat w mod 2048" for w :: u32
  proof -
    have "w AND 0x7FF = take_bit 11 w" by (simp add: take_bit_eq_mask mask_eq_exp_minus_1)
    then show ?thesis by (simp add: unsigned_take_bit_eq) (simp add: take_bit_eq_mod)
  qed
  have small: "unat nid < 256" using unsigned_less [of nid, where ?'a = nat] by simp
  then have "unat nid < 2 ^ 32" by (rule less_trans) simp
  then have "take_bit 32 (unat nid) = unat nid" by (rule take_bit_nat_eq_self)
  then have n: "unat (ucast nid :: u32) = unat nid" "unat nid < 256" "unat nid \<noteq> 0"
    using assms small by (simp_all add: unsigned_ucast_eq unsigned_eq_0_iff)
  have "unat (v + ucast nid) mod 2048 = (unat v + unat nid) mod 2048"
    unfolding unat_word_ariths n(1) by (rule mod_mod_cancel) simp
  then have "(unat v + unat nid) mod 2048 = unat v mod 2048" using arg_cong [OF eq, of unat] mask by simp
  then have "2048 dvd unat nid" by (metis add_diff_cancel_left' dvd_minus_mod mod_eq_dvd_iff_nat le_add1)
  then show False using n(2,3) dvd_imp_le [of 2048 "unat nid"] by linarith
qed

lemma fixed_twice:
  assumes "u32_access_ok acc" and "nid \<noteq> 0"
  shows "fixed acc nid (fixed acc nid e) = fixed acc nid e"
proof (cases "(is_rpdo (entry_index e) \<or> is_tpdo (entry_index e)) \<and> (\<exists>v. OD_get_u32 acc e 1 = Some v \<and> v AND 0x7FF = default_cob_id (entry_index e))")
  case True
  then obtain v where v: "OD_get_u32 acc e 1 = Some v" "v AND 0x7FF = default_cob_id (entry_index e)" "is_rpdo (entry_index e) \<or> is_tpdo (entry_index e)" by auto
  then have f: "fixed acc nid e = OD_set_u32 acc e 1 (v + ucast nid)" by (auto simp: fixed_def)
  have "(v + ucast nid) AND 0x7FF \<noteq> default_cob_id (entry_index e)" using low_bits_change [OF assms(2), of v] v(2) by simp
  then show ?thesis using assms(1) unfolding f by (auto simp: fixed_def u32_access_ok_def)
next
  case False
  then have "fixed acc nid e = e" by (auto simp: fixed_def split: option.split)
  then show ?thesis by simp
qed

lemma fix_cells_fixed:
  assumes "u32_access_ok acc" and "\<forall>e \<in> set es. is_rpdo (entry_index e) \<or> is_tpdo (entry_index e) \<longrightarrow> OD_get_u32 acc e 1 \<noteq> None"
  shows "fix_cells acc nid c (length es) (map Some es @ rest) = Ret (map Some (map (fixed acc nid) es) @ rest)"
  by (rule fixing.walk_maps) (use fix_entry_fixed [OF assms(1)] assms(2) in blast)

text \<open>
  C20: the identifiers of the PDOs. In a dictionary whose list is set as far as its size says, and whose PDO objects have an identifier, the daemon adds the
  number of the node to each identifier that is the one CANopen predefines, and touches no other object; running it again
  changes nothing more.
\<close>

theorem fix_cob_ids_once:
  assumes "u32_access_ok acc" and "nid \<noteq> 0"
    and "od_list d = Some (map Some es @ rest)" and "unat (od_size d) = length es"
    and "\<forall>e \<in> set es. is_rpdo (entry_index e) \<or> is_tpdo (entry_index e) \<longrightarrow> OD_get_u32 acc e 1 \<noteq> None"
  shows "\<exists>es'. fix_cob_ids acc (Some d) nid = Ret (Some (d\<lparr>od_list := Some (map Some es' @ rest)\<rparr>)) \<and> length es' = length es
    \<and> (\<forall>i < length es. let e = es ! i; e' = es' ! i in
          if is_rpdo (entry_index e) \<or> is_tpdo (entry_index e)
          then \<exists>v. OD_get_u32 acc e 1 = Some v \<and> entry_index e' = entry_index e
             \<and> OD_get_u32 acc e' 1 = Some (if v AND 0x7FF = default_cob_id (entry_index e) then v + ucast nid else v)
          else e' = e)
    \<and> fix_cob_ids acc (Some (d\<lparr>od_list := Some (map Some es' @ rest)\<rparr>)) nid = Ret (Some (d\<lparr>od_list := Some (map Some es' @ rest)\<rparr>))"
proof -
  let ?es' = "map (fixed acc nid) es"
  have 1: "fix_cob_ids acc (Some d) nid = Ret (Some (d\<lparr>od_list := Some (map Some ?es' @ rest)\<rparr>))"
    using fix_cells_fixed [OF assms(1,5), of nid None rest] assms(3,4) by (simp add: fix_cob_ids_def)
  have "\<forall>e \<in> set ?es'. is_rpdo (entry_index e) \<or> is_tpdo (entry_index e) \<longrightarrow> OD_get_u32 acc e 1 \<noteq> None"
  proof
    fix e' assume "e' \<in> set ?es'"
    then obtain e where e: "e \<in> set es" "e' = fixed acc nid e" by auto
    then show "is_rpdo (entry_index e') \<or> is_tpdo (entry_index e') \<longrightarrow> OD_get_u32 acc e' 1 \<noteq> None"
      using fixed_value(1) [OF assms(1)] fixed_value(2) [OF assms(1)] assms(5) by fastforce
  qed
  from fix_cells_fixed [OF assms(1) this, of nid None rest]
  have 2: "fix_cob_ids acc (Some (d\<lparr>od_list := Some (map Some ?es' @ rest)\<rparr>)) nid = Ret (Some (d\<lparr>od_list := Some (map Some ?es' @ rest)\<rparr>))"
    using assms(4) by (simp add: fix_cob_ids_def fixed_twice [OF assms(1,2)] comp_def)
  have 3: "let e = es ! i; e' = ?es' ! i in
      if is_rpdo (entry_index e) \<or> is_tpdo (entry_index e)
      then \<exists>v. OD_get_u32 acc e 1 = Some v \<and> entry_index e' = entry_index e
         \<and> OD_get_u32 acc e' 1 = Some (if v AND 0x7FF = default_cob_id (entry_index e) then v + ucast nid else v)
      else e' = e" if i: "i < length es" for i
  proof (cases "is_rpdo (entry_index (es ! i)) \<or> is_tpdo (entry_index (es ! i))")
    case True
    then obtain v where "OD_get_u32 acc (es ! i) 1 = Some v" using assms(5) nth_mem [OF i] by blast
    with True fixed_value(1) [OF assms(1)] fixed_value(2) [OF assms(1) True this] i show ?thesis by (simp add: Let_def)
  next
    case False
    then show ?thesis using fixed_value(3) [OF assms(1), of "es ! i"] i by (simp add: Let_def)
  qed
  show ?thesis using 1 2 3 by (intro exI [of _ ?es']) simp
qed

section \<open>Built-in entries behind the table\<close>

lemma first_unset: "None \<in> set (take n cells) \<Longrightarrow> \<exists>es rest. cells = map Some es @ None # rest \<and> length es < n"
proof (induction cells arbitrary: n)
  case (Cons c cells)
  then obtain m where n: "n = Suc m" by (cases n) auto
  show ?case
  proof (cases c)
    case None
    then show ?thesis by (intro exI [of _ "[]"] exI [of _ cells]) (simp add: n)
  next
    case (Some e)
    then obtain es rest where "cells = map Some es @ None # rest" "length es < m" using Cons.IH [of m] Cons.prems n by auto
    then show ?thesis by (intro exI [of _ "e # es"] exI [of _ rest]) (simp add: n Some)
  qed
qed simp

lemma nth_unset: "xs ! j = None \<Longrightarrow> j < n \<Longrightarrow> j < length xs \<Longrightarrow> None \<in> set (take n xs)"
  by (auto simp: in_set_conv_nth intro!: exI [of _ j])

lemma fix_cells_unset:
  assumes "None \<in> set (take n cells)" and "u32_access_ok acc"
    and "\<forall>e. is_rpdo (entry_index e) \<or> is_tpdo (entry_index e) \<longrightarrow> OD_get_u32 acc e 1 \<noteq> None"
  shows "fix_cells acc nid c n cells = Fault Uninitialised"
proof -
  obtain es rest where "cells = map Some es @ None # rest" "length es < n" using first_unset [OF assms(1)] by blast
  moreover have "\<exists>r. fix_entry acc nid s e = Ret r" for s e using fix_entry_fixed [OF assms(2), of e nid s] assms(3) by auto
  ultimately show ?thesis using fixing.walk_reaches_unset [of es acc nid n c rest] by simp
qed

lemma by_index_distinct: "by_index es \<Longrightarrow> distinct es"
  by (induction es) auto

lemma od_merge_misses:
  assumes "by_index OD" and "by_index cs" and "cs \<noteq> []" and "entry_index ` set cs \<inter> entry_index ` set OD = {}"
    and "i \<in> set OD" and "entry_index (last cs) < entry_index i"
  shows "length (od_merge OD cs) < length OD + length cs"
proof -
  have "length (od_merge OD cs) = card (set (od_merge OD cs))"
    by (rule distinct_card [symmetric]) (rule by_index_distinct [OF od_merge_sorted [OF assms(2,1,4)]])
  also have "\<dots> \<le> card (set cs \<union> (set OD - {i}))"
    using od_merge_set [OF assms(2,3,1)] assms(6) by (intro card_mono) auto
  also have "\<dots> \<le> card (set cs) + card (set OD - {i})" by (rule card_Un_le)
  also have "\<dots> < length cs + length OD"
    using card_length [of cs] card_Diff1_less [OF finite_set assms(5)] card_length [of OD] by linarith
  finally show ?thesis by simp
qed

text \<open>
  C37: loading and fixing together. When a built-in entry lies behind the last variable of the table, it is not in the list although the size of the dictionary
  counts it: the walk of \<^verbatim>\<open>fix_cob_ids\<close> over the dictionary that was just loaded runs into memory nobody has written. The hypothesis on the sizes says that the
  memory cleared at the start does not reach the cell behind the built-in entries; it holds for the structures of the stack, where an entry
  is six times as large as a length.
\<close>

theorem load_then_fix_reads_unset:
  assumes "\<forall>v \<in> set vs. spec_loads env v \<and> of_nat (vs_index v) \<notin> entry_index ` set OD"
    and "header_ok header" and "data_ok data"
    and "fs_open_rd fs path = Inr (File (bytes_of_string (table_text header vs)))"
    and "length OD + length vs < 2 ^ 31" and "\<forall>b. malloc_ok env b"
    and "by_index OD" and "by_index (map (var_entry env Ext_null) vs)" and "vs \<noteq> []"
    and "i \<in> set OD" and "of_nat (vs_index (last vs)) < entry_index i"
    and "sizeof_size env * (length OD + 1) < length OD * sizeof_entry env + 2" and "2 \<le> sizeof_entry env"
    and "u32_access_ok acc" and "\<forall>e. is_rpdo (entry_index e) \<or> is_tpdo (entry_index e) \<longrightarrow> OD_get_u32 acc e 1 \<noteq> None"
  shows "\<exists>od. od_config_load env OD data (Some path) fs True = Ret (0, Some od, []) \<and> fix_cob_ids acc (Some od) nid = Fault Uninitialised"
proof -
  let ?cs = "map (var_entry env Ext_null) vs" and ?k = "length vs"
  let ?n = "length OD + ?k"
  define m where "m = length (od_merge OD ?cs)"
  obtain new where load: "od_config_load env OD data (Some path) fs True =
      Ret (0, Some \<lparr>od_list = Some (new @ drop m (fresh_list env True OD ?k)), od_size = of_nat ?n\<rparr>, [])"
    and new: "map (map_option bare) new = map (\<lambda>e. Some (bare e)) (od_merge OD ?cs)"
    using od_config_load_table [OF assms(1-4) refl, of True "od_merge OD ?cs"] assms(5,6) by (auto simp: m_def)
  have "entry_index ` set ?cs \<inter> entry_index ` set OD = {}" using assms(1) by auto
  then have m: "m < ?n"
    using od_merge_misses [OF assms(7,8) _ _ assms(10)] assms(9,11) by (simp add: m_def last_map)
  have len: "length new = m" "length (fresh_list env True OD ?k) = ?n + 1"
    using arg_cong [OF new, of length] by (simp_all add: m_def fresh_list_def start_list_def)
  have "fresh_list env True OD ?k ! (?n - 1) = None"
  proof (cases "?k = 1")
    case True
    then show ?thesis using assms(12,13) by (simp add: fresh_list_def start_list_def nth_append cleared_cell_def Let_def)
  next
    case False
    moreover have "?k \<noteq> 0" using assms(9) by simp
    ultimately have "length OD + 1 \<le> ?n - 1" "?n - 1 - (length OD + 1) < ?k" by linarith+
    then show ?thesis by (simp add: fresh_list_def start_list_def nth_append)
  qed
  moreover have "\<not> ?n - 1 < m" "m + (?n - 1 - m) = ?n - 1" using m by linarith+
  ultimately have "(new @ drop m (fresh_list env True OD ?k)) ! (?n - 1) = None" using len by (simp add: nth_append)
  moreover have "?n - 1 < ?n" "?n - 1 < length (new @ drop m (fresh_list env True OD ?k))" using m len by auto
  ultimately have "None \<in> set (take ?n (new @ drop m (fresh_list env True OD ?k)))" by (rule nth_unset)
  then have "fix_cells acc nid None ?n (new @ drop m (fresh_list env True OD ?k)) = Fault Uninitialised" by (rule fix_cells_unset [OF _ assms(14,15)])
  moreover have "unat (of_nat ?n :: u32) = ?n" using assms(5) by (intro unat_u32) simp
  ultimately show ?thesis using load by (intro exI [of _ "\<lparr>od_list = Some (new @ drop m (fresh_list env True OD ?k)), od_size = of_nat ?n\<rparr>"])
      (simp add: fix_cob_ids_def del: of_nat_add)
qed

section \<open>Counting\<close>

text \<open>What the stack documents of its search, on a list with these entries.\<close>

definition finds :: "(od_t \<Rightarrow> u16 \<Rightarrow> nat option) \<Rightarrow> od_t \<Rightarrow> od_entry list \<Rightarrow> bool" where
  "finds OD_find d es \<longleftrightarrow>
     (\<forall>ix. case OD_find d ix of None \<Rightarrow> ix \<notin> entry_index ` set es | Some i \<Rightarrow> i < length es \<and> entry_index (es ! i) = ix)"

lemma finds_iff: "finds OD_find d es \<Longrightarrow> OD_find d ix \<noteq> None \<longleftrightarrow> ix \<in> entry_index ` set es"
  unfolding finds_def by (drule spec [of _ ix]) (auto split: option.splits)

lemma finds_at: "finds OD_find d es \<Longrightarrow> OD_find d ix = Some i \<Longrightarrow> i < length es \<and> entry_index (es ! i) = ix"
  unfolding finds_def by (drule spec [of _ ix]) simp

lemma count_cells_takeWhile:
  "\<exists>z \<in> set xs. \<not> entry_index z < limit \<Longrightarrow> count_cells limit (map Some xs @ rest) = Ret (of_nat (length (takeWhile (\<lambda>e. entry_index e < limit) xs)))"
  by (induction xs) (auto simp: add.commute)

lemma count_cells_past: "\<forall>x \<in> set xs. entry_index x < limit \<Longrightarrow> count_cells limit (map Some xs) = Fault Out_of_bounds"
  by (induction xs) auto

text \<open>In a sorted list the entries from a position on and below a limit are those of a range.\<close>

lemma range_of_sorted:
  assumes "by_index es" and "i < length es"
  shows "takeWhile (\<lambda>e. entry_index e < limit) (drop i es) = filter (\<lambda>e. entry_index (es ! i) \<le> entry_index e \<and> entry_index e < limit) es"
proof -
  let ?P = "\<lambda>e. entry_index e < limit" and ?Q = "\<lambda>e. entry_index (es ! i) \<le> entry_index e \<and> entry_index e < limit"
  have le: "entry_index (es ! a) \<le> entry_index (es ! b)" if "a \<le> b" "b < length es" for a b
    using sorted_wrt_nth_less [OF assms(1), of a b] that by (cases "a = b") auto
  have front: "filter ?Q (take i es) = []"
  proof -
    have "entry_index e < entry_index (es ! i)" if "e \<in> set (take i es)" for e
      using that assms sorted_wrt_nth_less [OF assms(1)] by (auto simp: in_set_conv_nth)
    then show ?thesis by (auto simp: filter_empty_conv not_le [symmetric])
  qed
  have ge: "entry_index (es ! i) \<le> entry_index e" if "e \<in> set (drop i es)" for e
    using that le assms(2) by (auto simp: in_set_conv_nth)
  have sorted: "by_index (drop i es)" using assms(1) by (rule sorted_wrt_drop)
  have "\<not> ?P e" if e: "e \<in> set (dropWhile ?P (drop i es))" for e
  proof -
    obtain a as where a: "dropWhile ?P (drop i es) = a # as" using e by (cases "dropWhile ?P (drop i es)") auto
    have "by_index (a # as)" using sorted a by (metis sorted_wrt_append takeWhile_dropWhile_id)
    then have "entry_index a \<le> entry_index e" using e a by auto
    moreover have "\<not> ?P a" using hd_dropWhile [of ?P "drop i es"] a by simp
    ultimately show ?thesis by auto
  qed
  then have "takeWhile ?P (drop i es) = filter ?P (drop i es)" by (rule takeWhile_eq_filter)
  also have "\<dots> = filter ?Q (drop i es)" using ge by (intro filter_cong) auto
  also have "\<dots> = filter ?Q (take i es @ drop i es)" using front by (simp only: filter_append append_Nil)
  finally show ?thesis by simp
qed

lemma count_range:
  assumes "by_index es" and "finds OD_find d es" and "z \<in> set es" and "limit \<le> entry_index z"
    and "first < limit"
  shows "count_entries_below limit (map Some es @ rest) (OD_find d first) =
     Ret (if first \<in> entry_index ` set es then of_nat (length (filter (\<lambda>e. first \<le> entry_index e \<and> entry_index e < limit) es)) else 0)"
proof (cases "OD_find d first")
  case None
  then show ?thesis using finds_iff [OF assms(2), of first] by (simp add: count_entries_below_def)
next
  case (Some i)
  then have i: "i < length es" "entry_index (es ! i) = first" using finds_at [OF assms(2)] by simp_all
  have "z \<in> set (drop i es)"
  proof -
    obtain j where j: "j < length es" "es ! j = z" using assms(3) by (auto simp: in_set_conv_nth)
    have "i \<le> j"
    proof (rule ccontr)
      assume "\<not> i \<le> j"
      then have "entry_index z < first" using sorted_wrt_nth_less [OF assms(1), of j i] i j by simp
      then show False using assms(4,5) by (simp add: not_le [symmetric] flip: not_le)
    qed
    then show ?thesis using j by (auto simp: in_set_conv_nth intro!: exI [of _ "j - i"])
  qed
  then have "\<exists>z \<in> set (drop i es). \<not> entry_index z < limit" using assms(4) by (auto simp: not_less)
  from count_cells_takeWhile [OF this, of rest] range_of_sorted [OF assms(1) i(1), of limit]
  have "count_cells limit (drop i (map Some es @ rest)) = Ret (of_nat (length (filter (\<lambda>e. first \<le> entry_index e \<and> entry_index e < limit) es)))"
    using i by (simp add: drop_map)
  moreover have "first \<in> entry_index ` set es" using i by auto
  ultimately show ?thesis by (simp add: count_entries_below_def Some)
qed

lemma element_length_array:
  assumes "finds OD_find d es" and "\<forall>e \<in> set es. entry_index e = ix \<longrightarrow> (\<exists>a. entry_object e = Obj_arr a)"
  obtains n where "element_length (map Some es @ rest) (OD_find d ix) = Ret n"
    "\<And>e a. by_index es \<Longrightarrow> e \<in> set es \<Longrightarrow> entry_index e = ix \<Longrightarrow> entry_object e = Obj_arr a \<Longrightarrow> n = of_nat (arr_elementLength a)"
proof (cases "OD_find d ix")
  case None
  then show ?thesis using that [of 0] finds_iff [OF assms(1), of ix] by (auto simp: element_length_def)
next
  case (Some i)
  then have i: "i < length es" "entry_index (es ! i) = ix" using finds_at [OF assms(1)] by simp_all
  then obtain a where a: "entry_object (es ! i) = Obj_arr a" using assms(2) nth_mem by blast
  have uniq: "e = es ! i" if e: "by_index es" "e \<in> set es" "entry_index e = ix" for e
  proof -
    obtain j where "j < length es" "es ! j = e" using e(2) by (auto simp: in_set_conv_nth)
    then show ?thesis using sorted_wrt_nth_less [OF e(1), of i j] sorted_wrt_nth_less [OF e(1), of j i] i e(3) by (cases i j rule: linorder_cases) auto
  qed
  show ?thesis
  proof (rule that [of "of_nat (arr_elementLength a)"])
    show "element_length (map Some es @ rest) (OD_find d ix) = Ret (of_nat (arr_elementLength a))"
      using i a by (simp add: element_length_def Some entry_at_def nth_append)
  next
    fix e b
    assume "by_index es" "e \<in> set es" "entry_index e = ix" "entry_object e = Obj_arr b"
    then show "of_nat (arr_elementLength a) = (of_nat (arr_elementLength b) :: byte)" using uniq a by fastforce
  qed
qed


text \<open>
  The loops that count PDOs look for an object behind the range, not for the end of the list. When a dictionary has the first receive PDO and no object
  from 0x1600 on, the mark at the end of the list, whose index is 0, is counted as well, and the loop reads behind the list.
\<close>

lemma fill_config_runs_past_list:
  assumes "od_list d = Some (map Some es)" and "\<forall>e \<in> set es. entry_index e < 0x1600" and "OD_find d 0x1400 = Some i" and "i < length es"
    and "\<forall>ix \<in> {0x1016, 0x1003}. case OD_find d ix of None \<Rightarrow> True | Some j \<Rightarrow> j < length es \<and> (\<exists>a. entry_object (es ! j) = Obj_arr a)"
  shows "fill_config OD_find (Some d) (Some c) = Fault Out_of_bounds"
proof -
  have "\<exists>n. element_length (map Some es) (OD_find d ix) = Ret n" if "ix \<in> {0x1016, 0x1003}" for ix
    using bspec [OF assms(5) that] by (auto simp: element_length_def entry_at_def split: option.splits)
  then obtain n1 n2 where "element_length (map Some es) (OD_find d 0x1016) = Ret n1" "element_length (map Some es) (OD_find d 0x1003) = Ret n2" by blast
  moreover have "count_cells 0x1600 (map Some (drop i es)) = Fault Out_of_bounds" by (rule count_cells_past) (use assms(2) in \<open>auto dest: in_set_dropD\<close>)
  then have "count_entries_below 0x1600 (map Some es) (OD_find d 0x1400) = Fault Out_of_bounds" by (simp add: count_entries_below_def assms(3) drop_map)
  ultimately show ?thesis using assms(1) by (simp add: fill_config_def Let_def)
qed

text \<open>
  Start and end of the connections. With a context, the daemon opens its three sockets and hooks the publisher into exactly the objects of the card, those
  from index 0x4000 on; all other entries stay as they are. Closing undoes the opening.
\<close>

lemma ipc_init_hooks_card_objects:
  assumes "od_list d = Some (map Some es @ rest)" and "unat (od_size d) = length es"
  shows "\<exists>es' b' s'. ipc_init True (Some d) b s = Ret (Some (d\<lparr>od_list := Some (map Some es' @ rest)\<rparr>), b', s')
    \<and> length es' = length es
    \<and> (\<forall>i < length es. es' ! i = (if 0x4000 \<le> entry_index (es ! i) then (es ! i)\<lparr>entry_extension := Ext_hook\<rparr> else es ! i))
    \<and> bc_open b' \<and> clients b' = clients b \<and> sock_consumer s' \<and> sock_responder s'
    \<and> (case ipc_free b' s' of (b'', s'') \<Rightarrow> \<not> bc_open b'' \<and> \<not> sock_consumer s'' \<and> \<not> sock_responder s'')"
proof -
  have "hook_cells (length es) (map Some es @ rest) = Ret (map Some (map hook_entry es) @ rest)" using hooking.walk_maps [of es hook_entry] by simp
  then have "ipc_init True (Some d) b s = Ret (Some (d\<lparr>od_list := Some (map Some (map hook_entry es) @ rest)\<rparr>), b\<lparr>bc_open := True\<rparr>,
      s\<lparr>sock_context := True, sock_consumer := True, sock_responder := True\<rparr>)"
    using assms by (simp add: ipc_init_def ipc_broadcast_init_def ipc_consume_init_def ipc_respond_init_def Let_def)
  then show ?thesis
    by (intro exI [of _ "map hook_entry es"] exI [of _ "b\<lparr>bc_open := True\<rparr>"]
        exI [of _ "s\<lparr>sock_context := True, sock_consumer := True, sock_responder := True\<rparr>"])
      (simp add: hook_entry_def ipc_free_def ipc_broadcast_free_def ipc_consume_free_def ipc_respond_free_def)
qed

section \<open>Examples\<close>

text \<open>Access to a value of four bytes, and a search from the front.\<close>

definition ex_access :: u32_access where
  "ex_access =
     \<lparr>OD_get_u32 = (\<lambda>e sub. case entry_object e of
          Obj_var v \<Rightarrow> (case var_data v of Block b \<Rightarrow> Some (of_nat (le_val b)) | _ \<Rightarrow> Some 0) | _ \<Rightarrow> Some 0),
      OD_set_u32 = (\<lambda>e sub w. e\<lparr>entry_object := Obj_var \<lparr>var_data = Block (le_bytes 4 (unat w)), var_length = 4, var_attribute = 0\<rparr>\<rparr>)\<rparr>"

definition linear_find :: "od_t \<Rightarrow> u16 \<Rightarrow> nat option" where
  "linear_find d ix = (case od_list d of
       None \<Rightarrow> None
     | Some cells \<Rightarrow>
         (case filter (\<lambda>i. case cells ! i of Some e \<Rightarrow> entry_index e = ix | None \<Rightarrow> False) [0..<length cells] of [] \<Rightarrow> None | i # _ \<Rightarrow> Some i))"

lemma ex_access_ok: "u32_access_ok ex_access" "OD_get_u32 ex_access e s \<noteq> None"
proof -
  have "(of_nat (unat v mod 4294967296) :: u32) = v" for v :: u32
    using unsigned_less [of v, where ?'a = nat] by simp
  then show "u32_access_ok ex_access" by (simp add: u32_access_ok_def ex_access_def le_val_le_bytes)
  show "OD_get_u32 ex_access e s \<noteq> None" by (simp add: ex_access_def split: od_object.split ptr.split)
qed

definition ex_pdo :: "u16 \<Rightarrow> byte list \<Rightarrow> od_entry" where
  "ex_pdo i b = \<lparr>entry_index = i, entry_subCount = 3, entry_type = Some ODT_REC,
     entry_object = Obj_var \<lparr>var_data = Block b, var_length = 4, var_attribute = 0\<rparr>, entry_extension = Ext_null\<rparr>"

definition ex_od :: "od_entry list \<Rightarrow> od_t" where
  "ex_od es = \<lparr>od_list = Some (map Some es), od_size = of_nat (length es)\<rparr>"

theorem fix_cob_ids_once_witness:
  "\<exists>e'. fix_cob_ids ex_access (Some (ex_od [ex_pdo 0x1401 [0x00, 0x03, 0, 0x80]])) 0x12 = Ret (Some (ex_od [e']))
    \<and> OD_get_u32 ex_access e' 1 = Some 0x80000312
    \<and> fix_cob_ids ex_access (Some (ex_od [e'])) 0x12 = Ret (Some (ex_od [e']))"
proof -
  let ?e = "ex_pdo 0x1401 [0x00, 0x03, 0, 0x80]"
  have ix: "entry_index ?e = 0x1401" "is_rpdo 0x1401" by (simp_all add: ex_pdo_def is_rpdo_def)
  have v: "OD_get_u32 ex_access ?e 1 = Some 0x80000300" "(0x80000300 :: u32) AND 0x7FF = default_cob_id 0x1401"
    by (simp_all add: ex_access_def ex_pdo_def default_cob_id_def is_rpdo_def)
  obtain es' where "fix_cob_ids ex_access (Some (ex_od [?e])) 0x12 = Ret (Some ((ex_od [?e])\<lparr>od_list := Some (map Some es' @ [])\<rparr>))" "length es' = 1"
    "\<exists>v. OD_get_u32 ex_access ?e 1 = Some v
       \<and> OD_get_u32 ex_access (es' ! 0) 1 = Some (if v AND 0x7FF = default_cob_id 0x1401 then v + ucast (0x12 :: byte) else v)"
    "fix_cob_ids ex_access (Some ((ex_od [?e])\<lparr>od_list := Some (map Some es' @ [])\<rparr>)) 0x12 = Ret (Some ((ex_od [?e])\<lparr>od_list := Some (map Some es' @ [])\<rparr>))"
    using fix_cob_ids_once [OF ex_access_ok(1), of "0x12" "ex_od [?e]" "[?e]" "[]"] ex_access_ok(2) ix by (auto simp: ex_od_def Let_def)
  moreover from this obtain e' where "es' = [e']" by (cases es') auto
  ultimately show ?thesis using v by (intro exI [of _ e']) (simp add: ex_od_def)
qed

theorem load_then_fix_reads_unset_witness:
  "\<exists>od. od_config_load ex_env [ex_internal 0x1000, ex_internal 0x6000] ex_data (Some ''/f'') (ex_fs (table_text ''h'' [ex_var])) True = Ret (0, Some od, [])
    \<and> fix_cob_ids ex_access (Some od) 0x12 = Fault Uninitialised"
proof -
  let ?OD = "[ex_internal 0x1000, ex_internal 0x6000]"
  have "\<forall>v \<in> set [ex_var]. spec_loads ex_env v \<and> of_nat (vs_index v) \<notin> entry_index ` set ?OD" "\<forall>b. malloc_ok ex_env b" "by_index ?OD"
    using ex_spec by (simp_all add: ex_internal_def ex_var_def ex_env_def)
  then show ?thesis
    using load_then_fix_reads_unset [of "[ex_var]" ex_env ?OD "''h''" ex_data "ex_fs (table_text ''h'' [ex_var])" "''/f''" "ex_internal 0x6000" ex_access "0x12"]
      ex_data_ok ex_open ex_access_ok by (simp add: ex_internal_def ex_var_def) (simp add: ex_env_def)
qed

definition ex_errors :: od_entry where
  "ex_errors = \<lparr>entry_index = 0x1003, entry_subCount = 9, entry_type = Some ODT_ARR,
     entry_object = Obj_arr (new_arr\<lparr>arr_elementLength := 4, arr_elementSizeof := 4\<rparr>), entry_extension = Ext_null\<rparr>"

definition ex_config :: stack_config where
  "ex_config = \<lparr>CNT_TPDO = 0, CNT_SYNC = 0, CNT_NMT = 0, ENTRY_H1017 = None, CNT_HB_CONS = 0, CNT_ARR_1016 = 0, ENTRY_H1016 = None, CNT_EM = 0,
     CNT_ARR_1003 = 0, ENTRY_H1001 = None, ENTRY_H1003 = None, ENTRY_H1014 = None, ENTRY_H1015 = None, CNT_SDO_SRV = 0, ENTRY_H1200 = None,
     CNT_SDO_CLI = 0, ENTRY_H1280 = None, CNT_TIME = 0, ENTRY_H1012 = None, ENTRY_H1005 = None, ENTRY_H1006 = None, ENTRY_H1007 = None,
     ENTRY_H1019 = None, CNT_RPDO = 0, ENTRY_H1400 = None, ENTRY_H1600 = None, ENTRY_H1800 = None, ENTRY_H1A00 = None, CNT_LEDS = 0, CNT_GFC = 0,
     ENTRY_H1300 = None, CNT_SRDO = 0, ENTRY_H1301 = None, ENTRY_H1381 = None, ENTRY_H13FE = None, ENTRY_H13FF = None, CNT_LSS_SLV = 0,
     CNT_LSS_MST = 0, CNT_GTWA = 0, CNT_TRACE = 0\<rparr>"

lemma linear_find_finds: "finds linear_find (ex_od es) es"
proof -
  have "case linear_find (ex_od es) ix of None \<Rightarrow> ix \<notin> entry_index ` set es | Some i \<Rightarrow> i < length es \<and> entry_index (es ! i) = ix" for ix
  proof -
    let ?P = "\<lambda>i. case map Some es ! i of Some e \<Rightarrow> entry_index e = ix | None \<Rightarrow> False"
    have P: "?P i \<longleftrightarrow> entry_index (es ! i) = ix" if "i < length es" for i using that by simp
    show ?thesis
    proof (cases "filter ?P [0..<length es]")
      case Nil
      then have "\<forall>i < length es. entry_index (es ! i) \<noteq> ix" using P by (auto simp: filter_empty_conv)
      then show ?thesis using Nil by (auto simp: linear_find_def ex_od_def in_set_conv_nth)
    next
      case (Cons i is')
      then have "i \<in> set (filter ?P [0..<length es])" by (metis list.set_intros(1))
      then have "i < length es" "entry_index (es ! i) = ix" using P by auto
      then show ?thesis using Cons by (simp add: linear_find_def ex_od_def)
    qed
  qed
  then show ?thesis by (simp add: finds_def)
qed


lemma fill_config_runs_past_list_witness:
  "fill_config linear_find (Some (ex_od [ex_pdo 0x1400 [], ex_pdo 0 []])) (Some ex_config) = Fault Out_of_bounds"
proof -
  let ?es = "[ex_pdo 0x1400 [], ex_pdo 0 []]"
  have "linear_find (ex_od ?es) 0x1400 = Some 0" "linear_find (ex_od ?es) 0x1016 = None" "linear_find (ex_od ?es) 0x1003 = None"
    by (simp_all add: linear_find_def ex_od_def ex_pdo_def upt_rec)
  then show ?thesis
    using fill_config_runs_past_list [of "ex_od ?es" ?es linear_find 0 ex_config] by (simp add: ex_od_def ex_pdo_def)
qed

lemma ipc_init_hooks_card_objects_witness:
  "\<exists>es' b' s'. ipc_init True (Some (ex_od [ex_pdo 0x1400 [], ex_pdo 0x4000 []])) \<lparr>bc_open = False, clients = 0, published = []\<rparr>
       \<lparr>sock_context = False, sock_consumer = False, sock_responder = False\<rparr> = Ret (Some (ex_od es'), b', s')
    \<and> es' = [ex_pdo 0x1400 [], (ex_pdo 0x4000 [])\<lparr>entry_extension := Ext_hook\<rparr>]"
proof -
  let ?es = "[ex_pdo 0x1400 [], ex_pdo 0x4000 []]"
  obtain es' b' s' where "ipc_init True (Some (ex_od ?es)) \<lparr>bc_open = False, clients = 0, published = []\<rparr>
       \<lparr>sock_context = False, sock_consumer = False, sock_responder = False\<rparr> = Ret (Some ((ex_od ?es)\<lparr>od_list := Some (map Some es' @ [])\<rparr>), b', s')"
    "length es' = length ?es" "\<forall>i < length ?es. es' ! i = (if 0x4000 \<le> entry_index (?es ! i) then (?es ! i)\<lparr>entry_extension := Ext_hook\<rparr> else ?es ! i)"
    using ipc_init_hooks_card_objects [of "ex_od ?es" ?es "[]" "\<lparr>bc_open = False, clients = 0, published = []\<rparr>"
        "\<lparr>sock_context = False, sock_consumer = False, sock_responder = False\<rparr>"] by (auto simp: ex_od_def)
  moreover from this have "es' = [ex_pdo 0x1400 [], (ex_pdo 0x4000 [])\<lparr>entry_extension := Ext_hook\<rparr>]"
    by (cases es'; cases "tl es'") (auto simp: All_less_Suc ex_pdo_def)
  ultimately show ?thesis by (auto simp: ex_od_def)
qed

end
