(* ===== verification/Logger.thy ===== *)
theory Logger
  imports Cand_System Str2buf
begin

text \<open>
  Model of \<^verbatim>\<open>src/common/logger.c\<close> and \<^verbatim>\<open>src/canopenlinux/log_prinf.c\<close>: which messages are printed, and the lines they become. The arguments of a message are
  formatted by the C library; a message is its text after that. The levels are those of \<^verbatim>\<open>syslog.h\<close>.
\<close>

definition LOG_EMERG :: int where "LOG_EMERG = 0"
definition LOG_ALERT :: int where "LOG_ALERT = 1"
definition LOG_CRIT :: int where "LOG_CRIT = 2"
definition LOG_ERR :: int where "LOG_ERR = 3"
definition LOG_WARNING :: int where "LOG_WARNING = 4"
definition LOG_NOTICE :: int where "LOG_NOTICE = 5"
definition LOG_INFO :: int where "LOG_INFO = 6"
definition LOG_DEBUG :: int where "LOG_DEBUG = 7"

lemmas log_levels = LOG_EMERG_def LOG_ALERT_def LOG_CRIT_def LOG_ERR_def LOG_WARNING_def LOG_NOTICE_def LOG_INFO_def LOG_DEBUG_def

definition LOG_LEVEL_STR :: "string list" where
  "LOG_LEVEL_STR = [''DEBUG'', ''INFO'', ''NOTICE'', ''WARNINNG'', ''ERROR'', ''CRITIAL'', ''ALERT'', ''EMERGENCY'', ''UNKNOWN'']"

text \<open>The level in force, and what has been printed.\<close>

record logger =
  log_level :: int
  printed :: "string list"

definition start_logger :: logger where
  "start_logger = \<lparr>log_level = LOG_INFO, printed = []\<rparr>"

definition log_level_get :: "logger \<Rightarrow> int" where
  "log_level_get l = log_level l"

definition log_level_set :: "int \<Rightarrow> logger \<Rightarrow> logger" where
  "log_level_set level l = l\<lparr>log_level := level\<rparr>"

definition log_level_get_str :: "int \<Rightarrow> string" where
  "log_level_get_str level =
     (if level = LOG_DEBUG then LOG_LEVEL_STR ! 0
      else if level = LOG_INFO then LOG_LEVEL_STR ! 1
      else if level = LOG_NOTICE then LOG_LEVEL_STR ! 2
      else if level = LOG_WARNING then LOG_LEVEL_STR ! 3
      else if level = LOG_ERR then LOG_LEVEL_STR ! 4
      else if level = LOG_CRIT then LOG_LEVEL_STR ! 5
      else if level = LOG_ALERT then LOG_LEVEL_STR ! 6
      else if level = LOG_EMERG then LOG_LEVEL_STR ! 7
      else LOG_LEVEL_STR ! 8)"

definition log_message :: "int \<Rightarrow> string \<Rightarrow> u32 \<Rightarrow> string \<Rightarrow> logger \<Rightarrow> logger" where
  "log_message level file line buf l =
     (if level > log_level l then l
      else
        let number = (if sint line < 0 then ''-'' else []) @ num_string 10 (nat \<bar>sint line\<bar>) in
        l\<lparr>printed := printed l @ [log_level_get_str level @ '': '' @ basename file @ '':'' @ number @ '' - '' @ buf @ [CHR 0x0A]]\<rparr>)"

definition log_printf :: "int \<Rightarrow> string \<Rightarrow> logger \<Rightarrow> logger" where
  "log_printf priority buf l =
     (if priority > log_level_get l then l
      else l\<lparr>printed := printed l @ [log_level_get_str priority @ '': '' @ buf @ [CHR 0x0A]]\<rparr>)"

text \<open>A lower level silences more: what is printed under a level is printed under every higher one.\<close>

lemma log_message_monotone:
  "log_level l \<le> log_level l' \<Longrightarrow> printed (log_message level file line buf l) \<noteq> printed l \<Longrightarrow>
     printed (log_message level file line buf l') \<noteq> printed l'"
  by (auto simp: log_message_def Let_def split: if_splits)

text \<open>The names tell the eight levels apart, and every other number from them.\<close>

lemma log_level_names:
  "log_level_get_str a = log_level_get_str b \<longleftrightarrow> a = b \<or> \<not> (0 \<le> a \<and> a \<le> 7) \<and> \<not> (0 \<le> b \<and> b \<le> 7)"
proof -
  have "a \<in> {0, 1, 2, 3, 4, 5, 6, 7} \<longleftrightarrow> 0 \<le> a \<and> a \<le> 7" "b \<in> {0, 1, 2, 3, 4, 5, 6, 7} \<longleftrightarrow> 0 \<le> b \<and> b \<le> 7" by auto
  then show ?thesis unfolding log_level_get_str_def log_levels LOG_LEVEL_STR_def by auto
qed

end
