(* ===== verification/Extensions.thy ===== *)
theory Extensions
  imports File_Transfer Node_Config Logger
begin

text \<open>
  Registration of the extensions under \<^verbatim>\<open>src/od_extensions\<close> with the object dictionary, and their end. The handlers themselves are modelled in the theories of the
  extensions; here it is which object gets which handlers, and the records and the thread the extensions own.
\<close>

section \<open>The extensions and what they own\<close>

text \<open>
  The numbers of the objects come from a header the build generates. \<^verbatim>\<open>malloc\<close> and \<^verbatim>\<open>pthread_create\<close> may fail; neither result stops the registration.
\<close>

record ext_env =
  INDEX_OS_COMMAND :: u16
  INDEX_SCET :: u16
  INDEX_UTC :: u16
  INDEX_FREAD_CACHE :: u16
  INDEX_FWRITE_CACHE :: u16
  INDEX_SYSTEM :: u16
  fread_malloc_ok :: bool
  fwrite_malloc_ok :: bool
  os_create_ok :: bool
  fresh_char :: char

record extensions =
  fread_object :: "file_transfer_data option"
  fwrite_object :: "file_transfer_data option"
  os_thread :: bool
  ext_log :: logger

definition no_extensions :: "logger \<Rightarrow> extensions" where
  "no_extensions l = \<lparr>fread_object = None, fwrite_object = None, os_thread = False, ext_log = l\<rparr>"

definition log_missing :: "string \<Rightarrow> u32 \<Rightarrow> string \<Rightarrow> u16 \<Rightarrow> extensions \<Rightarrow> extensions" where
  "log_missing file ln what index x =
     x\<lparr>ext_log := log_message LOG_CRIT file ln (''could not find '' @ what @ '' enty 0x('' @ num_string 16 (unat index) @ '')'') (ext_log x)\<rparr>"

text \<open>
  \<^verbatim>\<open>OD_extension_init\<close> of the stack stores the extension in the entry; without an entry it does nothing.
\<close>

definition OD_extension_init :: "nat option \<Rightarrow> extension \<Rightarrow> od_t \<Rightarrow> od_t outcome" where
  "OD_extension_init entry ext od = (case entry of
       None \<Rightarrow> Ret od
     | Some i \<Rightarrow>
         (case od_list od of
            None \<Rightarrow> Fault Null_pointer
          | Some cells \<Rightarrow>
              bind_outcome (entry_at cells i) (\<lambda>e. Ret (od\<lparr>od_list := Some (cells[i := Some (e\<lparr>entry_extension := ext\<rparr>)])\<rparr>))))"

section \<open>Registration\<close>

definition os_command_extension_init ::
  "ext_env \<Rightarrow> (od_t \<Rightarrow> u16 \<Rightarrow> nat option) \<Rightarrow> od_t \<Rightarrow> extensions \<Rightarrow> (od_t \<times> extensions) outcome" where
  "os_command_extension_init env OD_find od x = (case OD_find od (INDEX_OS_COMMAND env) of
       None \<Rightarrow> Ret (od, log_missing ''os_command_ext.c'' 40 ''os command'' (INDEX_OS_COMMAND env) x)
     | Some i \<Rightarrow>
         bind_outcome (OD_extension_init (Some i) Ext_os_command od) (\<lambda>od1. Ret (od1, x\<lparr>os_thread := os_create_ok env\<rparr>)))"

definition ecss_time_extension_init :: "ext_env \<Rightarrow> (od_t \<Rightarrow> u16 \<Rightarrow> nat option) \<Rightarrow> od_t \<Rightarrow> od_t outcome" where
  "ecss_time_extension_init env OD_find od =
     bind_outcome (OD_extension_init (OD_find od (INDEX_SCET env)) Ext_scet od) (\<lambda>od1.
     OD_extension_init (OD_find od1 (INDEX_UTC env)) Ext_utc od1)"

definition file_transfer_extension_init ::
  "ext_env \<Rightarrow> (od_t \<Rightarrow> u16 \<Rightarrow> nat option) \<Rightarrow> fcache option \<Rightarrow> fcache option \<Rightarrow> od_t \<Rightarrow> extensions \<Rightarrow> (od_t \<times> extensions) outcome" where
  "file_transfer_extension_init env OD_find fread_cache fwrite_cache od x =
     bind_outcome
       (case OD_find od (INDEX_FREAD_CACHE env) of
          None \<Rightarrow> Ret (od, log_missing ''file_transfer_ext.c'' 65 ''fread cache'' (INDEX_FREAD_CACHE env) x)
        | Some i \<Rightarrow>
            bind_outcome (OD_extension_init (Some i) Ext_fread od) (\<lambda>od1.
            Ret (od1, x\<lparr>fread_object := (if fread_malloc_ok env then Some (file_transfer_init (fresh_char env) fread_cache) else None)\<rparr>)))
       (\<lambda>(od1, x1).
          case OD_find od1 (INDEX_FWRITE_CACHE env) of
            None \<Rightarrow> Ret (od1, log_missing ''file_transfer_ext.c'' 85 ''fwrite cache'' (INDEX_FWRITE_CACHE env) x1)
          | Some i \<Rightarrow>
              bind_outcome (OD_extension_init (Some i) Ext_fwrite od1) (\<lambda>od2.
              Ret (od2, x1\<lparr>fwrite_object := (if fwrite_malloc_ok env then Some (file_transfer_init (fresh_char env) fwrite_cache) else None)\<rparr>)))"

definition system_extension_init ::
  "ext_env \<Rightarrow> (od_t \<Rightarrow> u16 \<Rightarrow> nat option) \<Rightarrow> od_t \<Rightarrow> extensions \<Rightarrow> (od_t \<times> extensions) outcome" where
  "system_extension_init env OD_find od x = (case OD_find od (INDEX_SYSTEM env) of
       None \<Rightarrow> Ret (od, log_missing ''system_ext.c'' 28 ''os command'' (INDEX_SYSTEM env) x)
     | Some i \<Rightarrow> bind_outcome (OD_extension_init (Some i) Ext_system od) (\<lambda>od1. Ret (od1, x)))"

text \<open>The order of \<^verbatim>\<open>main\<close>.\<close>

definition main_extensions ::
  "ext_env \<Rightarrow> (od_t \<Rightarrow> u16 \<Rightarrow> nat option) \<Rightarrow> fcache option \<Rightarrow> fcache option \<Rightarrow> od_t \<Rightarrow> extensions \<Rightarrow> (od_t \<times> extensions) outcome" where
  "main_extensions env OD_find fread_cache fwrite_cache od x =
     bind_outcome (os_command_extension_init env OD_find od x) (\<lambda>(od1, x1).
     bind_outcome (ecss_time_extension_init env OD_find od1) (\<lambda>od2.
     bind_outcome (file_transfer_extension_init env OD_find fread_cache fwrite_cache od2 x1) (\<lambda>(od3, x3).
     system_extension_init env OD_find od3 x3)))"

section \<open>The end\<close>

text \<open>
  The thread of the shell sets its flag when it starts; \<open>started\<close> tells that it has done so when the end comes. A thread that starts later overwrites the request to end,
  and joining it never returns. The record of a transfer is released with the file it has open and the listing it holds.
\<close>

definition os_command_extension_free :: "bool \<Rightarrow> extensions \<Rightarrow> extensions outcome" where
  "os_command_extension_free started x =
     (if \<not> os_thread x then Fault Uninitialised
      else if \<not> started then Fault Deadlock
      else Ret (x\<lparr>os_thread := False\<rparr>))"

definition file_transfer_extension_free :: "extensions \<Rightarrow> extensions" where
  "file_transfer_extension_free x =
     (let x1 = (if fread_object x \<noteq> None then x\<lparr>fread_object := None\<rparr> else x) in
      if fwrite_object x1 \<noteq> None then x1\<lparr>fwrite_object := None\<rparr> else x1)"

definition extensions_free :: "bool \<Rightarrow> extensions \<Rightarrow> extensions outcome" where
  "extensions_free started x =
     bind_outcome (os_command_extension_free started x) (\<lambda>x1. Ret (file_transfer_extension_free x1))"

section \<open>Which object has which handlers\<close>

text \<open>
  The abstract view of a dictionary: the extension at each index. \<open>dictionary d es rest\<close> says that the list of \<open>d\<close> begins with the sorted entries \<open>es\<close>, as many as its size
  tells; \<open>search_ok\<close> is what the stack documents of its search on such a list.
\<close>

definition handler_map :: "od_entry list \<Rightarrow> u16 \<rightharpoonup> extension" where
  "handler_map es = map_of (map (\<lambda>e. (entry_index e, entry_extension e)) es)"

definition dictionary :: "od_t \<Rightarrow> od_entry list \<Rightarrow> od_entry option list \<Rightarrow> bool" where
  "dictionary d es rest \<longleftrightarrow> od_list d = Some (map Some es @ rest) \<and> unat (od_size d) = length es \<and> by_index es"

definition search_ok :: "(od_t \<Rightarrow> u16 \<Rightarrow> nat option) \<Rightarrow> bool" where
  "search_ok OD_find \<longleftrightarrow> (\<forall>d es rest. dictionary d es rest \<longrightarrow> finds OD_find d es)"

definition register :: "u16 \<Rightarrow> extension \<Rightarrow> (u16 \<rightharpoonup> extension) \<Rightarrow> (u16 \<rightharpoonup> extension)" where
  "register ix ext m = (if ix \<in> dom m then m(ix \<mapsto> ext) else m)"

text \<open>Two lists that differ in their extensions only.\<close>

definition same_objects :: "od_entry list \<Rightarrow> od_entry list \<Rightarrow> bool" where
  "same_objects es es' \<longleftrightarrow> map bare es' = map bare es"

lemma same_objects_indexes: "same_objects es es' \<Longrightarrow> map entry_index es' = map entry_index es"
proof -
  have "map entry_index xs = map entry_index (map bare xs)" for xs by (simp add: bare_def comp_def)
  then show "same_objects es es' \<Longrightarrow> map entry_index es' = map entry_index es" by (metis same_objects_def)
qed

lemma same_objects_trans [trans]: "same_objects a b \<Longrightarrow> same_objects b c \<Longrightarrow> same_objects a c"
  by (simp add: same_objects_def)

lemma same_objects_refl [simp]: "same_objects a a"
  by (simp add: same_objects_def)

lemma by_index_indexes: "by_index es \<longleftrightarrow> sorted_wrt (<) (map entry_index es)"
  by (simp add: sorted_wrt_map)

lemma by_index_distinct_indexes: "by_index es \<Longrightarrow> distinct (map entry_index es)"
  by (simp add: by_index_indexes strict_sorted_iff)

lemma same_objects_dictionary:
  "dictionary d es rest \<Longrightarrow> same_objects es es' \<Longrightarrow> dictionary (d\<lparr>od_list := Some (map Some es' @ rest)\<rparr>) es' rest"
  using same_objects_indexes [of es es'] by (auto simp: dictionary_def by_index_indexes dest: map_eq_imp_length_eq)

lemma dom_handler_map: "dom (handler_map es) = entry_index ` set es"
  by (simp add: handler_map_def dom_map_of_conv_image_fst image_image)

lemma handler_map_update:
  assumes "by_index es" and "i < length es"
  shows "handler_map (es[i := (es ! i)\<lparr>entry_extension := ext\<rparr>]) = (handler_map es)(entry_index (es ! i) \<mapsto> ext)"
proof -
  have d: "distinct (map entry_index es)" using assms(1) by (rule by_index_distinct_indexes)
  then show ?thesis using assms(2)
  proof (induction es arbitrary: i)
    case (Cons e es)
    show ?case
    proof (cases i)
      case (Suc j)
      then have "es ! j \<in> set es" using Cons.prems(2) by simp
      from imageI [OF this, of entry_index] have "entry_index (es ! j) \<noteq> entry_index e" using Cons.prems(1) by auto
      then show ?thesis using Cons.IH [of j] Cons.prems Suc by (auto simp: handler_map_def fun_eq_iff)
    qed (simp add: handler_map_def fun_eq_iff)
  qed simp
qed

lemma search_finds: "search_ok OD_find \<Longrightarrow> dictionary d es rest \<Longrightarrow> finds OD_find d es"
  by (auto simp: search_ok_def)

lemma OD_extension_init_registers:
  assumes "search_ok OD_find" and "dictionary d es rest"
  obtains d' es' where "OD_extension_init (OD_find d ix) ext d = Ret d'" "dictionary d' es' rest" "same_objects es es'"
    "handler_map es' = register ix ext (handler_map es)"
proof (cases "OD_find d ix")
  case None
  then have "ix \<notin> dom (handler_map es)" using finds_iff [OF search_finds [OF assms], of ix] by (simp add: dom_handler_map)
  then show ?thesis using that [of d es] None assms(2) by (simp add: OD_extension_init_def register_def)
next
  case (Some i)
  have i: "i < length es" "entry_index (es ! i) = ix" using finds_at [OF search_finds [OF assms] Some] by auto
  let ?es = "es[i := (es ! i)\<lparr>entry_extension := ext\<rparr>]"
  have "OD_extension_init (OD_find d ix) ext d = Ret (d\<lparr>od_list := Some (map Some ?es @ rest)\<rparr>)"
    using assms(2) i(1) Some by (simp add: OD_extension_init_def dictionary_def entry_at_def nth_append list_update_append map_update)
  moreover have "same_objects es ?es"
    using i(1) by (simp add: same_objects_def map_update bare_def list_update_same_conv)
  moreover have "handler_map ?es = register ix ext (handler_map es)"
    using handler_map_update [OF _ i(1), of ext] assms(2) i by (auto simp: dictionary_def register_def dom_handler_map)
  ultimately show ?thesis using that same_objects_dictionary [OF assms(2)] by blast
qed

text \<open>An entry that the caller tests for first.\<close>

lemma tested_registration:
  assumes "search_ok OD_find" and "dictionary d es rest"
  obtains d' es' where "(case OD_find d ix of None \<Rightarrow> Ret (d, a) | Some i \<Rightarrow> bind_outcome (OD_extension_init (Some i) ext d) (\<lambda>od1. Ret (od1, b)))
      = Ret (d', if ix \<in> entry_index ` set es then b else a)"
    "dictionary d' es' rest" "same_objects es es'" "handler_map es' = register ix ext (handler_map es)"
proof -
  obtain d' es' where d': "OD_extension_init (OD_find d ix) ext d = Ret d'" "dictionary d' es' rest" "same_objects es es'"
    "handler_map es' = register ix ext (handler_map es)"
    using OD_extension_init_registers [OF assms] by blast
  have "OD_find d ix \<noteq> None \<longleftrightarrow> ix \<in> entry_index ` set es" by (rule finds_iff [OF search_finds [OF assms]])
  then show ?thesis using that [of d' es'] d' by (cases "OD_find d ix") (auto simp: OD_extension_init_def)
qed

text \<open>The extensions and their objects, in the order of registration, and what they make of the handlers of a dictionary.\<close>

definition extension_table :: "ext_env \<Rightarrow> (u16 \<times> extension) list" where
  "extension_table env =
     [(INDEX_OS_COMMAND env, Ext_os_command), (INDEX_SCET env, Ext_scet), (INDEX_UTC env, Ext_utc),
      (INDEX_FREAD_CACHE env, Ext_fread), (INDEX_FWRITE_CACHE env, Ext_fwrite), (INDEX_SYSTEM env, Ext_system)]"

definition register_all :: "(u16 \<times> extension) list \<Rightarrow> (u16 \<rightharpoonup> extension) \<Rightarrow> (u16 \<rightharpoonup> extension)" where
  "register_all = fold (\<lambda>(ix, ext). register ix ext)"

lemma dom_register [simp]: "dom (register ix ext m) = dom m"
  by (auto simp: register_def)

lemma register_all_at:
  "distinct (map fst kvs) \<Longrightarrow> register_all kvs m ix =
     (if ix \<in> dom m then (case map_of kvs ix of None \<Rightarrow> m ix | Some ext \<Rightarrow> Some ext) else None)"
proof (induction kvs arbitrary: m)
  case Nil
  then show ?case by (auto simp: register_all_def)
next
  case (Cons kv kvs)
  obtain i e where kv: "kv = (i, e)" by fastforce
  have "register_all (kv # kvs) m = register_all kvs (register i e m)" by (simp add: register_all_def kv)
  moreover have "map_of kvs i = None" using Cons.prems by (simp add: kv map_of_eq_None_iff)
  ultimately show ?case using Cons by (auto simp: kv register_def split: option.split)
qed

lemma same_objects_image: "same_objects es es' \<Longrightarrow> entry_index ` set es' = entry_index ` set es"
  using same_objects_indexes [of es es'] by (metis list.set_map)

lemma main_extensions_registers:
  assumes s: "search_ok OD_find" and d: "dictionary d es rest"
  obtains d' es' x' where "main_extensions env OD_find rd wr d x = Ret (d', x')" "dictionary d' es' rest" "same_objects es es'"
    "handler_map es' = register_all (extension_table env) (handler_map es)"
    "INDEX_OS_COMMAND env \<in> entry_index ` set es \<Longrightarrow> os_thread x' = os_create_ok env"
    "INDEX_FREAD_CACHE env \<in> entry_index ` set es \<Longrightarrow> fread_malloc_ok env \<Longrightarrow> fread_object x' = Some (file_transfer_init (fresh_char env) rd)"
    "INDEX_FWRITE_CACHE env \<in> entry_index ` set es \<Longrightarrow> fwrite_malloc_ok env \<Longrightarrow> fwrite_object x' = Some (file_transfer_init (fresh_char env) wr)"
proof -
  obtain d1 es1 where 1: "os_command_extension_init env OD_find d x = Ret (d1, if INDEX_OS_COMMAND env \<in> entry_index ` set es then x\<lparr>os_thread := os_create_ok env\<rparr>
       else log_missing ''os_command_ext.c'' 40 ''os command'' (INDEX_OS_COMMAND env) x)"
    "dictionary d1 es1 rest" "same_objects es es1" "handler_map es1 = register (INDEX_OS_COMMAND env) Ext_os_command (handler_map es)"
    using tested_registration [OF s d] unfolding os_command_extension_init_def by metis
  obtain d2 es2 where 2: "OD_extension_init (OD_find d1 (INDEX_SCET env)) Ext_scet d1 = Ret d2" "dictionary d2 es2 rest" "same_objects es1 es2"
    "handler_map es2 = register (INDEX_SCET env) Ext_scet (handler_map es1)"
    using OD_extension_init_registers [OF s 1(2)] by metis
  obtain d3 es3 where 3: "OD_extension_init (OD_find d2 (INDEX_UTC env)) Ext_utc d2 = Ret d3" "dictionary d3 es3 rest" "same_objects es2 es3"
    "handler_map es3 = register (INDEX_UTC env) Ext_utc (handler_map es2)"
    using OD_extension_init_registers [OF s 2(2)] by metis
  define x1 where "x1 = (if INDEX_OS_COMMAND env \<in> entry_index ` set es then x\<lparr>os_thread := os_create_ok env\<rparr>
       else log_missing ''os_command_ext.c'' 40 ''os command'' (INDEX_OS_COMMAND env) x)"
  let ?rd = "x1\<lparr>fread_object := (if fread_malloc_ok env then Some (file_transfer_init (fresh_char env) rd) else None)\<rparr>"
  let ?no_rd = "log_missing ''file_transfer_ext.c'' 65 ''fread cache'' (INDEX_FREAD_CACHE env) x1"
  obtain d4 es4 where 4: "(case OD_find d3 (INDEX_FREAD_CACHE env) of None \<Rightarrow> Ret (d3, ?no_rd)
      | Some i \<Rightarrow> bind_outcome (OD_extension_init (Some i) Ext_fread d3) (\<lambda>od1. Ret (od1, ?rd)))
      = Ret (d4, if INDEX_FREAD_CACHE env \<in> entry_index ` set es3 then ?rd else ?no_rd)" "dictionary d4 es4 rest" "same_objects es3 es4"
    "handler_map es4 = register (INDEX_FREAD_CACHE env) Ext_fread (handler_map es3)"
    using tested_registration [OF s 3(2)] by metis
  define x2 where "x2 = (if INDEX_FREAD_CACHE env \<in> entry_index ` set es3 then ?rd else ?no_rd)"
  let ?wr = "x2\<lparr>fwrite_object := (if fwrite_malloc_ok env then Some (file_transfer_init (fresh_char env) wr) else None)\<rparr>"
  let ?no_wr = "log_missing ''file_transfer_ext.c'' 85 ''fwrite cache'' (INDEX_FWRITE_CACHE env) x2"
  obtain d5 es5 where 5: "(case OD_find d4 (INDEX_FWRITE_CACHE env) of None \<Rightarrow> Ret (d4, ?no_wr)
      | Some i \<Rightarrow> bind_outcome (OD_extension_init (Some i) Ext_fwrite d4) (\<lambda>od1. Ret (od1, ?wr)))
      = Ret (d5, if INDEX_FWRITE_CACHE env \<in> entry_index ` set es4 then ?wr else ?no_wr)" "dictionary d5 es5 rest" "same_objects es4 es5"
    "handler_map es5 = register (INDEX_FWRITE_CACHE env) Ext_fwrite (handler_map es4)"
    using tested_registration [OF s 4(2)] by metis
  define x3 where "x3 = (if INDEX_FWRITE_CACHE env \<in> entry_index ` set es4 then ?wr else ?no_wr)"
  obtain d6 es6 where 6: "system_extension_init env OD_find d5 x3 = Ret (d6, if INDEX_SYSTEM env \<in> entry_index ` set es5 then x3
       else log_missing ''system_ext.c'' 28 ''os command'' (INDEX_SYSTEM env) x3)"
    "dictionary d6 es6 rest" "same_objects es5 es6" "handler_map es6 = register (INDEX_SYSTEM env) Ext_system (handler_map es5)"
    using tested_registration [OF s 5(2)] unfolding system_extension_init_def by metis
  define x4 where "x4 = (if INDEX_SYSTEM env \<in> entry_index ` set es5 then x3 else log_missing ''system_ext.c'' 28 ''os command'' (INDEX_SYSTEM env) x3)"
  have ft: "file_transfer_extension_init env OD_find rd wr d3 x1 = Ret (d5, x3)"
    unfolding file_transfer_extension_init_def 4(1) bind_outcome.simps prod.case x2_def [symmetric] 5(1) x3_def ..
  have run: "main_extensions env OD_find rd wr d x = Ret (d6, x4)"
    unfolding main_extensions_def 1(1) bind_outcome.simps prod.case ecss_time_extension_init_def 2(1) 3(1) x1_def [symmetric] ft 6(1) x4_def ..
  have same: "same_objects es es6" using 1(3) 2(3) 3(3) 4(3) 5(3) 6(3) same_objects_trans by blast
  have ix: "entry_index ` set es3 = entry_index ` set es" "entry_index ` set es4 = entry_index ` set es"
    using 1(3) 2(3) 3(3) 4(3) same_objects_image by metis+
  have owned: "os_thread x4 = os_thread x1" "fread_object x4 = fread_object x2" "fwrite_object x4 = fwrite_object x3"
    by (simp_all add: x4_def x3_def x2_def log_missing_def)
  show ?thesis
  proof (rule that [OF run 6(2) same])
    show "handler_map es6 = register_all (extension_table env) (handler_map es)"
      by (simp add: register_all_def extension_table_def 1(4) 2(4) 3(4) 4(4) 5(4) 6(4))
  qed (use ix owned in \<open>simp_all add: x1_def x2_def x3_def\<close>)
qed

lemma extensions_free_clears:
  "os_thread x \<Longrightarrow> extensions_free True x = Ret (x\<lparr>os_thread := False, fread_object := None, fwrite_object := None\<rparr>)"
  by (cases x) (auto simp: extensions_free_def os_command_extension_free_def file_transfer_extension_free_def Let_def)

end
