(* ===== verification/Sdo_Client.thy ===== *)
theory Sdo_Client
  imports Od_Ext
begin

text \<open>
  Model of \<^verbatim>\<open>src/canopenlinux/sdo_client.c\<close> and of the typed accessors in its header: reading and writing an object of another
  node. The transfer protocol belongs to the CANopen stack; its functions are the members of a record over the
  state of the client, which only the stack can look into. What is modelled is what the daemon does around them: the loops, the memory they fill, the
  files they move.
\<close>

section \<open>The client of the CANopen stack\<close>

text \<open>
  One call of \<^verbatim>\<open>CO_SDOclientUpload\<close> yields its return value, negative for an abort, positive while the transfer goes on and 0
  (\<^verbatim>\<open>CO_SDO_RT_ok_communicationEnd\<close>) at its end; the abort code, 0 (\<^verbatim>\<open>CO_SDO_AB_NONE\<close>) for none; and the number of bytes transferred so far. \<open>co_take n\<close> is
  \<^verbatim>\<open>CO_SDOclientUploadBufRead\<close> with the bytes it stores. \<^verbatim>\<open>CO_SDOclientDownloadBufWrite\<close> copies from the caller's memory as
  much of the given count as \<open>co_space\<close> (\<^verbatim>\<open>CO_fifo_getSpace\<close>) leaves room for; \<open>co_put\<close> is its effect. \<open>co_bufSize\<close> is
  \<^verbatim>\<open>bufFifo.bufSize\<close>. The last members are constants of the stack.
\<close>

record upload_result =
  upl_ret :: int
  upl_abort :: u32
  upl_size :: nat

record download_result =
  dnl_ret :: int
  dnl_abort :: u32

record 'c sdo_stack =
  co_setup :: "u32 \<Rightarrow> u32 \<Rightarrow> byte \<Rightarrow> 'c \<Rightarrow> int \<times> 'c"
  co_upload_initiate :: "u16 \<Rightarrow> byte \<Rightarrow> u16 \<Rightarrow> bool \<Rightarrow> 'c \<Rightarrow> int \<times> 'c"
  co_upload :: "u32 \<Rightarrow> 'c \<Rightarrow> upload_result \<times> 'c"
  co_take :: "nat \<Rightarrow> 'c \<Rightarrow> byte list \<times> 'c"
  co_download_initiate :: "u16 \<Rightarrow> byte \<Rightarrow> nat \<Rightarrow> u16 \<Rightarrow> bool \<Rightarrow> 'c \<Rightarrow> int \<times> 'c"
  co_space :: "'c \<Rightarrow> nat"
  co_put :: "byte list \<Rightarrow> 'c \<Rightarrow> 'c"
  co_download :: "u32 \<Rightarrow> bool \<Rightarrow> 'c \<Rightarrow> download_result \<times> 'c"
  co_bufSize :: "'c \<Rightarrow> nat"
  CO_CAN_ID_SDO_CLI :: u32
  CO_CAN_ID_SDO_SRV :: u32
  CO_SDO_AB_GENERAL :: u32
  CO_SDO_AB_DATA_LOC_CTRL :: u32
  CO_SDO_AB_DATA_LONG :: u32

text \<open>Dynamic memory: whether \<^verbatim>\<open>realloc\<close> to a size succeeds, and what fresh memory holds.\<close>

record memory =
  realloc_ok :: "nat \<Rightarrow> bool"
  fresh :: byte

definition realloc :: "memory \<Rightarrow> byte list option \<Rightarrow> nat \<Rightarrow> byte list option" where
  "realloc M p n =
     (if realloc_ok M n
      then let old = (case p of None \<Rightarrow> [] | Some d \<Rightarrow> d) in Some (take n old @ replicate (n - length old) (fresh M))
      else None)"

section \<open>Abort codes\<close>

definition SDO_TIMEOUT_MS :: u16 where "SDO_TIMEOUT_MS = 1000"

definition ABORT_CODES :: "u32 list" where
  "ABORT_CODES =
    [0x00000000, 0x05030000, 0x05040000, 0x05040001, 0x05040002, 0x05040003, 0x05040004, 0x05040005,
     0x06010000, 0x06010001, 0x06010002, 0x06020000, 0x06040041, 0x06040042, 0x06040043, 0x06040047,
     0x06060000, 0x06070010, 0x06070012, 0x06070013, 0x06090011, 0x06090030, 0x06090031, 0x06090032,
     0x06090036, 0x060A0023, 0x08000000, 0x08000020, 0x08000021, 0x08000022, 0x08000023, 0x08000024]"

definition ABORT_CODES_STR :: "string list" where
  "ABORT_CODES_STR =
    [''No abort'',
     ''Toggle bit not altered'',
     ''SDO protocol timed out'',
     ''Command specifier not valid or unknown'',
     ''Invalid block size in block mode'',
     ''Invalid sequence number in block mode'',
     ''CRC error (block mode only)'',
     ''Out of memory'',
     ''Unsupported access to an object'',
     ''Attempt to read a write only object'',
     ''Attempt to write a read only object'',
     ''Object does not exist in the object dictionary'',
     ''Object cannot be mapped to the PDO'',
     ''Number and length of object to be mapped exceeds PDO length'',
     ''General parameter incompatibility reasons'',
     ''General internal incompatibility in device'',
     ''Access failed due to hardware error'',
     ''length of service parameter does not match'',
     ''length of service parameter too high'',
     ''length of service parameter too short'',
     ''Sub index does not exist'',
     ''Invalid value for parameter (download only).'',
     ''Value range of parameter written too high'',
     ''Value range of parameter written too low'',
     ''Maximum value is less than minimum value.'',
     ''Resource not available: SDO connection'',
     ''General error'',
     ''Data cannot be transferred or stored to application'',
     ''Data cannot be transferred or stored to application because of local control'',
     ''Data cannot be transferred or stored to application because of present device state'',
     ''Object dictionary not present or dynamic generation fails'',
     ''No buf available'']"

text \<open>The loop does not stop at a match: the last one counts.\<close>

fun abort_string_loop :: "u32 \<Rightarrow> (u32 \<times> string) list \<Rightarrow> string option \<Rightarrow> string option" where
  "abort_string_loop code [] r = r"
| "abort_string_loop code ((k, str) # table) r = abort_string_loop code table (if code = k then Some str else r)"

definition get_sdo_abort_string :: "u32 \<Rightarrow> string option" where
  "get_sdo_abort_string code = abort_string_loop code (zip ABORT_CODES ABORT_CODES_STR) None"

section \<open>Reading\<close>

definition time_diff_us :: u32 where "time_diff_us = 10000"

text \<open>Both reading loops start with the same two calls.\<close>

definition sdo_upload_start :: "'c sdo_stack \<Rightarrow> byte \<Rightarrow> u16 \<Rightarrow> byte \<Rightarrow> bool \<Rightarrow> 'c \<Rightarrow> bool \<times> 'c" where
  "sdo_upload_start S node_id index subindex block_transfer c =
     (case co_setup S (CO_CAN_ID_SDO_CLI S + ucast node_id) (CO_CAN_ID_SDO_SRV S + ucast node_id) node_id c of (ret, c1) \<Rightarrow>
        if ret \<noteq> 0 then (False, c1)
        else case co_upload_initiate S index subindex SDO_TIMEOUT_MS block_transfer c1 of (ret, c2) \<Rightarrow> (ret = 0, c2))"

text \<open>
  The loop of \<^verbatim>\<open>sdo_read_dynamic\<close>. The terminator is stored before the result of \<^verbatim>\<open>realloc\<close> is tested. The result is
  \<open>Inl\<close> of the abort code, or \<open>Inr\<close> of the memory, the size and the abort code.
\<close>

fun read_dynamic_loop ::
  "'c sdo_stack \<Rightarrow> memory \<Rightarrow> nat \<Rightarrow> byte list option \<Rightarrow> nat \<Rightarrow> 'c \<Rightarrow>
   ((u32 + byte list option \<times> nat \<times> u32) \<times> 'c) outcome" where
  "read_dynamic_loop S M 0 tmp offset c = Fault Out_of_fuel"
| "read_dynamic_loop S M (Suc fuel) tmp offset c =
     (case co_upload S time_diff_us c of (r, c1) \<Rightarrow>
        if upl_ret r < 0 then Ret (Inl (upl_abort r), c1)
        else
          bind_outcome
            (if upl_size r \<noteq> 0 then
               (case realloc M tmp (upl_size r + 1) of
                  None \<Rightarrow> Fault Null_pointer
                | Some t \<Rightarrow>
                    bind_outcome (poke t (upl_size r) [0]) (\<lambda>t1.
                    case co_take S (upl_size r) c1 of (bs, c2) \<Rightarrow>
                      bind_outcome (poke t1 offset bs) (\<lambda>t2. Ret (Some t2, offset + length bs, c2))))
             else Ret (tmp, offset, c1))
            (\<lambda>(tmp', offset', c2).
               if upl_ret r > 0 then read_dynamic_loop S M fuel tmp' offset' c2
               else Ret (Inr (tmp', upl_size r, upl_abort r), c2)))"

text \<open>
  \<open>buf\<close> and \<open>buf_size\<close> are what the caller's pointers point to, \<open>buf_size = None\<close> a null pointer. An abort code that comes
  with the end of a transfer is dropped.
\<close>

definition sdo_read_dynamic ::
  "'c sdo_stack \<Rightarrow> memory \<Rightarrow> nat \<Rightarrow> byte \<Rightarrow> u16 \<Rightarrow> byte \<Rightarrow> byte list option \<Rightarrow> nat option \<Rightarrow> bool \<Rightarrow> 'c \<Rightarrow>
   (u32 \<times> byte list option \<times> nat option \<times> 'c) outcome" where
  "sdo_read_dynamic S M fuel node_id index subindex buf buf_size block_transfer c =
     (case sdo_upload_start S node_id index subindex block_transfer c of (ok, c1) \<Rightarrow>
        if \<not> ok then Ret (CO_SDO_AB_GENERAL S, buf, buf_size, c1)
        else
          bind_outcome (read_dynamic_loop S M fuel None 0 c1) (\<lambda>(res, c2).
            case res of
              Inl abort_code \<Rightarrow> Ret (abort_code, buf, buf_size, c2)
            | Inr (tmp, size_transfered, abort_code) \<Rightarrow>
                if abort_code = 0 then Ret (0, tmp, map_option (\<lambda>_. size_transfered) buf_size, c2)
                else Ret (0, buf, buf_size, c2)))"

text \<open>
  The loop of \<^verbatim>\<open>sdo_read\<close> asks for \<open>buf_size\<close> bytes in every round, wherever in the buffer it has got to.
\<close>

fun read_loop ::
  "'c sdo_stack \<Rightarrow> nat \<Rightarrow> byte list \<Rightarrow> nat \<Rightarrow> nat \<Rightarrow> 'c \<Rightarrow> ((u32 + nat) \<times> byte list \<times> 'c) outcome" where
  "read_loop S 0 data buf_size offset c = Fault Out_of_fuel"
| "read_loop S (Suc fuel) data buf_size offset c =
     (case co_upload S time_diff_us c of (r, c1) \<Rightarrow>
        if upl_ret r < 0 then Ret (Inl (upl_abort r), data, c1)
        else
          case co_take S buf_size c1 of (bs, c2) \<Rightarrow>
            bind_outcome (poke data offset bs) (\<lambda>data'.
            if upl_ret r > 0 then read_loop S fuel data' buf_size (offset + length bs) c2
            else Ret (Inr (offset + length bs), data', c2)))"

definition sdo_read ::
  "'c sdo_stack \<Rightarrow> nat \<Rightarrow> byte \<Rightarrow> u16 \<Rightarrow> byte \<Rightarrow> byte list \<Rightarrow> nat \<Rightarrow> nat option \<Rightarrow> 'c \<Rightarrow>
   (u32 \<times> byte list \<times> nat option \<times> 'c) outcome" where
  "sdo_read S fuel node_id index subindex data buf_size read_size c =
     (case sdo_upload_start S node_id index subindex True c of (ok, c1) \<Rightarrow>
        if \<not> ok then Ret (CO_SDO_AB_GENERAL S, data, read_size, c1)
        else
          bind_outcome (read_loop S fuel data buf_size 0 c1) (\<lambda>(res, data', c2).
            case res of
              Inl abort_code \<Rightarrow> Ret (abort_code, data', read_size, c2)
            | Inr offset \<Rightarrow> Ret (0, data', map_option (\<lambda>_. offset) read_size, c2)))"

text \<open>\<^verbatim>\<open>sdo_read_to_file\<close>: as many bytes as the client's buffer holds go through a local buffer into the file.\<close>

fun read_to_file_loop ::
  "'c sdo_stack \<Rightarrow> nat \<Rightarrow> byte list \<Rightarrow> fhandle \<Rightarrow> fsys \<Rightarrow> 'c \<Rightarrow> (u32 \<times> fsys \<times> 'c) outcome" where
  "read_to_file_loop S 0 buf fp fs c = Fault Out_of_fuel"
| "read_to_file_loop S (Suc fuel) buf fp fs c =
     (case co_upload S time_diff_us c of (r, c1) \<Rightarrow>
        if upl_ret r < 0 then Ret (upl_abort r, fs, c1)
        else
          case co_take S (co_bufSize S c1) c1 of (bs, c2) \<Rightarrow>
            bind_outcome (poke buf 0 bs) (\<lambda>buf'.
            bind_outcome (fwrite fs fp buf' (length bs)) (\<lambda>(fs', fp').
            if upl_ret r > 0 then read_to_file_loop S fuel buf' fp' fs' c2 else Ret (0, fs', c2))))"

definition sdo_read_to_file ::
  "'c sdo_stack \<Rightarrow> memory \<Rightarrow> nat \<Rightarrow> byte \<Rightarrow> u16 \<Rightarrow> byte \<Rightarrow> string \<Rightarrow> fsys \<Rightarrow> 'c \<Rightarrow> (u32 \<times> fsys \<times> 'c) outcome" where
  "sdo_read_to_file S M fuel node_id index subindex file_path fs c =
     (case sdo_upload_start S node_id index subindex True c of (ok, c1) \<Rightarrow>
        if \<not> ok then Ret (CO_SDO_AB_GENERAL S, fs, c1)
        else
          case fs_create fs file_path of
            Inl e \<Rightarrow> Ret (CO_SDO_AB_GENERAL S, fs, c1)
          | Inr fs1 \<Rightarrow>
              read_to_file_loop S fuel (replicate (co_bufSize S c1) (fresh M)) \<lparr>fh_path = resolve file_path, fh_pos = 0\<rparr> fs1 c1)"

section \<open>Writing\<close>

text \<open>
  \<^verbatim>\<open>CO_SDOclientDownloadBufWrite(client, &data[offset], count)\<close>: the bytes the stack copies have to lie in the caller's memory.
\<close>

definition buf_write :: "'c sdo_stack \<Rightarrow> byte list \<Rightarrow> nat \<Rightarrow> nat \<Rightarrow> 'c \<Rightarrow> (nat \<times> 'c) outcome" where
  "buf_write S data offset count c =
     (let n = min count (co_space S c) in
      bind_outcome (peek data offset n) (\<lambda>bs. Ret (n, co_put S bs c)))"

fun write_loop ::
  "'c sdo_stack \<Rightarrow> nat \<Rightarrow> byte list \<Rightarrow> nat \<Rightarrow> nat \<Rightarrow> bool \<Rightarrow> 'c \<Rightarrow> (u32 \<times> 'c) outcome" where
  "write_loop S 0 data buf_size offset buffer_partial c = Fault Out_of_fuel"
| "write_loop S (Suc fuel) data buf_size offset buffer_partial c =
     bind_outcome
       (if offset < buf_size
        then bind_outcome (buf_write S data offset buf_size c) (\<lambda>(n, c1). Ret (offset + n, offset + n < buf_size, c1))
        else Ret (offset, buffer_partial, c))
       (\<lambda>(offset', partial', c1).
          case co_download S time_diff_us partial' c1 of (r, c2) \<Rightarrow>
            if dnl_ret r < 0 then Ret (dnl_abort r, c2)
            else if dnl_ret r > 0 then write_loop S fuel data buf_size offset' partial' c2
            else Ret (0, c2))"

definition sdo_write ::
  "'c sdo_stack \<Rightarrow> nat \<Rightarrow> byte \<Rightarrow> u16 \<Rightarrow> byte \<Rightarrow> byte list \<Rightarrow> nat \<Rightarrow> 'c \<Rightarrow> (u32 \<times> 'c) outcome" where
  "sdo_write S fuel node_id index subindex data buf_size c =
     (case co_setup S (CO_CAN_ID_SDO_CLI S + ucast node_id) (CO_CAN_ID_SDO_SRV S + ucast node_id) node_id c of (ret, c1) \<Rightarrow>
        if ret \<noteq> 0 then Ret (CO_SDO_AB_GENERAL S, c1)
        else case co_download_initiate S index subindex buf_size 1000 True c1 of (ret, c2) \<Rightarrow>
          if ret \<noteq> 0 then Ret (CO_SDO_AB_DATA_LOC_CTRL S, c2)
          else write_loop S fuel data buf_size 0 True c2)"

text \<open>
  \<^verbatim>\<open>sdo_write_from_file\<close> reads as much of the file as the client has room for into a local buffer, but hands the client the
  size of the whole file as the count.
\<close>

fun write_from_file_loop ::
  "'c sdo_stack \<Rightarrow> nat \<Rightarrow> byte list \<Rightarrow> nat \<Rightarrow> nat \<Rightarrow> bool \<Rightarrow> fhandle \<Rightarrow> fsys \<Rightarrow> 'c \<Rightarrow> (u32 \<times> 'c) outcome" where
  "write_from_file_loop S 0 buf buf_size offset buffer_partial fp fs c = Fault Out_of_fuel"
| "write_from_file_loop S (Suc fuel) buf buf_size offset buffer_partial fp fs c =
     (let space = co_space S c in
      bind_outcome
        (if offset < buf_size \<and> space > 0
         then bind_outcome (fread fs fp buf space) (\<lambda>(buf', fp').
              bind_outcome (buf_write S buf' 0 buf_size c) (\<lambda>(n, c1).
              Ret (buf', offset + n, offset + n < buf_size, fp', c1)))
         else Ret (buf, offset, buffer_partial, fp, c))
        (\<lambda>(buf', offset', partial', fp', c1).
           case co_download S time_diff_us partial' c1 of (r, c2) \<Rightarrow>
             if dnl_ret r < 0 then Ret (dnl_abort r, c2)
             else if dnl_ret r > 0 then write_from_file_loop S fuel buf' buf_size offset' partial' fp' fs c2
             else Ret (0, c2)))"

definition sdo_write_from_file ::
  "'c sdo_stack \<Rightarrow> memory \<Rightarrow> kern \<Rightarrow> nat \<Rightarrow> byte \<Rightarrow> u16 \<Rightarrow> byte \<Rightarrow> string \<Rightarrow> fsys \<Rightarrow> 'c \<Rightarrow> (u32 \<times> 'c) outcome" where
  "sdo_write_from_file S M k fuel node_id index subindex file_path fs c =
     (case co_setup S (CO_CAN_ID_SDO_CLI S + ucast node_id) (CO_CAN_ID_SDO_SRV S + ucast node_id) node_id c of (ret, c1) \<Rightarrow>
        if ret \<noteq> 0 then Ret (CO_SDO_AB_GENERAL S, c1)
        else case fs_open_rd fs file_path of
          Inl e \<Rightarrow> Ret (CO_SDO_AB_GENERAL S, c1)
        | Inr node \<Rightarrow>
            let buf_size = end_position k node in
            case co_download_initiate S index subindex buf_size 1000 True c1 of (ret, c2) \<Rightarrow>
              if ret \<noteq> 0 then Ret (CO_SDO_AB_DATA_LOC_CTRL S, c2)
              else write_from_file_loop S fuel (replicate (co_bufSize S c2) (fresh M)) buf_size 0 True
                     \<lparr>fh_path = resolve file_path, fh_pos = 0\<rparr> fs c2)"

section \<open>The typed accessors of the header\<close>

text \<open>The memory of the caller's variable is \<open>value\<close>; \<open>strlen(buf) + 1\<close> bytes of a string are sent.\<close>

definition sdo_read_bool where "sdo_read_bool S fuel node_id index subindex value c = sdo_read S fuel node_id index subindex value 1 None c"
definition sdo_read_uint8 where "sdo_read_uint8 S fuel node_id index subindex value c = sdo_read S fuel node_id index subindex value 1 None c"
definition sdo_read_uint16 where "sdo_read_uint16 S fuel node_id index subindex value c = sdo_read S fuel node_id index subindex value 2 None c"
definition sdo_read_uint32 where "sdo_read_uint32 S fuel node_id index subindex value c = sdo_read S fuel node_id index subindex value 4 None c"
definition sdo_read_uint64 where "sdo_read_uint64 S fuel node_id index subindex value c = sdo_read S fuel node_id index subindex value 8 None c"
definition sdo_read_int8 where "sdo_read_int8 S fuel node_id index subindex value c = sdo_read S fuel node_id index subindex value 1 None c"
definition sdo_read_int16 where "sdo_read_int16 S fuel node_id index subindex value c = sdo_read S fuel node_id index subindex value 2 None c"
definition sdo_read_int32 where "sdo_read_int32 S fuel node_id index subindex value c = sdo_read S fuel node_id index subindex value 4 None c"
definition sdo_read_int64 where "sdo_read_int64 S fuel node_id index subindex value c = sdo_read S fuel node_id index subindex value 8 None c"
definition sdo_read_float32 where "sdo_read_float32 S fuel node_id index subindex value c = sdo_read S fuel node_id index subindex value 4 None c"
definition sdo_read_float64 where "sdo_read_float64 S fuel node_id index subindex value c = sdo_read S fuel node_id index subindex value 8 None c"

definition sdo_read_bytes where "sdo_read_bytes S M fuel node_id index subindex buf buf_size block_transfer c =
  sdo_read_dynamic S M fuel node_id index subindex buf buf_size block_transfer c"

definition sdo_read_str where "sdo_read_str S M fuel node_id index subindex buf block_transfer c =
  sdo_read_dynamic S M fuel node_id index subindex buf None block_transfer c"

definition sdo_write_bool where "sdo_write_bool S fuel node_id index subindex value c = sdo_write S fuel node_id index subindex value 1 c"
definition sdo_write_uint8 where "sdo_write_uint8 S fuel node_id index subindex value c = sdo_write S fuel node_id index subindex value 1 c"
definition sdo_write_uint16 where "sdo_write_uint16 S fuel node_id index subindex value c = sdo_write S fuel node_id index subindex value 2 c"
definition sdo_write_uint32 where "sdo_write_uint32 S fuel node_id index subindex value c = sdo_write S fuel node_id index subindex value 4 c"
definition sdo_write_uint64 where "sdo_write_uint64 S fuel node_id index subindex value c = sdo_write S fuel node_id index subindex value 8 c"
definition sdo_write_int8 where "sdo_write_int8 S fuel node_id index subindex value c = sdo_write S fuel node_id index subindex value 1 c"
definition sdo_write_int16 where "sdo_write_int16 S fuel node_id index subindex value c = sdo_write S fuel node_id index subindex value 2 c"
definition sdo_write_int32 where "sdo_write_int32 S fuel node_id index subindex value c = sdo_write S fuel node_id index subindex value 4 c"
definition sdo_write_int64 where "sdo_write_int64 S fuel node_id index subindex value c = sdo_write S fuel node_id index subindex value 8 c"

definition sdo_write_bytes where "sdo_write_bytes S fuel node_id index subindex buf buf_size c =
  sdo_write S fuel node_id index subindex buf buf_size c"

definition sdo_write_str where "sdo_write_str S fuel node_id index subindex buf c =
  sdo_write S fuel node_id index subindex (bytes_of_string buf @ [0]) (length buf + 1) c"

section \<open>What reading delivers\<close>

text \<open>
  \<open>uploads S get got c bss c'\<close>: the stack, in state \<open>c\<close> with \<open>got\<close> bytes behind it, brings the rest of an object in the portions
  \<open>bss\<close>, one for each round, and ends in state \<open>c'\<close>. \<open>get\<close> is how the caller fetches a portion.
\<close>

fun uploads :: "'c sdo_stack \<Rightarrow> (nat \<Rightarrow> 'c \<Rightarrow> byte list \<times> 'c) \<Rightarrow> nat \<Rightarrow> 'c \<Rightarrow> byte list list \<Rightarrow> 'c \<Rightarrow> bool" where
  "uploads S get got c [] c' = False"
| "uploads S get got c (bs # bss) c' =
     (case co_upload S time_diff_us c of (r, c1) \<Rightarrow>
        case get (got + length bs) c1 of (taken, c2) \<Rightarrow>
          upl_abort r = 0 \<and> upl_size r = got + length bs \<and> taken = bs
          \<and> (if bss = [] then upl_ret r = 0 \<and> c2 = c' else upl_ret r > 0 \<and> uploads S get (got + length bs) c2 bss c'))"

definition fetch :: "'c sdo_stack \<Rightarrow> nat \<Rightarrow> 'c \<Rightarrow> byte list \<times> 'c" where
  "fetch S n c = (if n = 0 then ([], c) else co_take S n c)"

text \<open>What \<^verbatim>\<open>sdo_read_dynamic\<close> holds after the bytes \<open>d\<close>: nothing, or \<open>d\<close> with a terminator.\<close>

definition stored :: "byte list \<Rightarrow> byte list option" where
  "stored d = (if d = [] then None else Some (d @ [0]))"

lemma realloc_stored:
  assumes "realloc_ok M (Suc (length d + length bs))"
  obtains t where "realloc M (stored d) (Suc (length d + length bs)) = Some t" "length t = Suc (length d + length bs)"
    "take (length d) t = d"
proof -
  define old where "old = (case stored d of None \<Rightarrow> [] | Some x \<Rightarrow> x)"
  have old: "take (length d) old = d" "length old = (if d = [] then 0 else Suc (length d))" by (auto simp: old_def stored_def)
  define n where "n = Suc (length d + length bs)"
  have "realloc M (stored d) n = Some (take n old @ replicate (n - length old) (fresh M))"
    using assms by (simp add: realloc_def old_def n_def Let_def)
  moreover have "length (take n old @ replicate (n - length old) (fresh M)) = n" by simp
  moreover have "take (length d) (take n old @ replicate (n - length old) (fresh M)) = d"
    using old by (cases "d = []") (auto simp: n_def)
  ultimately show ?thesis using that n_def by blast
qed

lemma poke_terminated:
  assumes "length t = Suc (length d + length bs)" and "take (length d) t = d"
  shows "bind_outcome (poke t (length d + length bs) [0]) (\<lambda>t1. poke t1 (length d) bs) = Ret (d @ bs @ [0])"
proof -
  have 1: "poke t (length d + length bs) [0] = Ret (take (length d + length bs) t @ [0])" using assms(1) by simp
  have "take (length d) (take (length d + length bs) t @ [0]) = d" using assms by simp
  then show ?thesis unfolding 1 using assms(1) by simp
qed

lemma read_dynamic_loop_delivers:
  "uploads S (fetch S) (length d) c bss c' \<Longrightarrow> (\<And>n. realloc_ok M n) \<Longrightarrow> length bss \<le> fuel \<Longrightarrow>
     read_dynamic_loop S M fuel (stored d) (length d) c
     = Ret (Inr (stored (d @ concat bss), length (d @ concat bss), 0), c')"
proof (induction bss arbitrary: d c fuel)
  case (Cons bs bss)
  obtain fl where fl: "fuel = Suc fl" using Cons.prems(3) by (cases fuel) auto
  obtain r c1 where u: "co_upload S time_diff_us c = (r, c1)" by fastforce
  obtain c2 where f: "fetch S (length d + length bs) c1 = (bs, c2)" and r: "upl_abort r = 0" "upl_size r = length d + length bs"
    "if bss = [] then upl_ret r = 0 \<and> c2 = c' else upl_ret r > 0 \<and> uploads S (fetch S) (length d + length bs) c2 bss c'"
    using Cons.prems(1) u by (auto split: prod.splits)
  have round: "(if upl_size r \<noteq> 0 then
       (case realloc M (stored d) (upl_size r + 1) of None \<Rightarrow> Fault Null_pointer
        | Some t \<Rightarrow> bind_outcome (poke t (upl_size r) [0]) (\<lambda>t1.
            case co_take S (upl_size r) c1 of (bs, c2) \<Rightarrow>
              bind_outcome (poke t1 (length d) bs) (\<lambda>t2. Ret (Some t2, length d + length bs, c2))))
     else Ret (stored d, length d, c1)) = Ret (stored (d @ bs), length (d @ bs), c2)"
  proof (cases "upl_size r = 0")
    case True
    then show ?thesis using r(2) f by (auto simp: fetch_def)
  next
    case False
    then have t: "co_take S (length d + length bs) c1 = (bs, c2)" using f r(2) by (metis fetch_def)
    obtain m where m: "realloc M (stored d) (Suc (length d + length bs)) = Some m" "length m = Suc (length d + length bs)"
      "take (length d) m = d" using realloc_stored Cons.prems(2) by blast
    from poke_terminated [OF m(2,3)] obtain m1 where "poke m (length d + length bs) [0] = Ret m1" "poke m1 (length d) bs = Ret (d @ bs @ [0])"
      by (auto simp: bind_outcome_Ret_iff)
    then show ?thesis using False r(2) m(1) t by (auto simp: stored_def)
  qed
  have "\<not> upl_ret r < 0" using r(3) by (auto split: if_splits)
  then have loop: "read_dynamic_loop S M fuel (stored d) (length d) c =
     (if upl_ret r > 0 then read_dynamic_loop S M fl (stored (d @ bs)) (length (d @ bs)) c2
      else Ret (Inr (stored (d @ bs), upl_size r, upl_abort r), c2))"
    unfolding fl using u round by simp
  show ?case
  proof (cases "bss = []")
    case True
    then show ?thesis using loop r by simp
  next
    case False
    then show ?thesis using loop r Cons.IH [of "d @ bs" c2 fl] Cons.prems(2,3) fl by simp
  qed
qed simp

text \<open>The calls that open a transfer succeed, and leave the client in state \<open>c1\<close>.\<close>

definition upload_opens :: "'c sdo_stack \<Rightarrow> byte \<Rightarrow> u16 \<Rightarrow> byte \<Rightarrow> bool \<Rightarrow> 'c \<Rightarrow> 'c \<Rightarrow> bool" where
  "upload_opens S node_id index subindex block c c1 \<longleftrightarrow> sdo_upload_start S node_id index subindex block c = (True, c1)"

lemma read_dynamic_result:
  assumes "upload_opens S node_id index subindex block c c1" and "uploads S (fetch S) 0 c1 bss c'"
    and "\<And>n. realloc_ok M n" and "length bss \<le> fuel"
  shows "sdo_read_dynamic S M fuel node_id index subindex buf buf_size block c
    = Ret (0, stored (concat bss), map_option (\<lambda>_. length (concat bss)) buf_size, c')"
proof -
  have "read_dynamic_loop S M fuel None 0 c1 = Ret (Inr (stored (concat bss), length (concat bss), 0), c')"
    using read_dynamic_loop_delivers [of S "[]" c1 bss c' M fuel] assms by (simp add: stored_def)
  then show ?thesis using assms(1) by (simp add: sdo_read_dynamic_def upload_opens_def)
qed

text \<open>
  C11: an object read into memory of its own arrives whole. When the stack brings the object in the portions
  \<open>bss\<close>, the caller gets their concatenation with a terminator behind it, and its size without the terminator; for an empty
  object it gets a null pointer.
\<close>

theorem sdo_read_dynamic_delivers:
  assumes "upload_opens S node_id index subindex block c c1" and "uploads S (fetch S) 0 c1 bss c'"
    and "\<And>n. realloc_ok M n" and "length bss \<le> fuel"
  shows "sdo_read_dynamic S M fuel node_id index subindex buf buf_size block c
    = Ret (0, stored (concat bss), map_option (\<lambda>_. length (concat bss)) buf_size, c')"
  by (rule read_dynamic_result [OF assms])

lemma read_to_file_loop_delivers:
  "uploads S (\<lambda>_ c. co_take S (co_bufSize S c) c) got c bss c' \<Longrightarrow> list_all (\<lambda>bs. length bs \<le> length buf) bss \<Longrightarrow>
     length bss \<le> fuel \<Longrightarrow> map_of fs (fh_path fp) = Some (File d) \<Longrightarrow> fh_pos fp = length d \<Longrightarrow>
     \<exists>fs'. read_to_file_loop S fuel buf fp fs c = Ret (0, fs', c')
       \<and> map_of fs' = (map_of fs)(fh_path fp \<mapsto> File (d @ concat bss))"
proof (induction bss arbitrary: got c fuel buf fp fs d)
  case (Cons bs bss)
  obtain fl where fl: "fuel = Suc fl" using Cons.prems(3) by (cases fuel) auto
  obtain r c1 where u: "co_upload S time_diff_us c = (r, c1)" by fastforce
  obtain c2 where t: "co_take S (co_bufSize S c1) c1 = (bs, c2)"
    and r: "if bss = [] then upl_ret r = 0 \<and> c2 = c' else upl_ret r > 0 \<and>
        uploads S (\<lambda>_ c. co_take S (co_bufSize S c) c) (got + length bs) c2 bss c'"
    using Cons.prems(1) u by (auto split: prod.splits)
  have neg: "\<not> upl_ret r < 0" using r by (auto split: if_splits)
  let ?buf = "bs @ drop (length bs) buf" and ?fp = "fp\<lparr>fh_pos := length (d @ bs)\<rparr>"
  let ?fs = "AList.update (fh_path fp) (File (d @ bs)) fs"
  have p: "poke buf 0 bs = Ret ?buf" and w: "fwrite fs fp ?buf (length bs) = Ret (?fs, ?fp)"
    using Cons.prems(2,4,5) by (simp_all add: fwrite_def)
  have loop: "read_to_file_loop S fuel buf fp fs c =
      (if upl_ret r > 0 then read_to_file_loop S fl ?buf ?fp ?fs c2 else Ret (0, ?fs, c2))"
    using neg u t p w by (simp add: fl)
  show ?case
  proof (cases "bss = []")
    case True
    then show ?thesis using loop r by (simp add: fun_upd_def)
  next
    case False
    then have "\<exists>fs'. read_to_file_loop S fl ?buf ?fp ?fs c2 = Ret (0, fs', c')
        \<and> map_of fs' = (map_of ?fs)(fh_path ?fp \<mapsto> File ((d @ bs) @ concat bss))"
      using r Cons.prems(2,3) fl by (intro Cons.IH [of "got + length bs"]) simp_all
    then show ?thesis using loop r False by auto
  qed
qed simp

text \<open>
  An object read into a file arrives whole. The file that could be created holds exactly the portions
  the stack brought, and no other file is touched.
\<close>

lemma sdo_read_to_file_delivers:
  assumes "upload_opens S node_id index subindex True c c1" and "fs_create fs path = Inr fs1"
    and "uploads S (\<lambda>_ c. co_take S (co_bufSize S c) c) 0 c1 bss c'" and "list_all (\<lambda>bs. length bs \<le> co_bufSize S c1) bss"
    and "length bss \<le> fuel"
  shows "\<exists>fs'. sdo_read_to_file S M fuel node_id index subindex path fs c = Ret (0, fs', c')
    \<and> map_of fs' = (map_of fs)(resolve path \<mapsto> File (concat bss))"
proof -
  have fs1: "map_of fs1 = (map_of fs)(resolve path \<mapsto> File [])"
    using assms(2) by (auto simp: fs_create_def Let_def split: if_splits option.splits node.splits)
  let ?buf = "replicate (co_bufSize S c1) (fresh M)" and ?fp = "\<lparr>fh_path = resolve path, fh_pos = 0\<rparr>"
  have "\<exists>fs'. read_to_file_loop S fuel ?buf ?fp fs1 c1 = Ret (0, fs', c')
      \<and> map_of fs' = (map_of fs1)(fh_path ?fp \<mapsto> File ([] @ concat bss))"
    using assms(3,4,5) by (intro read_to_file_loop_delivers [where got = 0]) (simp_all add: fs1)
  then show ?thesis using assms(1,2) fs1 by (auto simp: sdo_read_to_file_def upload_opens_def)
qed

lemma read_loop_delivers:
  "uploads S (\<lambda>_. co_take S buf_size) got c bss c' \<Longrightarrow> length bss \<le> fuel \<Longrightarrow> offset \<le> length data \<Longrightarrow>
     read_loop S fuel data buf_size offset c =
       (if offset + length (concat bss) \<le> length data
        then Ret (Inr (offset + length (concat bss)),
               take offset data @ concat bss @ drop (offset + length (concat bss)) data, c')
        else Fault Out_of_bounds)"
proof (induction bss arbitrary: got c fuel data offset)
  case (Cons bs bss)
  obtain fl where fl: "fuel = Suc fl" using Cons.prems(2) by (cases fuel) auto
  obtain r c1 where u: "co_upload S time_diff_us c = (r, c1)" by fastforce
  obtain c2 where t: "co_take S buf_size c1 = (bs, c2)"
    and r: "if bss = [] then upl_ret r = 0 \<and> c2 = c' else upl_ret r > 0 \<and> uploads S (\<lambda>_. co_take S buf_size) (got + length bs) c2 bss c'"
    using Cons.prems(1) u by (auto split: prod.splits)
  have neg: "\<not> upl_ret r < 0" using r by (auto split: if_splits)
  show ?case
  proof (cases "offset + length bs \<le> length data")
    case False
    then show ?thesis using neg u t by (simp add: fl)
  next
    case True
    let ?data = "take offset data @ bs @ drop (offset + length bs) data"
    have loop: "read_loop S fuel data buf_size offset c = (if upl_ret r > 0
        then read_loop S fl ?data buf_size (offset + length bs) c2 else Ret (Inr (offset + length bs), ?data, c2))"
      using neg u t True by (simp add: fl)
    show ?thesis
    proof (cases "bss = []")
      case False
      have len: "length ?data = length data" using True by simp
      show ?thesis
        using Cons.IH [of "got + length bs" c2 fl "offset + length bs" ?data] loop r False Cons.prems(2) fl True
        by (auto simp: len ac_simps)
    qed (use loop r True in simp)
  qed
qed simp

text \<open>
  C35: reading into a buffer of the caller. An object that fits is delivered at the front of the
  buffer with its size; a longer one is written past the end of the buffer.
\<close>

theorem sdo_read_fits_or_overruns:
  assumes "upload_opens S node_id index subindex True c c1" and "uploads S (\<lambda>_. co_take S (length data)) 0 c1 bss c'"
    and "length bss \<le> fuel"
  shows "sdo_read S fuel node_id index subindex data (length data) read_size c =
    (if length (concat bss) \<le> length data
     then Ret (0, concat bss @ drop (length (concat bss)) data, map_option (\<lambda>_. length (concat bss)) read_size, c')
     else Fault Out_of_bounds)"
  using assms(1) read_loop_delivers [OF assms(2,3), of 0 data] by (simp add: sdo_read_def upload_opens_def)

section \<open>What writing sends\<close>

text \<open>The calls that open a download of \<open>n\<close> bytes succeed, and leave the client in state \<open>c2\<close>.\<close>

definition download_opens :: "'c sdo_stack \<Rightarrow> byte \<Rightarrow> u16 \<Rightarrow> byte \<Rightarrow> nat \<Rightarrow> 'c \<Rightarrow> 'c \<Rightarrow> bool" where
  "download_opens S node_id index subindex n c c2 \<longleftrightarrow>
     (case co_setup S (CO_CAN_ID_SDO_CLI S + ucast node_id) (CO_CAN_ID_SDO_SRV S + ucast node_id) node_id c of (ret, c1) \<Rightarrow>
        ret = 0 \<and> co_download_initiate S index subindex n 1000 True c1 = (0, c2))"

text \<open>\<open>finishes S c n c'\<close>: with everything handed over, the stack ends the transfer in the \<open>n\<close>-th further round.\<close>

fun finishes :: "'c sdo_stack \<Rightarrow> 'c \<Rightarrow> nat \<Rightarrow> 'c \<Rightarrow> bool" where
  "finishes S c 0 c' = False"
| "finishes S c (Suc n) c' =
     (case co_download S time_diff_us False c of (r, c1) \<Rightarrow>
        if n = 0 then dnl_ret r = 0 \<and> c1 = c' else dnl_ret r > 0 \<and> finishes S c1 n c')"

lemma write_loop_finishes:
  "finishes S c n c' \<Longrightarrow> n \<le> fuel \<Longrightarrow> buf_size \<le> offset \<Longrightarrow> write_loop S fuel data buf_size offset False c = Ret (0, c')"
proof (induction n arbitrary: c fuel)
  case (Suc n)
  obtain fl where fl: "fuel = Suc fl" using Suc.prems(2) by (cases fuel) auto
  obtain r c1 where d: "co_download S time_diff_us False c = (r, c1)" by fastforce
  have r: "if n = 0 then dnl_ret r = 0 \<and> c1 = c' else dnl_ret r > 0 \<and> finishes S c1 n c'" using Suc.prems(1) d by simp
  have "write_loop S fuel data buf_size offset False c = (if dnl_ret r > 0 then write_loop S fl data buf_size offset False c1 else Ret (0, c1))"
    using r d Suc.prems(3) by (cases "n = 0") (simp_all add: fl)
  then show ?case using r Suc.IH [of c1 fl] Suc.prems(2,3) fl by (cases "n = 0") simp_all
qed simp

lemma write_from_file_loop_finishes:
  "finishes S c n c' \<Longrightarrow> n \<le> fuel \<Longrightarrow> buf_size \<le> offset \<Longrightarrow>
     write_from_file_loop S fuel buf buf_size offset False fp fs c = Ret (0, c')"
proof (induction n arbitrary: c fuel)
  case (Suc n)
  obtain fl where fl: "fuel = Suc fl" using Suc.prems(2) by (cases fuel) auto
  obtain r c1 where d: "co_download S time_diff_us False c = (r, c1)" by fastforce
  have r: "if n = 0 then dnl_ret r = 0 \<and> c1 = c' else dnl_ret r > 0 \<and> finishes S c1 n c'" using Suc.prems(1) d by simp
  have "write_from_file_loop S fuel buf buf_size offset False fp fs c = (if dnl_ret r > 0 then write_from_file_loop S fl buf buf_size offset False fp fs c1 else Ret (0, c1))"
    using r d Suc.prems(3) by (cases "n = 0") (simp_all add: fl Let_def)
  then show ?case using r Suc.IH [of c1 fl] Suc.prems(2,3) fl by (cases "n = 0") simp_all
qed simp

text \<open>The first round that hands over the last byte, for both loops.\<close>

lemma write_loop_last:
  assumes "buf_write S data offset buf_size c = Ret (m, c1)" and "offset < buf_size" and "buf_size \<le> offset + m"
    and "finishes S c1 n c'" and "n \<le> fuel"
  shows "write_loop S fuel data buf_size offset p c = Ret (0, c')"
proof -
  obtain fl where fl: "fuel = Suc fl" using assms(4,5) by (cases n; cases fuel) auto
  have "write_loop S fuel data buf_size offset p c = write_loop S fuel data buf_size (offset + m) False c1"
    using assms(1-3) by (simp add: fl)
  also have "\<dots> = Ret (0, c')" by (rule write_loop_finishes [OF assms(4,5,3)])
  finally show ?thesis .
qed

lemma write_from_file_loop_last:
  assumes "fread fs fp buf (co_space S c) = Ret (buf', fp')" and "buf_write S buf' 0 buf_size c = Ret (m, c1)" and "0 < co_space S c"
    and "offset < buf_size" and "buf_size \<le> offset + m" and "finishes S c1 n c'" and "n \<le> fuel"
  shows "write_from_file_loop S fuel buf buf_size offset p fp fs c = Ret (0, c')"
proof -
  obtain fl where fl: "fuel = Suc fl" using assms(6,7) by (cases n; cases fuel) auto
  have "write_from_file_loop S fuel buf buf_size offset p fp fs c = write_from_file_loop S fuel buf' buf_size (offset + m) False fp' fs c1"
    using assms(1-5) by (simp add: fl Let_def)
  also have "\<dots> = Ret (0, c')" by (rule write_from_file_loop_finishes [OF assms(6,7,5)])
  finally show ?thesis .
qed

text \<open>
  C12: a value that fits into the client's buffer is handed over once and whole, and the transfer ends
  when the stack says so.
\<close>

theorem sdo_write_delivers:
  assumes "download_opens S node_id index subindex (length data) c c2" and "data \<noteq> []" and "length data \<le> co_space S c2"
    and "finishes S (co_put S data c2) n c'" and "n \<le> fuel"
  shows "sdo_write S fuel node_id index subindex data (length data) c = Ret (0, c')"
proof -
  have "write_loop S fuel data (length data) 0 True c2 = Ret (0, c')"
    by (rule write_loop_last [OF _ _ _ assms(4,5), where m = "length data"])
      (use assms(2,3) in \<open>simp_all add: buf_write_def min_def\<close>)
  then show ?thesis using assms(1) by (auto simp: sdo_write_def download_opens_def split: prod.splits)
qed

text \<open>
  A value longer than the client's buffer is read past its end. Once the stack has sent the first
  portion and has room for more than what is left, the loop offers the size of the whole value again.
\<close>

lemma sdo_write_long_overreads:
  assumes "download_opens S node_id index subindex (length data) c c2" and "co_space S c2 = k" and "k < length data"
    and "co_download S time_diff_us True (co_put S (take k data) c2) = (r, c3)" and "dnl_ret r > 0"
    and "length data - k < co_space S c3" and "0 < k"
  shows "sdo_write S (Suc (Suc fuel)) node_id index subindex data (length data) c = Fault Out_of_bounds"
proof -
  have "buf_write S data 0 (length data) c2 = Ret (k, co_put S (take k data) c2)" using assms(2,3) by (simp add: buf_write_def)
  moreover have "buf_write S data k (length data) c3 = Fault Out_of_bounds"
    using assms(3,6,7) by (simp add: buf_write_def min_def Let_def)
  ultimately have "write_loop S (Suc (Suc fuel)) data (length data) 0 True c2 = Fault Out_of_bounds"
    using assms(3-5) by (cases "data = []") simp_all
  then show ?thesis using assms(1) by (auto simp: sdo_write_def download_opens_def split: prod.splits)
qed

lemma buf_write_all: "count \<le> co_space S c \<Longrightarrow> offset + count \<le> length data \<Longrightarrow>
    buf_write S data offset count c = Ret (count, co_put S (take count (drop offset data)) c)"
  and buf_write_room: "co_space S c \<le> count \<Longrightarrow> offset + co_space S c \<le> length data \<Longrightarrow>
    buf_write S data offset count c = Ret (co_space S c, co_put S (take (co_space S c) (drop offset data)) c)"
  by (simp_all add: buf_write_def Let_def)

lemma write_from_file_starts:
  assumes "fs_node fs path = Some (File d)" and "download_opens S node_id index subindex (length d) c c2"
  shows "sdo_write_from_file S M kn fuel node_id index subindex path fs c =
     write_from_file_loop S fuel (replicate (co_bufSize S c2) (fresh M)) (length d) 0 True \<lparr>fh_path = resolve path, fh_pos = 0\<rparr> fs c2"
  using assms by (auto simp: sdo_write_from_file_def download_opens_def fs_open_rd_def end_position_def split: prod.splits)

text \<open>
  A file that fits into the client's buffer is sent as it is; of a longer file the last portion is
  filled up with bytes of the portion before. Here the client has room for \<open>k\<close> bytes before and after the first
  portion, and less than \<open>k\<close> bytes are left for the second.
\<close>

lemma sdo_write_from_file_stale_tail:
  assumes "fs_node fs path = Some (File d)" and "download_opens S node_id index subindex (length d) c c2"
    and "co_space S c2 = k" and "0 < k" and "k \<le> co_bufSize S c2" and "n \<le> fuel" and "d \<noteq> []"
  shows "(length d \<le> k \<and> finishes S (co_put S d c2) n c'
      \<longrightarrow> sdo_write_from_file S M kn fuel node_id index subindex path fs c = Ret (0, c'))
    \<and> (k < length d \<and> length d < 2 * k \<and> co_download S time_diff_us True (co_put S (take k d) c2) = (r, c3)
        \<and> dnl_ret r > 0 \<and> co_space S c3 = k
        \<and> finishes S (co_put S (drop k d @ drop (length d - k) (take k d)) c3) n c'
      \<longrightarrow> sdo_write_from_file S M kn (Suc fuel) node_id index subindex path fs c = Ret (0, c'))"
proof (intro conjI impI; elim conjE)
  let ?buf = "replicate (co_bufSize S c2) (fresh M)" and ?fp = "\<lparr>fh_path = resolve path, fh_pos = 0\<rparr>"
  have d: "fh_content fs ?fp = d"
    using assms(1) by (auto simp: fs_node_def fh_content_def split: if_splits option.splits node.splits)
  {
    assume short: "length d \<le> k" and fin: "finishes S (co_put S d c2) n c'"
    have rd: "fread fs ?fp ?buf (co_space S c2) = Ret (d @ drop (length d) ?buf, ?fp\<lparr>fh_pos := length d\<rparr>)"
      using short assms(3,5) d by (simp add: fread_def)
    have wr: "buf_write S (d @ drop (length d) ?buf) 0 (length d) c2 = Ret (length d, co_put S d c2)"
      using short assms(3) by (simp add: buf_write_all)
    show "sdo_write_from_file S M kn fuel node_id index subindex path fs c = Ret (0, c')"
      unfolding write_from_file_starts [OF assms(1,2)]
      using assms(3,4,7) by (intro write_from_file_loop_last [OF rd wr _ _ _ fin assms(6)]) simp_all
  next
    assume long: "k < length d" "length d < 2 * k" and first: "co_download S time_diff_us True (co_put S (take k d) c2) = (r, c3)"
      "dnl_ret r > 0" "co_space S c3 = k" and fin: "finishes S (co_put S (drop k d @ drop (length d - k) (take k d)) c3) n c'"
    let ?buf1 = "take k d @ drop k ?buf" and ?fp1 = "?fp\<lparr>fh_pos := k\<rparr>"
    let ?buf2 = "drop k d @ drop (length d - k) ?buf1" and ?fp2 = "?fp\<lparr>fh_pos := length d\<rparr>"
    have rd1: "fread fs ?fp ?buf (co_space S c2) = Ret (?buf1, ?fp1)" using long(1) assms(3,5) d by (simp add: fread_def min_def)
    have wr1: "buf_write S ?buf1 0 (length d) c2 = Ret (k, co_put S (take k d) c2)" using long(1) assms(3) by (simp add: buf_write_room)
    have "fh_content fs ?fp1 = d" using d by (simp add: fh_content_def)
    then have rd2: "fread fs ?fp1 ?buf1 (co_space S c3) = Ret (?buf2, ?fp2)"
      using long first(3) assms(5) by (simp add: fread_def min_def)
    have wr2: "buf_write S ?buf2 0 (length d) c3 = Ret (k, co_put S (drop k d @ drop (length d - k) (take k d)) c3)"
      using long first(3) by (simp add: buf_write_room)
    have "write_from_file_loop S (Suc fuel) ?buf (length d) 0 True ?fp fs c2 = write_from_file_loop S fuel ?buf1 (length d) k True ?fp1 fs c3"
      using rd1 wr1 first(1,2) long(1) assms(3,4,7) by (simp add: Let_def)
    also have "\<dots> = Ret (0, c')"
      using long first(3) assms(4) by (intro write_from_file_loop_last [OF rd2 wr2 _ _ _ fin assms(6)]) simp_all
    finally show "sdo_write_from_file S M kn (Suc fuel) node_id index subindex path fs c = Ret (0, c')"
      unfolding write_from_file_starts [OF assms(1,2)] .
  }
qed

section \<open>Transfers end\<close>

text \<open>
  \<open>timeouts S \<mu>\<close>: the stack does not ask for another round for ever, since it gives up on a silent peer (\<^verbatim>\<open>SDO_TIMEOUT_MS\<close>) and an
  object is finite. Each round that is to be followed by another one lowers the bound \<open>\<mu>\<close> on what is left, and emptying or
  filling the buffer does not raise it.
\<close>

definition timeouts :: "'c sdo_stack \<Rightarrow> ('c \<Rightarrow> nat) \<Rightarrow> bool" where
  "timeouts S \<mu> \<longleftrightarrow>
     (\<forall>c. upl_ret (fst (co_upload S time_diff_us c)) > 0 \<longrightarrow> \<mu> (snd (co_upload S time_diff_us c)) < \<mu> c)
   \<and> (\<forall>p c. dnl_ret (fst (co_download S time_diff_us p c)) > 0 \<longrightarrow> \<mu> (snd (co_download S time_diff_us p c)) < \<mu> c)
   \<and> (\<forall>n c. \<mu> (snd (co_take S n c)) \<le> \<mu> c) \<and> (\<forall>bs c. \<mu> (co_put S bs c) \<le> \<mu> c)"

lemma timeoutsD:
  assumes "timeouts S \<mu>"
  shows "co_upload S time_diff_us c = (r, c1) \<Longrightarrow> upl_ret r > 0 \<Longrightarrow> \<mu> c1 < \<mu> c"
    and "co_download S time_diff_us p c = (dr, c1) \<Longrightarrow> dnl_ret dr > 0 \<Longrightarrow> \<mu> c1 < \<mu> c"
    and "co_take S n c = (bs, c1) \<Longrightarrow> \<mu> c1 \<le> \<mu> c" and "\<mu> (co_put S bs c) \<le> \<mu> c"
  using assms unfolding timeouts_def by (metis fst_conv snd_conv)+

lemma buf_write_measure: "timeouts S \<mu> \<Longrightarrow> buf_write S data offset count c = Ret (n, c1) \<Longrightarrow> \<mu> c1 \<le> \<mu> c"
  by (auto simp: buf_write_def Let_def outcome_simps timeoutsD(4))

lemma read_dynamic_loop_ends: "timeouts S \<mu> \<Longrightarrow> \<mu> c < fuel \<Longrightarrow> read_dynamic_loop S M fuel tmp offset c \<noteq> Fault Out_of_fuel"
proof (induction fuel arbitrary: tmp offset c)
  case (Suc fuel)
  obtain r c1 where u: "co_upload S time_diff_us c = (r, c1)" by fastforce
  obtain bs c2 where t: "co_take S (upl_size r) c1 = (bs, c2)" by fastforce
  have "\<mu> c1 < fuel \<and> \<mu> c2 < fuel" if "upl_ret r > 0"
    using timeoutsD(1) [OF Suc.prems(1) u that] timeoutsD(3) [OF Suc.prems(1) t] Suc.prems(2) by simp
  then show ?case using u t Suc.IH [OF Suc.prems(1)] by (auto simp: outcome_simps split: option.splits if_splits)
qed simp

lemma read_loop_ends: "timeouts S \<mu> \<Longrightarrow> \<mu> c < fuel \<Longrightarrow> read_loop S fuel data buf_size offset c \<noteq> Fault Out_of_fuel"
proof (induction fuel arbitrary: data offset c)
  case (Suc fuel)
  obtain r c1 where u: "co_upload S time_diff_us c = (r, c1)" by fastforce
  obtain bs c2 where t: "co_take S buf_size c1 = (bs, c2)" by fastforce
  have "\<mu> c2 < fuel" if "upl_ret r > 0"
    using timeoutsD(1) [OF Suc.prems(1) u that] timeoutsD(3) [OF Suc.prems(1) t] Suc.prems(2) by simp
  then show ?case using u t Suc.IH [OF Suc.prems(1)] by (auto simp: outcome_simps)
qed simp

lemma fwrite_no_fuel: "fwrite fs fp buf n \<noteq> Fault Out_of_fuel" and fread_no_fuel: "fread fs fp buf n \<noteq> Fault Out_of_fuel"
  and buf_write_no_fuel: "buf_write S data offset count c \<noteq> Fault Out_of_fuel"
  by (auto simp: fwrite_def fread_def buf_write_def Let_def outcome_simps split: option.splits node.splits)

lemma read_to_file_loop_ends: "timeouts S \<mu> \<Longrightarrow> \<mu> c < fuel \<Longrightarrow> read_to_file_loop S fuel buf fp fs c \<noteq> Fault Out_of_fuel"
proof (induction fuel arbitrary: buf fp fs c)
  case (Suc fuel)
  obtain r c1 where u: "co_upload S time_diff_us c = (r, c1)" by fastforce
  obtain bs c2 where t: "co_take S (co_bufSize S c1) c1 = (bs, c2)" by fastforce
  have "\<mu> c2 < fuel" if "upl_ret r > 0"
    using timeoutsD(1) [OF Suc.prems(1) u that] timeoutsD(3) [OF Suc.prems(1) t] Suc.prems(2) by simp
  then show ?case using u t Suc.IH [OF Suc.prems(1)] by (auto simp: outcome_simps fwrite_no_fuel)
qed simp

lemma download_round_ends:
  assumes "timeouts S \<mu>" and "\<mu> c1 \<le> fuel" and "\<And>c2. \<mu> c2 < fuel \<Longrightarrow> rest c2 \<noteq> Fault Out_of_fuel"
  shows "(case co_download S time_diff_us p c1 of (r, c2) \<Rightarrow>
      if dnl_ret r < 0 then Ret (dnl_abort r, c2) else if dnl_ret r > 0 then rest c2 else Ret (0, c2)) \<noteq> Fault Out_of_fuel"
proof -
  obtain r c2 where d: "co_download S time_diff_us p c1 = (r, c2)" by fastforce
  have "\<mu> c2 < fuel" if "dnl_ret r > 0" using timeoutsD(2) [OF assms(1) d that] assms(2) by simp
  then show ?thesis using d assms(3) by simp
qed

lemma write_loop_ends: "timeouts S \<mu> \<Longrightarrow> \<mu> c < fuel \<Longrightarrow> write_loop S fuel data buf_size offset p c \<noteq> Fault Out_of_fuel"
proof (induction fuel arbitrary: offset p c)
  case (Suc fuel)
  have "\<mu> c1 \<le> fuel" if "buf_write S data offset buf_size c = Ret (n, c1)" for n c1
    using buf_write_measure [OF Suc.prems(1) that] Suc.prems(2) by simp
  moreover have "(case co_download S time_diff_us p' c1 of (r, c2) \<Rightarrow>
      if dnl_ret r < 0 then Ret (dnl_abort r, c2)
      else if dnl_ret r > 0 then write_loop S fuel data buf_size offset' p' c2 else Ret (0, c2)) \<noteq> Fault Out_of_fuel"
    if "\<mu> c1 \<le> fuel" for c1 p' offset'
    by (rule download_round_ends [OF Suc.prems(1) that Suc.IH [OF Suc.prems(1)]])
  ultimately show ?case
    using Suc.prems(2) buf_write_no_fuel [of S data offset buf_size c]
    by (cases "buf_write S data offset buf_size c") auto
qed simp

lemma write_from_file_loop_ends:
  "timeouts S \<mu> \<Longrightarrow> \<mu> c < fuel \<Longrightarrow> write_from_file_loop S fuel buf buf_size offset p fp fs c \<noteq> Fault Out_of_fuel"
proof (induction fuel arbitrary: buf offset p fp c)
  case (Suc fuel)
  have rest: "(case co_download S time_diff_us p' c1 of (r, c2) \<Rightarrow>
      if dnl_ret r < 0 then Ret (dnl_abort r, c2)
      else if dnl_ret r > 0 then write_from_file_loop S fuel buf' buf_size offset' p' fp' fs c2 else Ret (0, c2)) \<noteq> Fault Out_of_fuel"
    if "\<mu> c1 \<le> fuel" for c1 p' offset' buf' fp'
    by (rule download_round_ends [OF Suc.prems(1) that Suc.IH [OF Suc.prems(1)]])
  show ?case
  proof (cases "offset < buf_size \<and> co_space S c > 0")
    case False
    then show ?thesis using rest [of c] Suc.prems(2) by (auto simp: Let_def)
  next
    case True
    show ?thesis
    proof (cases "fread fs fp buf (co_space S c)")
      case (Fault f)
      then show ?thesis using True fread_no_fuel [of fs fp buf "co_space S c"] by (simp add: Let_def)
    next
      case (Ret x)
      obtain buf' fp' where x: "x = (buf', fp')" by (cases x)
      have "\<mu> c1 \<le> fuel" if "buf_write S buf' 0 buf_size c = Ret (n, c1)" for n c1
        using buf_write_measure [OF Suc.prems(1) that] Suc.prems(2) by simp
      then show ?thesis
        using True Ret x rest buf_write_no_fuel [of S buf' 0 buf_size c]
        by (cases "buf_write S buf' 0 buf_size c") (auto simp: Let_def)
    qed
  qed
qed simp


section \<open>Transfers stay inside their memory\<close>

text \<open>
  What the daemon relies on when it hands memory to the stack: \<^verbatim>\<open>CO_SDOclientUploadBufRead\<close> stores at most \<open>count\<close> bytes; the size of the
  buffer is fixed and its free space at most its size; and \<open>used\<close>, the number of bytes fetched since the transfer was opened,
  together with what can still be fetched, never exceeds the number of bytes the stack reports as transferred.
\<close>

definition buffer_ok :: "'c sdo_stack \<Rightarrow> nat \<Rightarrow> bool" where
  "buffer_ok S B \<longleftrightarrow> (\<forall>c. co_bufSize S c = B \<and> co_space S c \<le> B) \<and> (\<forall>n c. length (fst (co_take S n c)) \<le> n)"

definition counts :: "'c sdo_stack \<Rightarrow> ('c \<Rightarrow> nat) \<Rightarrow> bool" where
  "counts S used \<longleftrightarrow>
     (\<forall>node_id index subindex block c. used (snd (sdo_upload_start S node_id index subindex block c)) = 0)
   \<and> (\<forall>n c. used (snd (co_take S n c)) = used c + length (fst (co_take S n c)))
   \<and> (\<forall>c. case co_upload S time_diff_us c of (r, c1) \<Rightarrow>
        used c1 = used c \<and> (\<forall>n. used c + length (fst (co_take S n c1)) \<le> upl_size r))"

lemma length_realloc: "realloc M p n = Some t \<Longrightarrow> length t = n"
  by (auto simp: realloc_def Let_def split: if_splits)

lemma read_dynamic_loop_safe:
  "counts S used \<Longrightarrow> (\<And>n. realloc_ok M n) \<Longrightarrow> offset = used c \<Longrightarrow>
     read_dynamic_loop S M fuel tmp offset c = Fault f \<Longrightarrow> f = Out_of_fuel"
proof (induction fuel arbitrary: tmp offset c)
  case (Suc fuel)
  obtain r c1 where u: "co_upload S time_diff_us c = (r, c1)" by fastforce
  obtain bs c2 where t: "co_take S (upl_size r) c1 = (bs, c2)" by fastforce
  obtain m where m: "realloc M tmp (upl_size r + 1) = Some m" using Suc.prems(2) by (fastforce simp: realloc_def Let_def)
  have used: "used c1 = used c" "used c2 = used c + length bs" "used c + length bs \<le> upl_size r"
    using Suc.prems(1) u t unfolding counts_def by (metis (mono_tags, lifting) case_prod_conv fst_conv snd_conv)+
  have "length m = upl_size r + 1" by (rule length_realloc [OF m])
  then show ?case
    using Suc.prems(3,4) u t m used Suc.IH [OF Suc.prems(1,2) refl, where c = c1, unfolded used(1)]
      Suc.IH [OF Suc.prems(1,2) refl, where c = c2, unfolded used(2)]
    by (auto simp: outcome_simps simp del: poke_ok split: if_splits)
qed simp

lemma read_to_file_loop_safe:
  "buffer_ok S B \<Longrightarrow> length buf = B \<Longrightarrow> read_to_file_loop S fuel buf fp fs c = Fault f \<Longrightarrow> f = Out_of_fuel"
proof (induction fuel arbitrary: buf fp fs c)
  case (Suc fuel)
  obtain r c1 where u: "co_upload S time_diff_us c = (r, c1)" by fastforce
  obtain bs c2 where t: "co_take S (co_bufSize S c1) c1 = (bs, c2)" by fastforce
  have len: "length bs \<le> B" using Suc.prems(1) t unfolding buffer_ok_def by (metis fst_conv)
  have "\<exists>x. fwrite fs fp (bs @ drop (length bs) buf) (length bs) = Ret x" by (auto simp: fwrite_def split: option.splits node.splits)
  then obtain fs' fp' where w: "fwrite fs fp (bs @ drop (length bs) buf) (length bs) = Ret (fs', fp')" by fastforce
  show ?case
    using Suc.prems(2,3) u t w len Suc.IH [OF Suc.prems(1), of "bs @ drop (length bs) buf" fp' fs' c2] by (auto split: if_splits)
qed simp

lemma write_loop_safe:
  "n \<le> length data \<Longrightarrow> n \<le> offset \<or> offset = 0 \<and> n \<le> co_space S c \<Longrightarrow>
     write_loop S fuel data n offset p c = Fault f \<Longrightarrow> f = Out_of_fuel"
proof (induction fuel arbitrary: offset p c)
  case (Suc fuel)
  let ?c = "co_put S (take n data) c"
  obtain r c2 where d: "co_download S time_diff_us p c = (r, c2)" by fastforce
  obtain r' c2' where d': "co_download S time_diff_us False ?c = (r', c2')" by fastforce
  show ?case
  proof (cases "offset < n")
    case True
    then have "buf_write S data offset n c = Ret (n, ?c)" "offset = 0" using Suc.prems(1,2) by (auto simp: buf_write_all)
    then show ?thesis using Suc.prems(3) True d' Suc.IH [OF Suc.prems(1), of n c2' False] by (auto split: if_splits)
  next
    case False
    then show ?thesis using Suc.prems(3) d Suc.IH [OF Suc.prems(1), of offset c2 p] by (auto split: if_splits)
  qed
qed simp

lemma write_from_file_loop_safe:
  "buffer_ok S B \<Longrightarrow> length buf = B \<Longrightarrow> write_from_file_loop S fuel buf buf_size offset p fp fs c = Fault f \<Longrightarrow> f = Out_of_fuel"
proof (induction fuel arbitrary: buf offset p fp c)
  case (Suc fuel)
  let ?bs = "take (co_space S c) (drop (fh_pos fp) (fh_content fs fp))"
  have sp: "co_space S c \<le> B" using Suc.prems(1) by (simp add: buffer_ok_def)
  then have rd: "fread fs fp buf (co_space S c) = Ret (?bs @ drop (length ?bs) buf, fp\<lparr>fh_pos := fh_pos fp + length ?bs\<rparr>)"
    using Suc.prems(2) by (simp add: fread_def Let_def)
  let ?buf = "?bs @ drop (length ?bs) buf"
  have len: "length ?buf = B" using sp Suc.prems(2) by simp
  obtain n c1 where wr: "buf_write S ?buf 0 buf_size c = Ret (n, c1)" using sp len by (simp add: buf_write_def Let_def)
  obtain r c2 where d: "co_download S time_diff_us p c = (r, c2)" by fastforce
  obtain r' c2' where d': "co_download S time_diff_us (offset + n < buf_size) c1 = (r', c2')" by fastforce
  show ?case
  proof (cases "offset < buf_size \<and> co_space S c > 0")
    case True
    then show ?thesis
      using Suc.prems(3) rd wr d' Suc.IH [OF Suc.prems(1) len, of "offset + n" _ _ c2'] by (auto simp: Let_def split: if_splits)
  next
    case False
    then show ?thesis using Suc.prems(3) d Suc.IH [OF Suc.prems(1,2), of offset _ _ c2] by (auto simp: Let_def split: if_splits)
  qed
qed simp

text \<open>
  A stack over which the daemon's transfers are safe: the laws above, memory, and a buffer that has room for a value of
  one message, at most 255 bytes, when a download has been opened. \<open>fuel\<close> is beyond the bound on the rounds.
\<close>

definition sdo_safe :: "'c sdo_stack \<Rightarrow> memory \<Rightarrow> nat \<Rightarrow> ('c \<Rightarrow> nat) \<Rightarrow> ('c \<Rightarrow> nat) \<Rightarrow> nat \<Rightarrow> bool" where
  "sdo_safe S M B used \<mu> fuel \<longleftrightarrow>
     timeouts S \<mu> \<and> buffer_ok S B \<and> counts S used \<and> (\<forall>n. realloc_ok M n) \<and> (\<forall>c. \<mu> c < fuel)
   \<and> (\<forall>node_id index subindex n c c2. download_opens S node_id index subindex n c c2 \<and> n < 256 \<longrightarrow> n \<le> co_space S c2)"

lemma outcome_not_Fault: "(\<And>f. m \<noteq> Fault f) \<Longrightarrow> \<exists>x. m = Ret x"
  by (cases m) auto

lemma read_dynamic_loop_size:
  "read_dynamic_loop S M fuel tmp offset c = Ret (Inr (tmp', n, ac), c') \<Longrightarrow> n = 0 \<or> (\<exists>t. tmp' = Some t \<and> n \<le> length t)"
proof (induction fuel arbitrary: tmp offset c)
  case (Suc fuel)
  obtain r c1 where u: "co_upload S time_diff_us c = (r, c1)" by fastforce
  obtain bs c2 where t: "co_take S (upl_size r) c1 = (bs, c2)" by fastforce
  show ?case
    using Suc.prems u t Suc.IH
    by (auto simp: outcome_simps simp del: poke_ok split: if_splits option.splits dest!: length_realloc)
qed simp

lemma sdo_read_dynamic_returns:
  assumes "sdo_safe S M B used \<mu> fuel"
  shows "\<exists>ac buf' n c'. sdo_read_dynamic S M fuel node_id index subindex None (Some 0) block c = Ret (ac, buf', Some n, c')
    \<and> (n = 0 \<or> (\<exists>t. buf' = Some t \<and> n \<le> length t))"
proof -
  obtain ok c1 where s: "sdo_upload_start S node_id index subindex block c = (ok, c1)" by fastforce
  have laws: "timeouts S \<mu>" "counts S used" "\<And>n. realloc_ok M n" "\<mu> c1 < fuel" using assms by (simp_all add: sdo_safe_def)
  have "used c1 = 0" using laws(2) s unfolding counts_def by (metis snd_conv)
  then obtain res c2 where r: "read_dynamic_loop S M fuel None 0 c1 = Ret (res, c2)"
    using read_dynamic_loop_safe [OF laws(2,3), where c = c1 and offset = 0] read_dynamic_loop_ends [OF laws(1,4)]
    by (cases "read_dynamic_loop S M fuel None 0 c1") (auto, metis)
  then show ?thesis
    using s read_dynamic_loop_size [of S M fuel None 0 c1] by (cases res) (auto simp: sdo_read_dynamic_def)
qed

lemma sdo_write_returns:
  assumes "sdo_safe S M B used \<mu> fuel" and "n < 256" and "n \<le> length data"
  shows "\<exists>ac c'. sdo_write S fuel node_id index subindex data n c = Ret (ac, c')"
proof -
  have laws: "timeouts S \<mu>" "\<And>c. \<mu> c < fuel" using assms(1) by (simp_all add: sdo_safe_def)
  have loop: "\<exists>x. write_loop S fuel data n 0 True c2 = Ret x" if "download_opens S node_id index subindex n c c2" for c2
  proof -
    have "n \<le> co_space S c2" using assms(1,2) that unfolding sdo_safe_def by blast
    then show ?thesis
      using write_loop_safe [OF assms(3), of 0 S c2 fuel True] write_loop_ends [OF laws(1) laws(2), of data n 0 True c2]
      by (intro outcome_not_Fault) blast
  qed
  obtain ret c1 where s: "co_setup S (CO_CAN_ID_SDO_CLI S + ucast node_id) (CO_CAN_ID_SDO_SRV S + ucast node_id) node_id c = (ret, c1)"
    by fastforce
  obtain ret' c2 where i: "co_download_initiate S index subindex n 1000 True c1 = (ret', c2)" by fastforce
  show ?thesis using loop [of c2] s i by (auto simp: sdo_write_def download_opens_def)
qed

lemma sdo_files_return:
  assumes "sdo_safe S M B used \<mu> fuel"
  shows "\<exists>ac fs' c'. sdo_read_to_file S M fuel node_id index subindex path fs c = Ret (ac, fs', c')"
    and "\<exists>ac c'. sdo_write_from_file S M k fuel node_id index subindex path fs c = Ret (ac, c')"
proof -
  have laws: "timeouts S \<mu>" "buffer_ok S B" "\<And>c. \<mu> c < fuel" and B: "\<And>c. co_bufSize S c = B"
    using assms by (simp_all add: sdo_safe_def buffer_ok_def)
  have "\<exists>x. read_to_file_loop S fuel (replicate B (fresh M)) fp fs1 c1 = Ret x" for fp fs1 c1
    using read_to_file_loop_safe [OF laws(2)] read_to_file_loop_ends [OF laws(1,3)]
    by (intro outcome_not_Fault) (metis length_replicate)
  then show "\<exists>ac fs' c'. sdo_read_to_file S M fuel node_id index subindex path fs c = Ret (ac, fs', c')"
    by (auto simp: sdo_read_to_file_def B split: prod.splits sum.splits)
  have "\<exists>x. write_from_file_loop S fuel (replicate B (fresh M)) n 0 True fp fs c1 = Ret x" for n fp c1
    using write_from_file_loop_safe [OF laws(2)] write_from_file_loop_ends [OF laws(1,3)]
    by (intro outcome_not_Fault) (metis length_replicate)
  then show "\<exists>ac c'. sdo_write_from_file S M k fuel node_id index subindex path fs c = Ret (ac, c')"
    by (auto simp: sdo_write_from_file_def B Let_def split: prod.splits sum.splits)
qed

section \<open>Abort strings\<close>

lemma abort_string_loop_last:
  "abort_string_loop code table r = (case map_of (rev table) code of None \<Rightarrow> r | Some str \<Rightarrow> Some str)"
  by (induction table arbitrary: r) (auto simp: map_add_def split: option.splits)

lemma abort_codes_distinct: "distinct ABORT_CODES" and abort_tables_length: "length ABORT_CODES = length ABORT_CODES_STR"
  by (simp_all add: ABORT_CODES_def ABORT_CODES_STR_def)

lemma map_of_rev: "distinct (map fst xs) \<Longrightarrow> map_of (rev xs) = map_of xs"
  by (intro map_of_eqI) (auto simp: rev_map [symmetric])

text \<open>
  The scan for the name of an abort code, which goes on after a match, is the lookup in the two tables: every code of the
  table has the name at its place, and no other code has a name.
\<close>

lemma get_sdo_abort_string_is_lookup: "get_sdo_abort_string = map_of (zip ABORT_CODES ABORT_CODES_STR)"
proof -
  have "map_of (rev (zip ABORT_CODES ABORT_CODES_STR)) = map_of (zip ABORT_CODES ABORT_CODES_STR)"
    using abort_codes_distinct abort_tables_length by (intro map_of_rev) simp
  then show ?thesis by (auto simp: get_sdo_abort_string_def abort_string_loop_last fun_eq_iff split: option.splits)
qed

section \<open>A stack that replays a transfer\<close>

text \<open>
  An instance of the stack: it brings the portions of a list, one for each round, and sends what it is given, up to its
  capacity in one round, and gives up on a list of more than a hundred. The properties above are applied to it.
\<close>

record replay =
  portions :: "byte list list"
  queue :: "byte list"
  fetched :: nat
  sent :: "byte list"

definition replay_upload :: "replay \<Rightarrow> upload_result \<times> replay" where
  "replay_upload c = (case portions c of
       [] \<Rightarrow> (\<lparr>upl_ret = 0, upl_abort = 0, upl_size = fetched c + length (queue c)\<rparr>, c)
     | bs # bss \<Rightarrow>
         (\<lparr>upl_ret = (if bss = [] \<or> 100 \<le> length bss then 0 else 1), upl_abort = 0, upl_size = fetched c + length (queue c) + length bs\<rparr>,
          c\<lparr>portions := bss, queue := queue c @ bs\<rparr>))"

definition replay_take :: "nat \<Rightarrow> replay \<Rightarrow> byte list \<times> replay" where
  "replay_take n c = (take n (queue c), c\<lparr>queue := drop n (queue c), fetched := fetched c + length (take n (queue c))\<rparr>)"

definition replay_stack :: "nat \<Rightarrow> replay sdo_stack" where
  "replay_stack B =
     \<lparr>co_setup = (\<lambda>_ _ _ c. (0, c)),
      co_upload_initiate = (\<lambda>_ _ _ _ c. (0, c\<lparr>queue := [], fetched := 0\<rparr>)),
      co_upload = (\<lambda>_. replay_upload), co_take = replay_take,
      co_download_initiate = (\<lambda>_ _ _ _ _ c. (0, c\<lparr>queue := [], portions := [[], []]\<rparr>)),
      co_space = (\<lambda>c. B - length (queue c)), co_put = (\<lambda>bs c. c\<lparr>queue := queue c @ bs\<rparr>),
      co_download = (\<lambda>_ partial c. (\<lparr>dnl_ret = (if partial \<and> portions c \<noteq> [] \<and> length (portions c) \<le> 100 then 1 else 0), dnl_abort = 0\<rparr>,
         c\<lparr>sent := sent c @ queue c, queue := [], portions := drop 1 (portions c)\<rparr>)),
      co_bufSize = (\<lambda>_. B), CO_CAN_ID_SDO_CLI = 0x600, CO_CAN_ID_SDO_SRV = 0x580,
      CO_SDO_AB_GENERAL = 0x08000000, CO_SDO_AB_DATA_LOC_CTRL = 0x08000021, CO_SDO_AB_DATA_LONG = 0x06070012\<rparr>"

abbreviation replay_of :: "byte list list \<Rightarrow> replay" where
  "replay_of bss \<equiv> \<lparr>portions = bss, queue = [], fetched = 0, sent = []\<rparr>"

lemmas replay_simps = replay_stack_def replay_upload_def replay_take_def sdo_upload_start_def fetch_def upload_opens_def
  download_opens_def stored_def

abbreviation replay_memory :: memory where
  "replay_memory \<equiv> \<lparr>realloc_ok = (\<lambda>_. True), fresh = 0\<rparr>"

abbreviation replay_measure :: "replay \<Rightarrow> nat" where
  "replay_measure c \<equiv> min (length (portions c)) 100"

lemma replay_timeouts: "timeouts (replay_stack B) replay_measure"
  by (auto simp: timeouts_def replay_simps split: list.splits)

lemma replay_safe: "255 \<le> B \<Longrightarrow> sdo_safe (replay_stack B) replay_memory B fetched replay_measure 101"
  unfolding sdo_safe_def
  by (intro conjI replay_timeouts) (auto simp: buffer_ok_def counts_def replay_simps split: list.splits)

theorem sdo_read_dynamic_delivers_witness:
  "sdo_read_dynamic (replay_stack 7) replay_memory 2 5 0x2000 1 None (Some 0) False (replay_of [[1, 2], [3]])
     = Ret (0, Some [1, 2, 3, 0], Some 3, (replay_of [])\<lparr>fetched := 3\<rparr>)"
  using sdo_read_dynamic_delivers [of "replay_stack 7" 5 "0x2000" 1 False "replay_of [[1, 2], [3]]" "replay_of [[1, 2], [3]]"
      "[[1, 2], [3]]" "(replay_of [])\<lparr>fetched := 3\<rparr>" replay_memory 2 None "Some 0"]
  by (simp add: replay_simps)

lemma sdo_read_to_file_delivers_witness:
  "\<exists>fs'. sdo_read_to_file (replay_stack 7) replay_memory 2 5 0x2000 1 ''/f'' [([], Dir)] (replay_of [[1, 2], [3]])
       = Ret (0, fs', (replay_of [])\<lparr>fetched := 3\<rparr>)
     \<and> map_of fs' = (map_of [([], Dir)])([''f''] \<mapsto> File [1, 2, 3])"
proof -
  have p: "resolve ''/f'' = [''f'']" by (simp add: resolve_def path_push_def)
  show ?thesis
    using sdo_read_to_file_delivers [of "replay_stack 7" 5 "0x2000" 1 "replay_of [[1, 2], [3]]" "replay_of [[1, 2], [3]]" "[([], Dir)]"
      "''/f''" "[([], Dir), ([''f''], File [])]" "[[1, 2], [3]]" "(replay_of [])\<lparr>fetched := 3\<rparr>" 2 replay_memory]
    by (simp add: replay_simps fs_create_def p)
qed

theorem sdo_read_fits_or_overruns_witness:
  "sdo_read (replay_stack 7) 2 5 0x2000 1 [9, 9, 9] 3 (Some 0) (replay_of [[1, 2], [3, 4]]) = Fault Out_of_bounds"
  using sdo_read_fits_or_overruns [of "replay_stack 7" 5 "0x2000" 1 "replay_of [[1, 2], [3, 4]]" "replay_of [[1, 2], [3, 4]]" "[9, 9, 9]"
      "[[1, 2], [3, 4]]" "(replay_of [])\<lparr>fetched := 4\<rparr>" 2 "Some 0"]
  by (simp add: replay_simps numeral_3_eq_3)

theorem sdo_write_delivers_witness:
  "sdo_write (replay_stack 7) 3 5 0x2000 1 [1, 2, 3] 3 (replay_of []) = Ret (0, (replay_of [[]])\<lparr>sent := [1, 2, 3]\<rparr>)"
  using sdo_write_delivers [of "replay_stack 7" 5 "0x2000" 1 "[1, 2, 3]" "replay_of []" "replay_of [[], []]" 1
      "(replay_of [[]])\<lparr>sent := [1, 2, 3]\<rparr>" 3]
  by (simp add: replay_simps numeral_3_eq_3)

lemma sdo_write_long_overreads_witness:
  "sdo_write (replay_stack 2) (Suc (Suc 0)) 5 0x2000 1 [1, 2, 3] 3 (replay_of []) = Fault Out_of_bounds"
  using sdo_write_long_overreads [of "replay_stack 2" 5 "0x2000" 1 "[1, 2, 3]" "replay_of []" "replay_of [[], []]" 2
      "\<lparr>dnl_ret = 1, dnl_abort = 0\<rparr>" "(replay_of [[]])\<lparr>sent := [1, 2]\<rparr>" 0]
  by (simp add: replay_simps numeral_3_eq_3)

lemma sdo_write_from_file_stale_tail_witness:
  "sdo_write_from_file (replay_stack 3) replay_memory \<lparr>sendfile_k = (\<lambda>off n. Inr n), dir_size_k = 0\<rparr> (Suc 1) 5 0x2000 1 ''/f'' [([], Dir), ([''f''], File [1, 2, 3, 4])] (replay_of [])
     = Ret (0, (replay_of [])\<lparr>sent := [1, 2, 3, 4, 2, 3]\<rparr>)"
proof -
  have p: "resolve ''/f'' = [''f'']" by (simp add: resolve_def path_push_def)
  show ?thesis
    using sdo_write_from_file_stale_tail [of "[([], Dir), ([''f''], File [1, 2, 3, 4])]" "''/f''" "[1, 2, 3, 4]" "replay_stack 3" 5 "0x2000" 1
      "replay_of []" "replay_of [[], []]" 3 1 1 "(replay_of [])\<lparr>sent := [1, 2, 3, 4, 2, 3]\<rparr>" replay_memory "\<lparr>sendfile_k = (\<lambda>off n. Inr n), dir_size_k = 0\<rparr>"
      "\<lparr>dnl_ret = 1, dnl_abort = 0\<rparr>" "(replay_of [[]])\<lparr>sent := [1, 2, 3]\<rparr>"]
    by (simp add: replay_simps fs_node_def p)
qed


end
