(* ===== verification/Ipc_Respond.thy ===== *)
theory Ipc_Respond
  imports Ipc_Consume Sdo_Client
begin

text \<open>
  Model of \<^verbatim>\<open>src/ipc/ipc_respond.c\<close>: the messages that are answered. The SDO transfers are those of \<open>Sdo_Client\<close>, over
  the CANopen stack; an answer is the pair of the sender's identity and the bytes sent back.
\<close>

section \<open>State\<close>

definition ZMQ_HEADER_LEN :: nat where "ZMQ_HEADER_LEN = 5"

text \<open>What the responder runs on: the CANopen stack, memory, the kernel, and the rounds a transfer may take.\<close>

record 'c resp_env =
  env_stack :: "'c sdo_stack"
  env_memory :: memory
  env_kern :: kern
  env_rounds :: nat

text \<open>The two static buffers, the file cache, and the SDO client of the node, if it has one.\<close>

record 'c responder =
  resp_in :: "byte list"
  resp_out :: "byte list"
  fread_cache :: "fcache option"
  SDOclient :: "'c option"

section \<open>Handlers\<close>

text \<open>Each handler returns the number of bytes to send, 0 for an error, and the buffers as it leaves them.\<close>

definition put_out :: "'c responder \<Rightarrow> byte list \<Rightarrow> (nat \<times> 'c responder) outcome" where
  "put_out st bs = bind_outcome (poke (resp_out st) 0 bs) (\<lambda>out. Ret (length bs, st\<lparr>resp_out := out\<rparr>))"

definition make_sdo_abort_msg :: "'c responder \<Rightarrow> u32 \<Rightarrow> (nat \<times> 'c responder) outcome" where
  "make_sdo_abort_msg st abort_code = put_out st (ipc_bytes (Msg_error_abort abort_code))"

definition echo_request :: "'c responder \<Rightarrow> nat \<Rightarrow> (nat \<times> 'c responder) outcome" where
  "echo_request st buffer_in_recv = bind_outcome (peek (resp_in st) 0 buffer_in_recv) (put_out st)"

definition ipc_respond_sdo_read :: "'c resp_env \<Rightarrow> nat \<Rightarrow> 'c responder \<Rightarrow> (nat \<times> 'c responder) outcome" where
  "ipc_respond_sdo_read env buffer_in_recv st = (case SDOclient st of
       None \<Rightarrow> Ret (0, st)
     | Some cl \<Rightarrow>
         if buffer_in_recv < IPC_MSG_SDO_MIN_LEN \<or> buffer_in_recv > sizeof_sdo then Ret (0, st)
         else
           bind_outcome (field8 (resp_in st) 2) (\<lambda>node_id.
           bind_outcome (field16 (resp_in st) 3) (\<lambda>index.
           bind_outcome (field8 (resp_in st) 5) (\<lambda>sub.
           bind_outcome (sdo_read_dynamic (env_stack env) (env_memory env) (env_rounds env) node_id index sub None (Some 0) False cl)
             (\<lambda>(ac, data, len, cl').
             let st1 = st\<lparr>SDOclient := Some cl'\<rparr>; data_len = (case len of None \<Rightarrow> 0 | Some n \<Rightarrow> n) in
             if ac = 0 then
               (case data of
                  None \<Rightarrow> echo_request st1 buffer_in_recv
                | Some d \<Rightarrow>
                    if buffer_in_recv + data_len > IPC_MSG_MAX_LEN
                    then make_sdo_abort_msg st1 (CO_SDO_AB_DATA_LONG (env_stack env))
                    else bind_outcome (echo_request st1 buffer_in_recv) (\<lambda>(n, st2).
                         bind_outcome (peek d 0 data_len) (\<lambda>bs.
                         bind_outcome (poke (resp_out st2) buffer_in_recv bs) (\<lambda>out.
                         Ret (buffer_in_recv + data_len, st2\<lparr>resp_out := out\<rparr>)))))
             else make_sdo_abort_msg st1 ac)))))"

definition ipc_respond_sdo_write :: "'c resp_env \<Rightarrow> nat \<Rightarrow> 'c responder \<Rightarrow> (nat \<times> 'c responder) outcome" where
  "ipc_respond_sdo_write env buffer_in_recv st = (case SDOclient st of
       None \<Rightarrow> Ret (0, st)
     | Some cl \<Rightarrow>
         if buffer_in_recv < IPC_MSG_SDO_MIN_LEN \<or> buffer_in_recv > sizeof_sdo then Ret (0, st)
         else
           bind_outcome (field8 (resp_in st) 2) (\<lambda>node_id.
           bind_outcome (field16 (resp_in st) 3) (\<lambda>index.
           bind_outcome (field8 (resp_in st) 5) (\<lambda>sub.
           bind_outcome (field8 (resp_in st) 6) (\<lambda>len.
           bind_outcome (sdo_write (env_stack env) (env_rounds env) node_id index sub (drop 7 (resp_in st)) (unat len) cl) (\<lambda>(ac, cl').
           let st1 = st\<lparr>SDOclient := Some cl'\<rparr> in
           if ac = 0 then echo_request st1 buffer_in_recv else make_sdo_abort_msg st1 ac))))))"

text \<open>
  The handler reads the path where the larger structure of the SDO file messages has it, and its test
  of the result is the wrong way round.
\<close>

definition ipc_respond_add_file :: "kern \<Rightarrow> nat \<Rightarrow> fsys \<Rightarrow> 'c responder \<Rightarrow> (nat \<times> fsys \<times> 'c responder) outcome" where
  "ipc_respond_add_file k buffer_in_recv fs st =
     (if fread_cache st = None then Ret (0, fs, st)
      else if buffer_in_recv < IPC_MSG_FILE_MIN_LEN \<or> buffer_in_recv > sizeof_file then Ret (0, fs, st)
      else
        bind_outcome (message_path (resp_in st) 6) (\<lambda>(path, buf).
        bind_outcome (fcache_add k fs (fread_cache st) path False) (\<lambda>(error, fs1, c).
        let st1 = st\<lparr>resp_in := buf, fread_cache := c\<rparr> in
        bind_outcome (if error \<noteq> 0 then echo_request st1 buffer_in_recv else put_out st1 [IPC_MSG_ID_ERROR_ABORT, of_int error])
          (\<lambda>(n, st2). Ret (n, fs1, st2)))))"

definition respond_sdo_file ::
  "(byte \<Rightarrow> u16 \<Rightarrow> byte \<Rightarrow> string \<Rightarrow> fsys \<Rightarrow> 'c \<Rightarrow> (u32 \<times> fsys \<times> 'c) outcome) \<Rightarrow> nat \<Rightarrow> fsys \<Rightarrow> 'c responder \<Rightarrow>
   (nat \<times> fsys \<times> 'c responder) outcome" where
  "respond_sdo_file transfer buffer_in_recv fs st = (case SDOclient st of
       None \<Rightarrow> Ret (0, fs, st)
     | Some cl \<Rightarrow>
         if buffer_in_recv < IPC_MSG_SDO_FILE_MIN_LEN \<or> buffer_in_recv > sizeof_sdo_file then Ret (0, fs, st)
         else
           bind_outcome (message_path (resp_in st) 6) (\<lambda>(path, buf).
           bind_outcome (field8 buf 2) (\<lambda>node_id.
           bind_outcome (field16 buf 3) (\<lambda>index.
           bind_outcome (field8 buf 5) (\<lambda>sub.
           bind_outcome (transfer node_id index sub path fs cl) (\<lambda>(ac, fs1, cl').
           let st1 = st\<lparr>resp_in := buf, SDOclient := Some cl'\<rparr> in
           bind_outcome (if ac = 0 then echo_request st1 buffer_in_recv else make_sdo_abort_msg st1 ac)
             (\<lambda>(n, st2). Ret (n, fs1, st2))))))))"

definition ipc_respond_sdo_read_to_file :: "'c resp_env \<Rightarrow> nat \<Rightarrow> fsys \<Rightarrow> 'c responder \<Rightarrow> (nat \<times> fsys \<times> 'c responder) outcome" where
  "ipc_respond_sdo_read_to_file env = respond_sdo_file (sdo_read_to_file (env_stack env) (env_memory env) (env_rounds env))"

definition ipc_respond_sdo_write_from_file :: "'c resp_env \<Rightarrow> nat \<Rightarrow> fsys \<Rightarrow> 'c responder \<Rightarrow> (nat \<times> fsys \<times> 'c responder) outcome" where
  "ipc_respond_sdo_write_from_file env = respond_sdo_file (\<lambda>node_id index sub path fs cl.
     bind_outcome (sdo_write_from_file (env_stack env) (env_memory env) (env_kern env) (env_rounds env) node_id index sub path fs cl)
       (\<lambda>(ac, cl'). Ret (ac, fs, cl')))"

definition with_fs :: "fsys \<Rightarrow> (nat \<times> 'c responder) outcome \<Rightarrow> (nat \<times> fsys \<times> 'c responder) outcome" where
  "with_fs fs m = bind_outcome m (\<lambda>(n, st). Ret (n, fs, st))"

definition respond_dispatch ::
  "'c resp_env \<Rightarrow> byte \<Rightarrow> nat \<Rightarrow> fsys \<Rightarrow> 'c responder \<Rightarrow> (nat \<times> fsys \<times> 'c responder) outcome" where
  "respond_dispatch env i buffer_in_recv fs st =
     (if i = IPC_MSG_ID_SDO_READ then with_fs fs (ipc_respond_sdo_read env buffer_in_recv st)
      else if i = IPC_MSG_ID_SDO_WRITE then with_fs fs (ipc_respond_sdo_write env buffer_in_recv st)
      else if i = IPC_MSG_ID_ADD_FILE then ipc_respond_add_file (env_kern env) buffer_in_recv fs st
      else if i = IPC_MSG_ID_SDO_READ_TO_FILE then ipc_respond_sdo_read_to_file env buffer_in_recv fs st
      else if i = IPC_MSG_ID_SDO_WRITE_FROM_FILE then ipc_respond_sdo_write_from_file env buffer_in_recv fs st
      else bind_outcome (put_out st (ipc_bytes (Msg_error_id i))) (\<lambda>(n, st1). Ret (6, fs, st1)))"

text \<open>
  One request: the three frames of the socket, \<open>None\<close> when receiving fails. The result is the answer, if one is sent:
  the identity and the bytes.
\<close>

definition ipc_respond_process ::
  "'c resp_env \<Rightarrow> byte list option \<Rightarrow> byte list option \<Rightarrow> byte list option \<Rightarrow> fsys \<Rightarrow> 'c responder \<Rightarrow>
   ((byte list \<times> byte list) option \<times> fsys \<times> 'c responder) outcome" where
  "ipc_respond_process env frame1 frame2 frame3 fs st = (case (frame1, frame2, frame3) of
       (Some header, Some delimiter, Some m) \<Rightarrow>
         if length header \<noteq> ZMQ_HEADER_LEN \<or> length delimiter \<noteq> 0 \<or> length m \<le> 2 then Ret (None, fs, st)
         else
           bind_outcome (poke (resp_in st) 0 m) (\<lambda>buf.
           let st1 = st\<lparr>resp_in := buf\<rparr> in
           bind_outcome (field8 buf 0) (\<lambda>version.
           if version \<noteq> IPC_MSG_VERSION then Ret (None, fs, st1)
           else
             bind_outcome (field8 buf 1) (\<lambda>i.
             bind_outcome (respond_dispatch env i (length m) fs st1) (\<lambda>(n, fs2, st2).
             bind_outcome (if n = 0 then put_out st2 (ipc_bytes (Msg_error (of_int EINVAL))) else Ret (n, st2)) (\<lambda>(n', st3).
             bind_outcome (peek (resp_out st3) 0 n') (\<lambda>reply. Ret (Some (header, reply), fs2, st3)))))))
     | _ \<Rightarrow> Ret (None, fs, st))"

section \<open>Safety\<close>

definition resp_ok :: "'c responder \<Rightarrow> bool" where
  "resp_ok st \<longleftrightarrow> length (resp_in st) = IPC_MSG_MAX_LEN \<and> length (resp_out st) = IPC_MSG_MAX_LEN"

text \<open>What every handler delivers: a number of bytes that fits, and buffers of their size.\<close>

definition fits :: "(nat \<times> 'c responder) outcome \<Rightarrow> bool" where
  "fits m \<longleftrightarrow> (\<exists>n st. m = Ret (n, st) \<and> n \<le> IPC_MSG_MAX_LEN \<and> resp_ok st)"

definition fits_fs :: "(nat \<times> fsys \<times> 'c responder) outcome \<Rightarrow> bool" where
  "fits_fs m \<longleftrightarrow> (\<exists>n fs st. m = Ret (n, fs, st) \<and> n \<le> IPC_MSG_MAX_LEN \<and> resp_ok st)"

lemma fits_Ret0: "resp_ok st \<Longrightarrow> fits (Ret (0, st))" "resp_ok st \<Longrightarrow> fits_fs (Ret (0, fs, st))"
  by (simp_all add: fits_def fits_fs_def)

lemma fits_with_fs: "fits m \<Longrightarrow> fits_fs (with_fs fs m)"
  by (auto simp: fits_def fits_fs_def with_fs_def)

lemma fits_lift: "fits m \<Longrightarrow> fits_fs (bind_outcome m (\<lambda>(n, st). Ret (n, fs, st)))"
  using fits_with_fs by (simp add: with_fs_def)

lemma put_out_fits: "resp_ok st \<Longrightarrow> length bs \<le> IPC_MSG_MAX_LEN \<Longrightarrow> fits (put_out st bs)"
  by (simp add: fits_def put_out_def resp_ok_def)

lemma echo_request_fits:
  assumes "resp_ok st" and "n \<le> IPC_MSG_MAX_LEN"
  shows "fits (echo_request st n)"
    and "\<exists>st1. echo_request st n = Ret (n, st1) \<and> resp_ok st1"
proof -
  have "echo_request st n = put_out st (take n (resp_in st))" using assms by (simp add: echo_request_def resp_ok_def)
  then show "fits (echo_request st n)" "\<exists>st1. echo_request st n = Ret (n, st1) \<and> resp_ok st1"
    using assms put_out_fits [of st "take n (resp_in st)"] by (auto simp: put_out_def resp_ok_def)
qed

lemma abort_fits: "resp_ok st \<Longrightarrow> fits (make_sdo_abort_msg st ac)"
  unfolding make_sdo_abort_msg_def by (rule put_out_fits) (simp_all add: ipc_lens)

lemma field8_ok: "off < length buf \<Longrightarrow> \<exists>v. field8 buf off = Ret v"
  and field16_ok: "off + 2 \<le> length buf \<Longrightarrow> \<exists>v. field16 buf off = Ret v"
  by (simp_all add: field8_def field16_def)

lemma message_path_ok:
  assumes "length buf = IPC_MSG_MAX_LEN" and "off \<le> 6"
  shows "\<exists>p buf'. message_path buf off = Ret (p, buf') \<and> length buf' = IPC_MSG_MAX_LEN"
proof -
  obtain len where len: "field8 buf off = Ret len" using field8_ok [of off buf] assms by (auto simp: ipc_lens)
  have room: "off + 1 + unat len < length buf"
    using assms unat_byte_less [of len] by (simp add: ipc_lens del: unat_byte_less)
  define buf' where "buf' = take (off + 1 + unat len) buf @ [0] @ drop (off + 1 + unat len + 1) buf"
  have poke: "poke buf (off + 1 + unat len) [0] = Ret buf'" "length buf' = length buf" using room by (simp_all add: buf'_def)
  have "0 \<in> set (drop (off + 1) buf')" using room by (simp add: buf'_def)
  then have "char_of_byte 0 \<in> char_of_byte ` set (drop (off + 1) buf')" by (rule imageI)
  moreover have "char_of_byte 0 = nul" by (simp add: char_of_byte_def nul_def char_of_def)
  ultimately have "nul \<in> set (string_of_bytes (drop (off + 1) buf'))" by (simp add: string_of_bytes_def)
  then show ?thesis using len poke assms(1) by (simp add: message_path_def read_cstr_def)
qed

text \<open>The stack the responder works on is safe.\<close>

definition env_safe :: "'c resp_env \<Rightarrow> nat \<Rightarrow> ('c \<Rightarrow> nat) \<Rightarrow> ('c \<Rightarrow> nat) \<Rightarrow> bool" where
  "env_safe env B used \<mu> \<longleftrightarrow> sdo_safe (env_stack env) (env_memory env) B used \<mu> (env_rounds env)"

lemma resp_ok_client [simp]: "resp_ok (st\<lparr>SDOclient := cl\<rparr>) = resp_ok st"
  by (simp add: resp_ok_def)

lemma sdo_read_fits:
  assumes ok: "resp_ok st" and env: "env_safe env B used \<mu>"
  shows "fits (ipc_respond_sdo_read env n st)"
proof (cases "SDOclient st = None \<or> n < IPC_MSG_SDO_MIN_LEN \<or> n > sizeof_sdo")
  case True
  then show ?thesis using ok by (cases "SDOclient st") (auto simp: ipc_respond_sdo_read_def fits_Ret0)
next
  case False
  then obtain c where c: "SDOclient st = Some c" and n: "\<not> n < IPC_MSG_SDO_MIN_LEN" "\<not> n > sizeof_sdo" "n \<le> IPC_MSG_MAX_LEN"
    by (auto simp: ipc_sizes ipc_lens)
  have len: "length (resp_in st) = IPC_MSG_MAX_LEN" using ok by (simp add: resp_ok_def)
  obtain nd ix sb where f: "field8 (resp_in st) 2 = Ret nd" "field16 (resp_in st) 3 = Ret ix" "field8 (resp_in st) 5 = Ret sb"
    using field8_ok [of 2 "resp_in st"] field16_ok [of 3 "resp_in st"] field8_ok [of 5 "resp_in st"] len by (auto simp: ipc_lens)
  obtain ac data m c' where s: "sdo_read_dynamic (env_stack env) (env_memory env) (env_rounds env) nd ix sb None (Some 0) False c
      = Ret (ac, data, Some m, c')" and m: "m = 0 \<or> (\<exists>t. data = Some t \<and> m \<le> length t)"
    using sdo_read_dynamic_returns [OF env [unfolded env_safe_def], of nd ix sb False c] by blast
  let ?st = "st\<lparr>SDOclient := Some c'\<rparr>"
  have ok1: "resp_ok ?st" using ok by simp
  show ?thesis
  proof (cases "ac = 0 \<and> (\<exists>d. data = Some d \<and> n + m \<le> IPC_MSG_MAX_LEN)")
    case True
    then obtain d where d: "ac = 0" "data = Some d" "n + m \<le> IPC_MSG_MAX_LEN" "m \<le> length d" using m by auto
    obtain st1 where "echo_request ?st n = Ret (n, st1)" "resp_ok st1" using echo_request_fits(2) [OF ok1 n(3)] by blast
    then show ?thesis using c n f s d by (simp add: ipc_respond_sdo_read_def fits_def resp_ok_def Let_def)
  next
    case False
    then show ?thesis
      using c n f s echo_request_fits(1) [OF ok1 n(3)] abort_fits [OF ok1] by (auto simp: ipc_respond_sdo_read_def Let_def split: option.splits)
  qed
qed

lemma sdo_write_fits:
  assumes ok: "resp_ok st" and env: "env_safe env B used \<mu>"
  shows "fits (ipc_respond_sdo_write env n st)"
proof (cases "SDOclient st = None \<or> n < IPC_MSG_SDO_MIN_LEN \<or> n > sizeof_sdo")
  case True
  then show ?thesis using ok by (cases "SDOclient st") (auto simp: ipc_respond_sdo_write_def fits_Ret0)
next
  case False
  then obtain c where c: "SDOclient st = Some c" and n: "\<not> n < IPC_MSG_SDO_MIN_LEN" "\<not> n > sizeof_sdo" "n \<le> IPC_MSG_MAX_LEN"
    by (auto simp: ipc_sizes ipc_lens)
  have len: "length (resp_in st) = IPC_MSG_MAX_LEN" using ok by (simp add: resp_ok_def)
  obtain nd ix sb l where f: "field8 (resp_in st) 2 = Ret nd" "field16 (resp_in st) 3 = Ret ix" "field8 (resp_in st) 5 = Ret sb"
    "field8 (resp_in st) 6 = Ret l"
    using field8_ok [of 2 "resp_in st"] field16_ok [of 3 "resp_in st"] field8_ok [of 5 "resp_in st"] field8_ok [of 6 "resp_in st"] len
    by (auto simp: ipc_lens)
  have l: "unat l < 256" by simp
  then have "unat l \<le> length (drop 7 (resp_in st))" using len by (simp add: ipc_lens del: unat_byte_less)
  then obtain ac c' where s: "sdo_write (env_stack env) (env_rounds env) nd ix sb (drop 7 (resp_in st)) (unat l) c = Ret (ac, c')"
    using sdo_write_returns [OF env [unfolded env_safe_def] l] by blast
  have ok1: "resp_ok (st\<lparr>SDOclient := Some c'\<rparr>)" using ok by simp
  show ?thesis
    using c n f s echo_request_fits(1) [OF ok1 n(3)] abort_fits [OF ok1] by (simp add: ipc_respond_sdo_write_def Let_def)
qed

lemma sdo_file_fits:
  assumes ok: "resp_ok st" and tr: "\<And>nd ix sb p c. \<exists>ac fs' c'. transfer nd ix sb p fs c = Ret (ac, fs', c')"
  shows "fits_fs (respond_sdo_file transfer n fs st)"
proof (cases "SDOclient st = None \<or> n < IPC_MSG_SDO_FILE_MIN_LEN \<or> n > sizeof_sdo_file")
  case True
  then show ?thesis using ok by (cases "SDOclient st") (auto simp: respond_sdo_file_def fits_Ret0)
next
  case False
  then obtain c where f: "SDOclient st = Some c"
    and n: "\<not> n < IPC_MSG_SDO_FILE_MIN_LEN" "\<not> n > sizeof_sdo_file" "n \<le> IPC_MSG_MAX_LEN"
    by (auto simp: ipc_sizes ipc_lens)
  obtain p buf where p: "message_path (resp_in st) 6 = Ret (p, buf)" "length buf = IPC_MSG_MAX_LEN"
    using message_path_ok [of "resp_in st" 6] ok by (auto simp: resp_ok_def)
  obtain nd ix sb where m: "field8 buf 2 = Ret nd" "field16 buf 3 = Ret ix" "field8 buf 5 = Ret sb"
    using field8_ok [of 2 buf] field16_ok [of 3 buf] field8_ok [of 5 buf] p(2) by (auto simp: ipc_lens)
  obtain ac fs1 c' where t: "transfer nd ix sb p fs c = Ret (ac, fs1, c')" using tr by blast
  have ok1: "resp_ok (st\<lparr>resp_in := buf, SDOclient := Some c'\<rparr>)" using ok p(2) by (simp add: resp_ok_def)
  show ?thesis
    using f n p(1) m t fits_lift [OF echo_request_fits(1) [OF ok1 n(3)]] fits_lift [OF abort_fits [OF ok1]]
    by (simp add: respond_sdo_file_def Let_def)
qed

lemma dispatch_fits:
  assumes "resp_ok st" and "i \<noteq> IPC_MSG_ID_ADD_FILE" and env: "env_safe env B used \<mu>"
  shows "fits_fs (respond_dispatch env i n fs st)"
proof -
  have "fits (put_out st (ipc_bytes (Msg_error_id i)))" using assms(1) by (rule put_out_fits) (simp add: ipc_lens)
  then have "fits_fs (bind_outcome (put_out st (ipc_bytes (Msg_error_id i))) (\<lambda>(n, st1). Ret (6, fs, st1)))"
    by (auto simp: fits_def fits_fs_def ipc_lens)
  moreover have "fits_fs (ipc_respond_sdo_read_to_file env n fs st)" "fits_fs (ipc_respond_sdo_write_from_file env n fs st)"
    unfolding ipc_respond_sdo_read_to_file_def ipc_respond_sdo_write_from_file_def
    by (rule sdo_file_fits [OF assms(1)], use sdo_files_return [OF env [unfolded env_safe_def]] in \<open>fastforce simp: outcome_simps\<close>)+
  ultimately show ?thesis
    using assms(2) fits_with_fs [OF sdo_read_fits [OF assms(1) env, of n], of fs] fits_with_fs [OF sdo_write_fits [OF assms(1) env, of n], of fs]
    by (simp add: respond_dispatch_def)
qed


abbreviation example_env :: "replay resp_env" where
  "example_env \<equiv> \<lparr>env_stack = replay_stack 1000, env_memory = replay_memory,
     env_kern = \<lparr>sendfile_k = (\<lambda>off n. Inr n), dir_size_k = 0\<rparr>, env_rounds = 101\<rparr>"

abbreviation example_responder :: "replay responder" where
  "example_responder \<equiv> \<lparr>resp_in = replicate 1000 0, resp_out = replicate 1000 0, fread_cache = None, SDOclient = Some (replay_of [[1], [2]])\<rparr>"


section \<open>A read request to another node\<close>

text \<open>The members of a packed SDO message, in the front of the receive buffer.\<close>

lemma sdo_message_fields:
  assumes m_def: "m = ipc_bytes (Msg_sdo i node_id index sub d)"
  shows "length m = 7 + length d" and "m ! 0 = IPC_MSG_VERSION" and "m ! 1 = i" and "field8 (m @ r) 2 = Ret node_id"
    and "field16 (m @ r) 3 = Ret index" and "field8 (m @ r) 5 = Ret sub" and "field8 (m @ r) 6 = Ret (of_nat (length d))"
proof -
  show len: "length m = 7 + length d" by (simp add: m_def ipc_header_def counted_def)
  have b: "m ! 0 = IPC_MSG_VERSION" "m ! 1 = i" "m ! 2 = node_id" "take 2 (drop 3 m) = le_bytes 2 (unat index)" "m ! 5 = sub"
    "m ! 6 = of_nat (length d)"
    by (simp_all add: m_def ipc_header_def counted_def nth_append)
  have "le_val (le_bytes 2 (unat index)) = unat index"
    using unsigned_less [of index, where ?'a = nat] by (simp add: le_val_le_bytes)
  with b len show "m ! 0 = IPC_MSG_VERSION" "m ! 1 = i" "field8 (m @ r) 2 = Ret node_id" "field16 (m @ r) 3 = Ret index"
    "field8 (m @ r) 5 = Ret sub" "field8 (m @ r) 6 = Ret (of_nat (length d))"
    by simp_all
qed

text \<open>
  What an application that reads an object of another node gets. When the stack brings the object in the portions
  \<open>bss\<close>, the answer is the request with the value of the object behind it. The length member of the answer is that of
  the request, 0: the answer is the packed message with the value only when the value is empty.
\<close>

lemma ipc_sdo_read_answer:
  assumes "resp_ok st" and "SDOclient st = Some c" and "length header = ZMQ_HEADER_LEN"
    and "upload_opens (env_stack env) node_id index sub False c c1" and "uploads (env_stack env) (fetch (env_stack env)) 0 c1 bss c'"
    and "\<And>n. realloc_ok (env_memory env) n" and "length bss \<le> env_rounds env" and "length (concat bss) \<le> IPC_MSG_MAX_LEN - 7"
  shows "(\<exists>st'. ipc_respond_process env (Some header) (Some []) (Some (ipc_bytes (Msg_sdo IPC_MSG_ID_SDO_READ node_id index sub []))) fs st
      = Ret (Some (header, ipc_bytes (Msg_sdo IPC_MSG_ID_SDO_READ node_id index sub []) @ concat bss), fs, st') \<and> SDOclient st' = Some c')
    \<and> (ipc_bytes (Msg_sdo IPC_MSG_ID_SDO_READ node_id index sub []) @ concat bss
      = ipc_bytes (Msg_sdo IPC_MSG_ID_SDO_READ node_id index sub (concat bss)) \<longleftrightarrow> 256 dvd length (concat bss))"
proof -
  define d where "d = concat bss"
  define m where "m = ipc_bytes (Msg_sdo IPC_MSG_ID_SDO_READ node_id index sub [])"
  define buf where "buf = m @ drop 7 (resp_in st)"
  note f = sdo_message_fields(1-3) [OF m_def] sdo_message_fields(4-7) [OF m_def, of "drop 7 (resp_in st)", folded buf_def]
  have buf: "poke (resp_in st) 0 m = Ret buf" "take 7 buf = m" "length buf = IPC_MSG_MAX_LEN"
    using assms(1) f(1) by (simp_all add: resp_ok_def buf_def ipc_lens)
  let ?st = "st\<lparr>resp_in := buf, SDOclient := Some c'\<rparr>"
  have rd: "sdo_read_dynamic (env_stack env) (env_memory env) (env_rounds env) node_id index sub None (Some 0) False c
      = Ret (0, stored d, Some (length d), c')"
    using read_dynamic_result [OF assms(4-7)] by (simp add: d_def)
  define out where "out = m @ drop 7 (resp_out st)"
  have out: "length out = IPC_MSG_MAX_LEN" using assms(1) f(1) by (simp add: out_def resp_ok_def ipc_lens)
  have echo: "echo_request ?st 7 = Ret (7, ?st\<lparr>resp_out := out\<rparr>)"
    using buf assms(1) f(1) by (simp add: echo_request_def put_out_def resp_ok_def ipc_lens out_def)
  let ?out = "m @ d @ drop (7 + length d) (resp_out st)"
  have "ipc_respond_sdo_read env 7 (st\<lparr>resp_in := buf\<rparr>) = Ret (7 + length d, ?st\<lparr>resp_out := ?out\<rparr>)"
    using assms(2,8) f buf(3) rd echo out
    by (cases "d = []") (simp_all add: ipc_respond_sdo_read_def stored_def ipc_sizes ipc_lens Let_def out_def d_def [symmetric] add.commute)
  then have "respond_dispatch env IPC_MSG_ID_SDO_READ 7 fs (st\<lparr>resp_in := buf\<rparr>) = Ret (7 + length d, fs, ?st\<lparr>resp_out := ?out\<rparr>)"
    by (simp add: respond_dispatch_def with_fs_def)
  moreover have "peek ?out 0 (7 + length d) = Ret (m @ d)" using f(1) by (simp add: peek_def)
  moreover have "field8 buf 0 = Ret IPC_MSG_VERSION" "field8 buf 1 = Ret IPC_MSG_ID_SDO_READ" using f(1-3) by (simp_all add: buf_def)
  ultimately have "ipc_respond_process env (Some header) (Some []) (Some m) fs st = Ret (Some (header, m @ d), fs, ?st\<lparr>resp_out := ?out\<rparr>)"
    using assms(3) buf(1) f(1) by (simp add: ipc_respond_process_def Let_def)
  moreover have "m @ d = ipc_bytes (Msg_sdo IPC_MSG_ID_SDO_READ node_id index sub d) \<longleftrightarrow> 256 dvd length d"
    by (simp add: m_def counted_def word_of_nat_eq_0_iff)
  ultimately show ?thesis unfolding m_def [symmetric] d_def [symmetric] by simp
qed

lemma ipc_sdo_read_answer_witness:
  "\<exists>st'. ipc_respond_process example_env (Some [1, 2, 3, 4, 5]) (Some []) (Some (ipc_bytes (Msg_sdo IPC_MSG_ID_SDO_READ 5 0x4000 1 []))) []
       example_responder
     = Ret (Some ([1, 2, 3, 4, 5], [0, 3, 5, 0, 0x40, 1, 0, 1, 2]), [], st')"
proof -
  have "le_bytes 2 0x4000 = [0, 0x40]" by (simp add: numeral_2_eq_2)
  then show ?thesis
    using ipc_sdo_read_answer [of example_responder "replay_of [[1], [2]]" "[1, 2, 3, 4, 5]" example_env 5 "0x4000" 1 "replay_of [[1], [2]]"
      "[[1], [2]]" "(replay_of [])\<lparr>fetched := 2\<rparr>" "[]"]
    by (auto simp add: resp_ok_def ipc_lens ZMQ_HEADER_LEN_def replay_simps ipc_header_def counted_def IPC_MSG_VERSION_def
        IPC_MSG_ID_SDO_READ_def)
qed

end
