(* ===== verification/Daemon.thy ===== *)
theory Daemon
  imports Extensions Ipc_Respond
begin

unbundle bit_operations_syntax

text \<open>
  Model of \<^verbatim>\<open>src/main.c\<close>: settings and command line, start of the node, callbacks of the stack, the loop that runs the stack, and the end. The results of
  the stack, of the thread library and of the network interface are parameters: lists of what the calls answer, one element for each round of a loop.
\<close>

section \<open>Settings and command line\<close>

definition DEFAULT_NODE_ID :: byte where "DEFAULT_NODE_ID = 0x7C"
definition DEFAULT_CAN_INTERFACE :: string where "DEFAULT_CAN_INTERFACE = ''can0''"

text \<open>The variables with their initial values; \<^verbatim>\<open>can_interface\<close> has 20 characters, the paths have 256.\<close>

definition start_settings :: node_settings where
  "start_settings = \<lparr>can_interface = DEFAULT_CAN_INTERFACE @ replicate 16 nul, node_id = DEFAULT_NODE_ID, network_manager = False\<rparr>"

definition start_path :: "char list" where "start_path = replicate 256 nul"

text \<open>
  The paths of the two files, and the settings: read from their file, or the file is made. The first component is the result code of reading the
  settings.
\<close>

definition main_settings :: "nat \<Rightarrow> (string \<Rightarrow> string) \<Rightarrow> fsys \<Rightarrow> node_settings \<Rightarrow> (int \<times> string \<times> node_settings \<times> fsys) outcome" where
  "main_settings uid wordexp fs st =
     bind_outcome (get_default_node_config_path uid wordexp start_path 256) (\<lambda>(_, node_path).
     bind_outcome (get_default_od_config_path uid wordexp start_path 256) (\<lambda>(_, od_path).
     if is_file fs (cstr node_path)
     then bind_outcome (node_config_load (Some (cstr node_path)) fs st) (\<lambda>(r, st1). Ret (r, cstr od_path, st1, fs))
     else Ret (- ENOENT, cstr od_path, st, snd (make_node_config (Some (cstr node_path)) fs))))"

text \<open>
  The options as \<^verbatim>\<open>getopt\<close> delivers them. The interface is copied without a terminator. Numbers go through \<^verbatim>\<open>strtol\<close>, the one of the
  node with base 16, the priority with the base its prefix tells.
\<close>

datatype option_arg = Opt_h | Opt_i string | Opt_m | Opt_n string | Opt_p string | Opt_v | Opt_other

record options =
  opt_settings :: node_settings
  rtPriority :: int
  opt_logger :: logger

definition auto_base :: "string \<Rightarrow> nat" where
  "auto_base s =
     (let t = snd (skip_sign (dropWhile isspace_c s)) in
      if skip_0x 16 t \<noteq> t then 16 else if t \<noteq> [] \<and> hd t = CHR ''0'' then 8 else 10)"

definition main_option :: "nat \<Rightarrow> option_arg \<Rightarrow> options \<Rightarrow> (int + options) outcome" where
  "main_option w opt st = (case opt of
       Opt_h \<Rightarrow> Ret (Inl EXIT_SUCCESS)
     | Opt_i arg \<Rightarrow>
         bind_outcome (strncpy (can_interface (opt_settings st)) arg (length arg)) (\<lambda>ci.
         Ret (Inr (st\<lparr>opt_settings := (opt_settings st)\<lparr>can_interface := ci\<rparr>\<rparr>)))
     | Opt_m \<Rightarrow> Ret (Inr (st\<lparr>opt_settings := (opt_settings st)\<lparr>network_manager := True\<rparr>\<rparr>))
     | Opt_n arg \<Rightarrow> Ret (Inr (st\<lparr>opt_settings := (opt_settings st)\<lparr>node_id := of_int (fst (strtol w arg 16))\<rparr>\<rparr>))
     | Opt_p arg \<Rightarrow> Ret (Inr (st\<lparr>rtPriority := to_int (fst (strtol w arg (auto_base arg)))\<rparr>))
     | Opt_v \<Rightarrow> Ret (Inr (st\<lparr>opt_logger := log_level_set LOG_DEBUG (opt_logger st)\<rparr>))
     | Opt_other \<Rightarrow> Ret (Inl EXIT_FAILURE))"

fun main_options :: "nat \<Rightarrow> option_arg list \<Rightarrow> options \<Rightarrow> (int + options) outcome" where
  "main_options w [] st = Ret (Inr st)"
| "main_options w (opt # opts) st =
     bind_outcome (main_option w opt st) (\<lambda>r. case r of Inl code \<Rightarrow> Ret (Inl code) | Inr st1 \<Rightarrow> main_options w opts st1)"

text \<open>The limits are those of \<^verbatim>\<open>sched_get_priority_min\<close> and \<^verbatim>\<open>sched_get_priority_max\<close>.\<close>

definition priority_ok :: "int \<Rightarrow> int \<Rightarrow> int \<Rightarrow> bool" where
  "priority_ok pmin pmax p \<longleftrightarrow> \<not> (p \<noteq> -1 \<and> (p < pmin \<or> p > pmax))"

text \<open>The loop that waits for the interface: the answers of \<^verbatim>\<open>if_nametoindex\<close>. \<open>None\<close> means that it still waits; the flag says whether the interface was missing at first.\<close>

fun wait_interface :: "bool \<Rightarrow> nat list \<Rightarrow> (nat \<times> bool) option" where
  "wait_interface missed [] = None"
| "wait_interface missed (i # answers) = (if i = 0 then wait_interface True answers else Some (i, missed))"

section \<open>The object dictionary of the node\<close>

text \<open>
  \<open>OD\<close> is the built-in dictionary, \<open>internal\<close> its memory with the mark at its end. The result is the dictionary in use, whether it was loaded, and the
  configurations of the stack for it and for the built-in one; \<open>junk\<close> is what these two hold before.
\<close>

definition main_od ::
  "'x ld_env_scheme \<Rightarrow> (od_t \<Rightarrow> u16 \<Rightarrow> nat option) \<Rightarrow> u32_access \<Rightarrow> od_entry list \<Rightarrow> od_t \<Rightarrow> tmp_data \<Rightarrow> stack_config \<Rightarrow> fsys \<Rightarrow> string \<Rightarrow> node_settings \<Rightarrow>
   (od_t option \<times> bool \<times> stack_config option \<times> stack_config option) outcome" where
  "main_od env OD_find acc OD internal data junk fs od_path st =
     bind_outcome (if od_path \<noteq> [] then od_config_load env OD data (Some od_path) fs (\<not> network_manager st) else Ret (-1, None, [])) (\<lambda>(r, loaded, _).
     let loaded_od_conf = (0 \<le> r \<and> loaded \<noteq> None);
         od = (case loaded of None \<Rightarrow> Some internal | Some d \<Rightarrow> Some d)
     in bind_outcome (fix_cob_ids acc od (node_id st)) (\<lambda>od1.
        bind_outcome (fill_config OD_find od1 (Some junk)) (\<lambda>(_, config).
        bind_outcome (fill_config OD_find (if loaded = None then od1 else Some internal) (Some junk)) (\<lambda>(_, base_config).
        Ret (od1, loaded_od_conf, config, base_config)))))"

section \<open>File caches\<close>

definition CACHE_BASE_ROOT_PATH :: string where "CACHE_BASE_ROOT_PATH = ''/var/cache/oresat''"
definition CACHE_BASE_HOME_PATH :: string where "CACHE_BASE_HOME_PATH = ''~/.cache/oresat''"
definition FREAD_CACHE_DIR :: string where "FREAD_CACHE_DIR = ''fread''"
definition FWRITE_CACHE_DIR :: string where "FWRITE_CACHE_DIR = ''fwrite''"

definition cache_path :: "nat \<Rightarrow> (string \<Rightarrow> string) \<Rightarrow> string \<Rightarrow> string outcome" where
  "cache_path uid wordexp dir =
     (if uid = 0 then Ret (CACHE_BASE_ROOT_PATH @ ''/'' @ dir)
      else let s = wordexp CACHE_BASE_HOME_PATH @ ''/'' @ dir in if length s + 1 \<le> 256 then Ret s else Fault Out_of_bounds)"

text \<open>The paths of the caches are logged without a test that the caches could be made.\<close>

definition main_caches :: "bool \<Rightarrow> nat \<Rightarrow> (string \<Rightarrow> string) \<Rightarrow> fsys \<Rightarrow> (fcache \<times> fcache \<times> fsys) outcome" where
  "main_caches mem uid wordexp fs =
     bind_outcome (cache_path uid wordexp FREAD_CACHE_DIR) (\<lambda>fread_path.
     bind_outcome (fcache_init mem fs (Some fread_path)) (\<lambda>(fread_cache, fs1).
     bind_outcome (cache_path uid wordexp FWRITE_CACHE_DIR) (\<lambda>fwrite_path.
     bind_outcome (fcache_init mem fs1 (Some fwrite_path)) (\<lambda>(fwrite_cache, fs2).
     case (fread_cache, fwrite_cache) of (Some rd, Some wr) \<Rightarrow> Ret (rd, wr, fs2) | _ \<Rightarrow> Fault Null_pointer))))"

section \<open>Callbacks\<close>

datatype nmt_state = CO_NMT_INITIALIZING | CO_NMT_PRE_OPERATIONAL | CO_NMT_OPERATIONAL | CO_NMT_STOPPED | CO_NMT_other byte

definition NmtState2Str :: "nmt_state \<Rightarrow> string" where
  "NmtState2Str state = (case state of
       CO_NMT_INITIALIZING \<Rightarrow> ''initializing''
     | CO_NMT_PRE_OPERATIONAL \<Rightarrow> ''pre-operational''
     | CO_NMT_OPERATIONAL \<Rightarrow> ''operational''
     | CO_NMT_STOPPED \<Rightarrow> ''stopped''
     | CO_NMT_other _ \<Rightarrow> ''unknown'')"

text \<open>
  The texts that the stack's formats make of the arguments are parameters, as is the number of a state.
\<close>

definition EmergencyRxCallback :: "(u16 \<Rightarrow> string) \<Rightarrow> byte \<Rightarrow> u16 \<Rightarrow> u16 \<Rightarrow> u32 \<Rightarrow> logger \<times> broadcaster \<Rightarrow> logger \<times> broadcaster" where
  "EmergencyRxCallback text nid ident errorCode infoCode s =
     (let nodeIdRx = (if ident \<noteq> 0 then ident AND 0x7F else ucast nid) in
      (log_printf LOG_NOTICE (text nodeIdRx) (fst s), ipc_broadcast_emcy (ucast nodeIdRx) errorCode infoCode (snd s)))"

definition NmtChangedCallback :: "(string \<Rightarrow> string) \<Rightarrow> nmt_state \<Rightarrow> logger \<Rightarrow> logger" where
  "NmtChangedCallback text state l = log_printf LOG_NOTICE (text (NmtState2Str state)) l"

definition HeartbeatNmtChangedCallback ::
  "(string \<Rightarrow> string) \<Rightarrow> (nmt_state \<Rightarrow> byte) \<Rightarrow> byte \<Rightarrow> nmt_state \<Rightarrow> logger \<times> broadcaster \<Rightarrow> logger \<times> broadcaster" where
  "HeartbeatNmtChangedCallback text code nodeId state s =
     (log_printf LOG_NOTICE (text (NmtState2Str state)) (fst s), ipc_broadcast_hb nodeId (code state) (snd s))"

section \<open>Running the stack\<close>

datatype reset_cmd = CO_RESET_NOT | CO_RESET_COMM | CO_RESET_APP | CO_RESET_QUIT

datatype thread = rt_thread | ipc_responder_thread | ipc_consumer_thread | ipc_broadcaster_thread

text \<open>
  What the calls of one turn of the inner loop answer: the command of the stack, whether \<^verbatim>\<open>CO_endProgram\<close> was set meanwhile by the signal handler or another thread,
  the clock, and the files under \<^verbatim>\<open>/sys\<close>.
\<close>

record tick =
  tick_reset :: reset_cmd
  tick_end :: bool
  tick_time :: timespec
  tick_carrier :: "string \<Rightarrow> char list option"

text \<open>The same for one round of the outer loop, with the turns of the inner one. A flag is true when the call succeeds.\<close>

record round_env =
  CANinit_ok :: bool
  CANopenInit_ok :: bool
  create_ok :: "thread \<Rightarrow> bool"
  setschedparam_ok :: bool
  CANopenInitPDO_ok :: bool
  end_meanwhile :: bool
  ticks :: "tick list"

record main_state =
  programExit :: int
  CO_endProgram :: bool
  firstRun :: bool
  reset :: reset_cmd
  threads :: "thread list"
  last_check :: u32
  publisher :: broadcaster
  checks :: "u32 list"

definition main_start :: "broadcaster \<Rightarrow> main_state" where
  "main_start b = \<lparr>programExit = EXIT_SUCCESS, CO_endProgram = False, firstRun = True, reset = CO_RESET_NOT, threads = [], last_check = 0,
     publisher = b, checks = []\<rparr>"

definition BUS_CHECK_INTERVAL_S :: u32 where "BUS_CHECK_INTERVAL_S = 5"

text \<open>One turn of the inner loop; \<open>checks\<close> records the times at which the state of the bus was published.\<close>

definition main_tick :: "string option \<Rightarrow> tick \<Rightarrow> main_state \<Rightarrow> main_state outcome" where
  "main_tick ifName t st =
     (let st1 = st\<lparr>reset := tick_reset t, CO_endProgram := CO_endProgram st \<or> tick_end t\<rparr>;
          uptime_s = get_uptime_s (tick_time t)
      in if uptime_s > last_check st1 + BUS_CHECK_INTERVAL_S
         then bind_outcome (ipc_broadcast_bus_status ifName (tick_carrier t) (publisher st1)) (\<lambda>b.
              Ret (st1\<lparr>publisher := b, last_check := uptime_s, checks := checks st1 @ [uptime_s]\<rparr>))
         else Ret st1)"

text \<open>The loops return \<open>None\<close> as long as the answers do not end them.\<close>

fun main_ticks :: "string option \<Rightarrow> tick list \<Rightarrow> main_state \<Rightarrow> main_state option outcome" where
  "main_ticks ifName [] st = Ret (if reset st = CO_RESET_NOT \<and> \<not> CO_endProgram st then None else Some st)"
| "main_ticks ifName (t # ts) st =
     (if reset st = CO_RESET_NOT \<and> \<not> CO_endProgram st
      then bind_outcome (main_tick ifName t st) (main_ticks ifName ts) else Ret (Some st))"

definition main_fail :: "main_state \<Rightarrow> main_state" where
  "main_fail st = st\<lparr>programExit := EXIT_FAILURE, CO_endProgram := True\<rparr>"

text \<open>Creation of the threads in the first round; the flag is false when the round is given up.\<close>

definition create_thread :: "round_env \<Rightarrow> thread \<Rightarrow> bool \<times> main_state \<Rightarrow> bool \<times> main_state" where
  "create_thread r th x = (case x of (ok, st) \<Rightarrow>
     if \<not> ok then x
     else if create_ok r th then (True, st\<lparr>threads := threads st @ [th]\<rparr>) else (False, main_fail st))"

definition set_priority :: "int \<Rightarrow> round_env \<Rightarrow> bool \<times> main_state \<Rightarrow> bool \<times> main_state" where
  "set_priority priority r x = (case x of (ok, st) \<Rightarrow>
     if \<not> ok then x else if priority > 0 \<and> \<not> setschedparam_ok r then (False, main_fail st) else x)"

definition start_threads :: "int \<Rightarrow> round_env \<Rightarrow> main_state \<Rightarrow> bool \<times> main_state" where
  "start_threads priority r st =
     (if firstRun st
      then create_thread r ipc_broadcaster_thread (create_thread r ipc_consumer_thread (create_thread r ipc_responder_thread
             (set_priority priority r (create_thread r rt_thread (True, st\<lparr>firstRun := False\<rparr>)))))
      else (True, st))"

definition main_round :: "int \<Rightarrow> string option \<Rightarrow> round_env \<Rightarrow> main_state \<Rightarrow> main_state option outcome" where
  "main_round priority ifName r st =
     (if \<not> CANinit_ok r then Ret (Some (main_fail st))
      else if \<not> CANopenInit_ok r then Ret (Some (main_fail st))
      else case start_threads priority r st of (ok, st1) \<Rightarrow>
        if \<not> ok then Ret (Some st1)
        else if \<not> CANopenInitPDO_ok r then Ret (Some (main_fail st1))
        else main_ticks ifName (ticks r) (st1\<lparr>reset := CO_RESET_NOT, CO_endProgram := CO_endProgram st1 \<or> end_meanwhile r\<rparr>))"

definition main_running :: "main_state \<Rightarrow> bool" where
  "main_running st \<longleftrightarrow> reset st \<noteq> CO_RESET_APP \<and> reset st \<noteq> CO_RESET_QUIT \<and> \<not> CO_endProgram st"

fun main_loop :: "int \<Rightarrow> string option \<Rightarrow> round_env list \<Rightarrow> main_state \<Rightarrow> main_state option outcome" where
  "main_loop priority ifName [] st = Ret (if main_running st then None else Some st)"
| "main_loop priority ifName (r # rs) st =
     (if main_running st
      then bind_outcome (main_round priority ifName r st) (\<lambda>x. case x of None \<Rightarrow> Ret None | Some st1 \<Rightarrow> main_loop priority ifName rs st1)
      else Ret (Some st))"

section \<open>The end\<close>

text \<open>Joining a thread that was never created reads its variable before anything was stored in it.\<close>

fun join_threads :: "(thread \<Rightarrow> bool) \<Rightarrow> thread list \<Rightarrow> main_state \<Rightarrow> bool outcome" where
  "join_threads join_ok [] st = Ret True"
| "join_threads join_ok (th # ths) st =
     (if th \<notin> set (threads st) then Fault Uninitialised
      else if join_ok th then join_threads join_ok ths st else Ret False)"

text \<open>
  The exit code, and the connections that are left. \<open>x\<close> is what the extensions own, and \<open>started\<close> tells that the thread of the shell has reached its loop. The caches, the
  stack and the dictionary give their memory back.
\<close>

definition main_end ::
  "(thread \<Rightarrow> bool) \<Rightarrow> bool \<Rightarrow> od_entry list \<Rightarrow> od_t option \<Rightarrow> bool \<Rightarrow> node_settings \<Rightarrow> ipc_sockets \<Rightarrow> extensions \<Rightarrow> main_state \<Rightarrow> (int \<times> broadcaster \<times> ipc_sockets) outcome" where
  "main_end join_ok started OD od loaded_od_conf settings s x st =
     (let (b, s1) = ipc_free (publisher st) s in
      bind_outcome (join_threads join_ok [rt_thread, ipc_responder_thread, ipc_consumer_thread, ipc_broadcaster_thread] st) (\<lambda>joined.
      if \<not> joined then Ret (EXIT_FAILURE, b, s1)
      else
        bind_outcome (if network_manager settings then Ret x else extensions_free started x) (\<lambda>_.
        if loaded_od_conf \<and> od \<noteq> None
        then bind_outcome (od_config_free OD od (\<not> network_manager settings)) (\<lambda>_. Ret (programExit st, b, s1))
        else Ret (programExit st, b, s1))))"

section \<open>The threads\<close>

text \<open>
  The loops of the threads, over what their calls receive and the value of \<^verbatim>\<open>CO_endProgram\<close> at each test. The consumer ends the daemon when a message asks for it.
\<close>

fun thread_loop :: "('e \<Rightarrow> 's \<Rightarrow> 's outcome) \<Rightarrow> (bool \<times> 'e) list \<Rightarrow> 's \<Rightarrow> 's option outcome" where
  "thread_loop body [] s = Ret None"
| "thread_loop body ((ended, e) # es) s = (if ended then Ret (Some s) else bind_outcome (body e s) (thread_loop body es))"

definition broadcaster_loop :: "u16 \<Rightarrow> u16 \<Rightarrow> (bool \<times> u16 option) list \<Rightarrow> broadcaster \<Rightarrow> broadcaster option outcome" where
  "broadcaster_loop accepted disconnected = thread_loop (\<lambda>e b. Ret (ipc_broadcast_process accepted disconnected e b))"

fun consumer_loop ::
  "crc_env \<Rightarrow> kern \<Rightarrow> broadcaster \<Rightarrow> co_config \<Rightarrow> co_config \<Rightarrow> string \<Rightarrow> (bool \<times> byte list option) list \<Rightarrow> fsys \<times> consumer \<Rightarrow> (bool \<times> fsys \<times> consumer) option outcome" where
  "consumer_loop env k b base_config config od_path [] s = Ret None"
| "consumer_loop env k b base_config config od_path ((ended, msg) # ms) (fs, c) =
     (if ended then Ret (Some (False, fs, c))
      else bind_outcome (ipc_consume_process env k b base_config config od_path msg fs c) (\<lambda>(fs1, c1).
           if reset_flag c1 then Ret (Some (True, fs1, c1))
           else consumer_loop env k b base_config config od_path ms (fs1, c1)))"

definition responder_loop ::
  "'c resp_env \<Rightarrow> (bool \<times> byte list option \<times> byte list option \<times> byte list option) list \<Rightarrow> fsys \<times> 'c responder \<times> (byte list \<times> byte list) list \<Rightarrow>
   (fsys \<times> 'c responder \<times> (byte list \<times> byte list) list) option outcome" where
  "responder_loop env = thread_loop (\<lambda>(frame1, frame2, frame3) (fs, st, sent).
     bind_outcome (ipc_respond_process env frame1 frame2 frame3 fs st) (\<lambda>(answer, fs1, st1).
     Ret (fs1, st1, sent @ (case answer of None \<Rightarrow> [] | Some a \<Rightarrow> [a]))))"

section \<open>Threads and exit code\<close>

abbreviation all_threads :: "thread list" where
  "all_threads \<equiv> [rt_thread, ipc_responder_thread, ipc_consumer_thread, ipc_broadcaster_thread]"

text \<open>
  The invariant of the outer loop: before the first round no thread exists; an exit code other than success goes with the end of the program; and while
  the exit code is success, all threads exist after the first round.
\<close>

definition main_inv :: "main_state \<Rightarrow> bool" where
  "main_inv st \<longleftrightarrow> (firstRun st \<longrightarrow> threads st = []) \<and> (programExit st \<noteq> EXIT_SUCCESS \<longrightarrow> programExit st = EXIT_FAILURE \<and> CO_endProgram st)
     \<and> (\<not> firstRun st \<and> programExit st = EXIT_SUCCESS \<longrightarrow> threads st = all_threads)"

lemma main_inv_start: "main_inv (main_start b)"
  by (simp add: main_inv_def main_start_def)

lemma main_inv_fail: "main_inv st \<Longrightarrow> main_inv (main_fail st)"
  by (simp add: main_inv_def main_fail_def)

text \<open>A turn of the inner loop leaves threads, exit code and the mark of the first round alone.\<close>

lemma main_tick_frame:
  "main_tick ifName t st = Ret st' \<Longrightarrow> firstRun st' = firstRun st \<and> threads st' = threads st \<and> programExit st' = programExit st
     \<and> reset st' = tick_reset t \<and> CO_endProgram st' = (CO_endProgram st \<or> tick_end t)"
  by (auto simp: main_tick_def bind_outcome_Ret_iff Let_def split: if_splits)

lemma main_ticks_frame:
  "main_ticks ifName ts st = Ret (Some st') \<Longrightarrow> firstRun st' = firstRun st \<and> threads st' = threads st \<and> programExit st' = programExit st
     \<and> (CO_endProgram st \<longrightarrow> CO_endProgram st')"
proof (induction ts arbitrary: st)
  case (Cons t ts)
  show ?case
  proof (cases "reset st = CO_RESET_NOT \<and> \<not> CO_endProgram st")
    case True
    then obtain st1 where "main_tick ifName t st = Ret st1" "main_ticks ifName ts st1 = Ret (Some st')"
      using Cons.prems by (auto simp: bind_outcome_Ret_iff)
    then show ?thesis using Cons.IH main_tick_frame by fastforce
  qed (use Cons.prems in \<open>auto split: if_splits\<close>)
qed (auto split: if_splits)

lemma create_thread_simps [simp]:
  "create_thread r th (True, st) = (if create_ok r th then (True, st\<lparr>threads := threads st @ [th]\<rparr>) else (False, main_fail st))"
  "create_thread r th (False, st) = (False, st)"
  by (simp_all add: create_thread_def)

lemma set_priority_simps [simp]:
  "priority > 0 \<Longrightarrow> \<not> setschedparam_ok r \<Longrightarrow> set_priority priority r (True, st) = (False, main_fail st)"
  "priority > 0 \<longrightarrow> setschedparam_ok r \<Longrightarrow> set_priority priority r (True, st) = (True, st)"
  "set_priority priority r (False, st) = (False, st)"
  by (auto simp: set_priority_def)

text \<open>What the creation of the threads can fail with.\<close>

definition threads_start :: "int \<Rightarrow> round_env \<Rightarrow> bool" where
  "threads_start priority r \<longleftrightarrow> create_ok r rt_thread \<and> create_ok r ipc_responder_thread \<and> create_ok r ipc_consumer_thread
     \<and> create_ok r ipc_broadcaster_thread \<and> (0 < priority \<longrightarrow> setschedparam_ok r)"

lemma start_threads_later: "\<not> firstRun st \<Longrightarrow> start_threads priority r st = (True, st)"
  by (simp add: start_threads_def)

lemma start_threads_ok:
  "firstRun st \<Longrightarrow> threads st = [] \<Longrightarrow> threads_start priority r \<Longrightarrow>
     start_threads priority r st = (True, st\<lparr>firstRun := False, threads := all_threads\<rparr>)"
  by (simp add: start_threads_def threads_start_def)

lemma start_threads_fails:
  assumes "firstRun st" "threads st = []" "\<not> threads_start priority r"
  obtains n where "n < 4" "start_threads priority r st = (False, main_fail (st\<lparr>firstRun := False, threads := take n all_threads\<rparr>))"
proof -
  let ?st = "st\<lparr>firstRun := False\<rparr>"
  have st: "?st\<lparr>threads := []\<rparr> = ?st" using assms(2) by simp
  consider "\<not> create_ok r rt_thread" | "create_ok r rt_thread" "0 < priority" "\<not> setschedparam_ok r"
    | "create_ok r rt_thread" "0 < priority \<longrightarrow> setschedparam_ok r" "\<not> create_ok r ipc_responder_thread"
    | "create_ok r rt_thread" "0 < priority \<longrightarrow> setschedparam_ok r" "create_ok r ipc_responder_thread" "\<not> create_ok r ipc_consumer_thread"
    | "create_ok r rt_thread" "0 < priority \<longrightarrow> setschedparam_ok r" "create_ok r ipc_responder_thread" "create_ok r ipc_consumer_thread"
      "\<not> create_ok r ipc_broadcaster_thread"
    using assms(3) unfolding threads_start_def by blast
  then show ?thesis
  proof cases
    case 1 then show ?thesis using that [of 0] assms(1,2) st by (simp add: start_threads_def)
  next
    case 2 then show ?thesis using that [of 1] assms(1,2) by (simp add: start_threads_def)
  next
    case 3 then show ?thesis using that [of 1] assms(1,2) by (simp add: start_threads_def)
  next
    case 4 then show ?thesis using that [of 2] assms(1,2) by (simp add: start_threads_def)
  next
    case 5 then show ?thesis using that [of 3] assms(1,2) by (simp add: start_threads_def)
  qed
qed

lemma missing_thread: "n < 4 \<Longrightarrow> ipc_broadcaster_thread \<notin> set (take n all_threads)"
  by (auto simp: numeral_nat less_Suc_eq)

lemma main_round_inv:
  assumes "main_inv st" and "\<not> CO_endProgram st" and "main_round priority ifName r st = Ret (Some st')"
  shows "main_inv st'"
    and "programExit st' = EXIT_SUCCESS \<Longrightarrow> \<not> firstRun st'"
proof -
  have "main_inv st' \<and> (programExit st' = EXIT_SUCCESS \<longrightarrow> \<not> firstRun st')"
  proof (cases "CANinit_ok r \<and> CANopenInit_ok r")
    case False
    then have "st' = main_fail st" using assms(3) by (cases "CANinit_ok r") (simp_all add: main_round_def)
    then show ?thesis using main_inv_fail [OF assms(1)] by (simp add: main_fail_def)
  next
    case init: True
    show ?thesis
    proof (cases "firstRun st \<and> \<not> threads_start priority r")
      case True
      then obtain n where "start_threads priority r st = (False, main_fail (st\<lparr>firstRun := False, threads := take n all_threads\<rparr>))"
        using start_threads_fails [of st priority r] assms(1) by (auto simp: main_inv_def)
      then show ?thesis using assms(3) init by (auto simp: main_round_def main_inv_def main_fail_def)
    next
      case False
      then obtain st1 where st1: "start_threads priority r st = (True, st1)" "\<not> firstRun st1" "threads st1 = all_threads" "programExit st1 = EXIT_SUCCESS"
        "\<not> CO_endProgram st1"
        using start_threads_ok [of st priority r] start_threads_later [of st priority r] assms(1,2)
        by (cases "firstRun st") (auto simp: main_inv_def)
      show ?thesis
      proof (cases "CANopenInitPDO_ok r")
        case True
        then have "main_ticks ifName (ticks r) (st1\<lparr>reset := CO_RESET_NOT, CO_endProgram := CO_endProgram st1 \<or> end_meanwhile r\<rparr>) = Ret (Some st')"
          using assms(3) init st1(1) by (simp add: main_round_def)
        from main_ticks_frame [OF this] show ?thesis using st1 by (auto simp: main_inv_def)
      next
        case False
        then have "st' = main_fail st1" using assms(3) init st1(1) by (simp add: main_round_def)
        then show ?thesis using st1 by (simp add: main_inv_def main_fail_def)
      qed
    qed
  qed
  then show "main_inv st'" and "programExit st' = EXIT_SUCCESS \<Longrightarrow> \<not> firstRun st'" by blast+
qed

lemma main_loop_inv:
  "main_inv st \<Longrightarrow> (programExit st = EXIT_SUCCESS \<Longrightarrow> CO_endProgram st \<or> reset st \<noteq> CO_RESET_NOT \<Longrightarrow> \<not> firstRun st) \<Longrightarrow>
     main_loop priority ifName rs st = Ret (Some st') \<Longrightarrow> main_inv st' \<and> \<not> main_running st' \<and> (programExit st' = EXIT_SUCCESS \<longrightarrow> \<not> firstRun st')"
proof (induction rs arbitrary: st)
  case Nil
  then show ?case by (auto simp: main_running_def split: if_splits)
next
  case (Cons r rs)
  show ?case
  proof (cases "main_running st")
    case True
    then obtain st1 where st1: "main_round priority ifName r st = Ret (Some st1)" "main_loop priority ifName rs st1 = Ret (Some st')"
      using Cons.prems(3) by (auto simp: bind_outcome_Ret_iff split: option.splits)
    have "\<not> CO_endProgram st" using True by (simp add: main_running_def)
    from main_round_inv [OF Cons.prems(1) this st1(1)] Cons.IH [OF _ _ st1(2)] show ?thesis by blast
  next
    case False
    then show ?thesis using Cons.prems by (auto simp: main_running_def)
  qed
qed

lemma join_all:
  "threads st = all_threads \<Longrightarrow> \<forall>th. join_ok th \<Longrightarrow> join_threads join_ok all_threads st = Ret True"
  by simp

lemma join_missing:
  "ipc_broadcaster_thread \<notin> set (threads st) \<Longrightarrow> \<forall>th. join_ok th \<Longrightarrow> join_threads join_ok all_threads st = Fault Uninitialised"
  by simp


text \<open>
  C36: a start that fails. When the bus or the stack cannot be initialised in the first round, or a thread cannot be started, the daemon leaves its loop with the
  exit code of failure, but then joins threads that were never started: it reads variables nobody has written instead of reporting the failure.
\<close>

theorem main_failed_start_joins_nothing:
  assumes "\<not> CANinit_ok r \<or> \<not> CANopenInit_ok r \<or> \<not> threads_start priority r" and "\<forall>th. join_ok th"
  shows "\<exists>st. main_loop priority ifName (r # rs) (main_start b) = Ret (Some st) \<and> programExit st = EXIT_FAILURE
    \<and> main_end join_ok started OD od loaded settings s x st = Fault Uninitialised"
proof -
  let ?st = "main_start b"
  have start: "main_running ?st" "firstRun ?st" "threads ?st = []" by (simp_all add: main_running_def main_start_def)
  have "\<exists>st. main_round priority ifName r ?st = Ret (Some (main_fail st)) \<and> ipc_broadcaster_thread \<notin> set (threads st)"
  proof (cases "CANinit_ok r \<and> CANopenInit_ok r")
    case True
    then obtain n where "n < 4" "start_threads priority r ?st = (False, main_fail (?st\<lparr>firstRun := False, threads := take n all_threads\<rparr>))"
      using start_threads_fails [OF start(2,3), of priority r] assms(1) by blast
    then show ?thesis using True missing_thread
      by (intro exI [of _ "?st\<lparr>firstRun := False, threads := take n all_threads\<rparr>"]) (simp add: main_round_def)
  next
    case False
    then show ?thesis using start(3) by (intro exI [of _ ?st]) (cases "CANinit_ok r"; simp add: main_round_def)
  qed
  then obtain st where st: "main_round priority ifName r ?st = Ret (Some (main_fail st))" "ipc_broadcaster_thread \<notin> set (threads st)" by blast
  have "main_loop priority ifName rs (main_fail st) = Ret (Some (main_fail st))"
    by (cases rs) (simp_all add: main_running_def main_fail_def)
  then have "main_loop priority ifName (r # rs) ?st = Ret (Some (main_fail st))" using start(1) st(1) by simp
  moreover have "main_end join_ok started OD od loaded settings s x (main_fail st) = Fault Uninitialised"
    using join_missing [of "main_fail st" join_ok] st(2) assms(2) by (simp add: main_end_def main_fail_def split: prod.split)
  ultimately show ?thesis by (intro exI [of _ "main_fail st"]) (simp add: main_fail_def)
qed

section \<open>The loop ends\<close>

text \<open>Turns that leave the inner loop running, the turn that ends it, and rounds that end: by a failure, by the end of the program, or by a command of the stack.\<close>

definition going :: "tick \<Rightarrow> bool" where
  "going t \<longleftrightarrow> tick_reset t = CO_RESET_NOT \<and> \<not> tick_end t"

definition last_tick :: "round_env \<Rightarrow> tick option" where
  "last_tick r = (case dropWhile going (ticks r) of [] \<Rightarrow> None | t # _ \<Rightarrow> Some t)"

definition round_fails :: "round_env \<Rightarrow> bool" where
  "round_fails r \<longleftrightarrow> \<not> CANinit_ok r \<or> \<not> CANopenInit_ok r \<or> \<not> CANopenInitPDO_ok r"

definition round_returns :: "round_env \<Rightarrow> bool" where
  "round_returns r \<longleftrightarrow> round_fails r \<or> end_meanwhile r \<or> last_tick r \<noteq> None"

definition round_stops :: "round_env \<Rightarrow> bool" where
  "round_stops r \<longleftrightarrow> round_fails r \<or> end_meanwhile r
     \<or> (case last_tick r of None \<Rightarrow> False | Some t \<Rightarrow> tick_end t \<or> tick_reset t = CO_RESET_APP \<or> tick_reset t = CO_RESET_QUIT)"

definition bus_readable :: "string option \<Rightarrow> tick \<Rightarrow> bool" where
  "bus_readable ifName t \<longleftrightarrow> (\<forall>b. \<exists>b'. ipc_broadcast_bus_status ifName (tick_carrier t) b = Ret b')"

lemma main_tick_returns: "bus_readable ifName t \<Longrightarrow> \<exists>st'. main_tick ifName t st = Ret st'"
  unfolding bus_readable_def main_tick_def Let_def by (metis bind_outcome.simps(2))

lemma main_ticks_stop:
  "\<forall>t \<in> set ts. bus_readable ifName t \<Longrightarrow> reset st = CO_RESET_NOT \<Longrightarrow> \<not> CO_endProgram st \<Longrightarrow> dropWhile going ts = t # ts' \<Longrightarrow>
     \<exists>st'. main_ticks ifName ts st = Ret (Some st') \<and> reset st' = tick_reset t \<and> CO_endProgram st' = tick_end t"
proof (induction ts arbitrary: st)
  case (Cons u ts)
  obtain st1 where st1: "main_tick ifName u st = Ret st1" using main_tick_returns Cons.prems(1) by fastforce
  then have f: "reset st1 = tick_reset u" "CO_endProgram st1 = tick_end u" using main_tick_frame Cons.prems(3) by auto
  show ?case
  proof (cases "going u")
    case True
    then show ?thesis using Cons st1 f by (simp add: going_def)
  next
    case False
    then have "main_ticks ifName ts st1 = Ret (Some st1)" using f by (cases ts) (auto simp: going_def)
    then show ?thesis using Cons.prems False st1 f by simp
  qed
qed simp

lemma main_round_returns:
  assumes "main_inv st" and "main_running st" and "round_returns r" and "\<forall>t \<in> set (ticks r). bus_readable ifName t"
  shows "\<exists>st'. main_round priority ifName r st = Ret (Some st') \<and> (round_stops r \<longrightarrow> \<not> main_running st')"
proof -
  have e: "\<not> CO_endProgram st" using assms(2) by (simp add: main_running_def)
  have fail: "\<not> main_running (main_fail x)" for x by (simp add: main_running_def main_fail_def)
  consider "\<not> (CANinit_ok r \<and> CANopenInit_ok r)" | "CANinit_ok r" "CANopenInit_ok r" "firstRun st" "\<not> threads_start priority r"
    | "CANinit_ok r" "CANopenInit_ok r" "firstRun st \<longrightarrow> threads_start priority r" by blast
  then show ?thesis
  proof cases
    case 1
    then show ?thesis using fail by (cases "CANinit_ok r") (simp_all add: main_round_def)
  next
    case 2
    obtain n where "start_threads priority r st = (False, main_fail (st\<lparr>firstRun := False, threads := take n all_threads\<rparr>))"
      using start_threads_fails [OF 2(3) _ 2(4)] assms(1) 2(3) by (auto simp: main_inv_def)
    then show ?thesis using 2 fail by (simp add: main_round_def)
  next
    case 3
    then obtain st1 where st1: "start_threads priority r st = (True, st1)" "\<not> CO_endProgram st1"
      using start_threads_ok [of st priority r] start_threads_later [of st priority r] assms(1) e by (cases "firstRun st") (auto simp: main_inv_def)
    define st2 where "st2 = st1\<lparr>reset := CO_RESET_NOT, CO_endProgram := CO_endProgram st1 \<or> end_meanwhile r\<rparr>"
    have st2: "reset st2 = CO_RESET_NOT" "CO_endProgram st2 = end_meanwhile r" using st1(2) by (simp_all add: st2_def)
    have round: "main_round priority ifName r st = (if CANopenInitPDO_ok r then main_ticks ifName (ticks r) st2 else Ret (Some (main_fail st1)))"
      using 3 st1(1) by (simp add: main_round_def st2_def)
    show ?thesis
    proof (cases "CANopenInitPDO_ok r \<and> \<not> end_meanwhile r")
      case True
      then obtain t ts' where t: "dropWhile going (ticks r) = t # ts'"
        using assms(3) 3 by (cases "dropWhile going (ticks r)") (auto simp: round_returns_def round_fails_def last_tick_def)
      obtain st' where "main_ticks ifName (ticks r) st2 = Ret (Some st')" "reset st' = tick_reset t" "CO_endProgram st' = tick_end t"
        using main_ticks_stop [OF assms(4) st2(1) _ t] st2(2) True by auto
      then show ?thesis using True 3 t by (auto simp: round round_stops_def round_fails_def last_tick_def main_running_def)
    next
      case False
      moreover have "main_ticks ifName (ticks r) st2 = Ret (Some st2)" if "end_meanwhile r" using that st2 by (cases "ticks r") auto
      ultimately show ?thesis using fail st2(2) by (cases "CANopenInitPDO_ok r") (simp_all add: round main_running_def)
    qed
  qed
qed

text \<open>
  C15: the daemon comes to an end. When every round of the outer loop is left, by a failure, a signal or a command of the stack, and the last one for good, the loop ends, however
  often communication was reset before.
\<close>

theorem main_loop_ends:
  assumes "rs \<noteq> []" and "\<forall>r \<in> set rs. round_returns r \<and> (\<forall>t \<in> set (ticks r). bus_readable ifName t)" and "round_stops (last rs)"
  shows "\<exists>st. main_loop priority ifName rs (main_start b) = Ret (Some st)"
proof -
  have "main_inv st \<Longrightarrow> \<exists>st'. main_loop priority ifName rs st = Ret (Some st')" for st using assms
  proof (induction rs arbitrary: st)
    case (Cons r rs)
    show ?case
    proof (cases "main_running st")
      case True
      then obtain st1 where st1: "main_round priority ifName r st = Ret (Some st1)" "round_stops r \<longrightarrow> \<not> main_running st1"
        using main_round_returns [OF Cons.prems(1)] Cons.prems(3) by (metis list.set_intros(1))
      have "\<exists>st'. main_loop priority ifName rs st1 = Ret (Some st')"
      proof (cases "rs = []")
        case True
        then show ?thesis using st1(2) Cons.prems(4) by simp
      next
        case False
        have "\<not> CO_endProgram st" using True by (simp add: main_running_def)
        from main_round_inv(1) [OF Cons.prems(1) this st1(1)] show ?thesis using Cons.IH Cons.prems False by simp
      qed
      then show ?thesis using True st1(1) by simp
    qed simp
  qed simp
  then show ?thesis using main_inv_start by blast
qed

section \<open>The state of the bus\<close>

text \<open>Times at which the clock does not overflow the sum, and the invariant: the times of publishing lie apart, and the last one is remembered.\<close>

definition clock_in_range :: "tick \<Rightarrow> bool" where
  "clock_in_range t \<longleftrightarrow> unat (get_uptime_s (tick_time t)) + 5 < 2 ^ 32"

definition checks_inv :: "main_state \<Rightarrow> bool" where
  "checks_inv st \<longleftrightarrow> successively (\<lambda>a b. unat a + 5 < unat b) (checks st) \<and> (checks st \<noteq> [] \<longrightarrow> last (checks st) = last_check st)
     \<and> unat (last_check st) + 5 < 2 ^ 32"

lemma main_tick_checks:
  assumes "main_tick ifName t st = Ret st'" and "checks_inv st" and "clock_in_range t"
  shows "checks_inv st'"
proof (cases "get_uptime_s (tick_time t) > last_check st + BUS_CHECK_INTERVAL_S")
  case True
  let ?u = "get_uptime_s (tick_time t)"
  have st': "checks st' = checks st @ [?u]" "last_check st' = ?u" using assms(1) True by (auto simp: main_tick_def bind_outcome_Ret_iff Let_def)
  have "unat (last_check st + BUS_CHECK_INTERVAL_S) = unat (last_check st) + 5"
    using assms(2) by (simp add: checks_inv_def BUS_CHECK_INTERVAL_S_def unat_word_ariths)
  then have "unat (last_check st) + 5 < unat ?u" using True by (simp add: word_less_nat_alt)
  then show ?thesis using assms(2,3) st' by (auto simp: checks_inv_def clock_in_range_def successively_append_iff)
next
  case False
  then show ?thesis using assms by (auto simp: main_tick_def checks_inv_def Let_def)
qed

lemma main_ticks_checks:
  "main_ticks ifName ts st = Ret (Some st') \<Longrightarrow> checks_inv st \<Longrightarrow> \<forall>t \<in> set ts. clock_in_range t \<Longrightarrow> checks_inv st'"
proof (induction ts arbitrary: st)
  case (Cons t ts)
  show ?case
  proof (cases "reset st = CO_RESET_NOT \<and> \<not> CO_endProgram st")
    case True
    then obtain st1 where "main_tick ifName t st = Ret st1" "main_ticks ifName ts st1 = Ret (Some st')"
      using Cons.prems(1) by (auto simp: bind_outcome_Ret_iff)
    then show ?thesis using Cons.IH Cons.prems(2,3) main_tick_checks by simp
  qed (use Cons.prems in \<open>auto split: if_splits\<close>)
qed (auto split: if_splits)

lemma checks_frame [simp]:
  "checks_inv (st\<lparr>firstRun := a\<rparr>) = checks_inv st" "checks_inv (st\<lparr>threads := ths\<rparr>) = checks_inv st"
  "checks_inv (st\<lparr>reset := c, CO_endProgram := e\<rparr>) = checks_inv st" "checks_inv (main_fail st) = checks_inv st"
  by (simp_all add: checks_inv_def main_fail_def)

lemma create_thread_checks: "checks_inv (snd (create_thread r th x)) = checks_inv (snd x)"
  by (cases x) (simp add: create_thread_def)

lemma set_priority_checks: "checks_inv (snd (set_priority priority r x)) = checks_inv (snd x)"
  by (cases x) (simp add: set_priority_def)

lemma start_threads_checks: "checks_inv (snd (start_threads priority r st)) = checks_inv st"
  by (simp add: start_threads_def create_thread_checks set_priority_checks)

lemma main_round_checks:
  assumes "main_round priority ifName r st = Ret (Some st')" and "checks_inv st" and "\<forall>t \<in> set (ticks r). clock_in_range t"
  shows "checks_inv st'"
proof -
  obtain ok st1 where st1: "start_threads priority r st = (ok, st1)" by (cases "start_threads priority r st")
  then have c: "checks_inv st1" using start_threads_checks [of priority r st] assms(2) by simp
  show ?thesis
    using assms c main_ticks_checks [of ifName "ticks r" "st1\<lparr>reset := CO_RESET_NOT, CO_endProgram := CO_endProgram st1 \<or> end_meanwhile r\<rparr>" st']
    by (cases "CANinit_ok r"; cases "CANopenInit_ok r"; cases ok; cases "CANopenInitPDO_ok r") (auto simp: main_round_def st1)
qed

text \<open>
  C31: the applications are not flooded. Over the whole life of the daemon, through every reset of communication, the state of the bus is published at most once in
  five seconds, as long as the clock does not reach the end of its range.
\<close>

theorem bus_status_rate:
  assumes "main_loop priority ifName rs (main_start b) = Ret (Some st)" and "\<forall>r \<in> set rs. \<forall>t \<in> set (ticks r). clock_in_range t"
  shows "successively (\<lambda>a b. unat a + 5 < unat b) (checks st)"
proof -
  have "main_loop priority ifName rs s = Ret (Some st) \<Longrightarrow> checks_inv s \<Longrightarrow> checks_inv st" for s using assms(2)
  proof (induction rs arbitrary: s)
    case (Cons r rs)
    show ?case
    proof (cases "main_running s")
      case True
      then obtain s1 where "main_round priority ifName r s = Ret (Some s1)" "main_loop priority ifName rs s1 = Ret (Some st)"
        using Cons.prems(1) by (auto simp: bind_outcome_Ret_iff split: option.splits)
      then show ?thesis using Cons.IH Cons.prems(2,3) main_round_checks by simp
    qed (use Cons.prems in simp)
  qed (auto split: if_splits)
  moreover have "checks_inv (main_start b)" by (simp add: checks_inv_def main_start_def)
  ultimately show ?thesis using assms(1) by (simp add: checks_inv_def)
qed

section \<open>Settings\<close>

lemma copy_path_fits:
  assumes "length s + 1 < 256" and "nul \<notin> set s"
  obtains p where "copy_path s start_path 256 = Ret (0, p)" "cstr p = s"
proof -
  have "cstr (s @ nul # drop (length s + 1) start_path) = s" by (rule cstr_terminated) (simp add: is_cstr_def assms(2))
  then show ?thesis using that [of "s @ nul # drop (length s + 1) start_path"] assms(1) by (simp add: copy_path_def poke_def start_path_def)
qed

lemma root_paths:
  obtains p q where "get_default_node_config_path 0 wordexp start_path 256 = Ret (0, p)" "cstr p = NODE_CONFIG_ROOT_PATH"
    "get_default_od_config_path 0 wordexp start_path 256 = Ret (0, q)" "cstr q = OD_CONFIG_ROOT_PATH"
proof -
  obtain p where "copy_path NODE_CONFIG_ROOT_PATH start_path 256 = Ret (0, p)" "cstr p = NODE_CONFIG_ROOT_PATH"
    by (rule copy_path_fits [of NODE_CONFIG_ROOT_PATH]) (simp_all add: NODE_CONFIG_ROOT_PATH_def nul_def)
  moreover obtain q where "copy_path OD_CONFIG_ROOT_PATH start_path 256 = Ret (0, q)" "cstr q = OD_CONFIG_ROOT_PATH"
    by (rule copy_path_fits [of OD_CONFIG_ROOT_PATH]) (simp_all add: OD_CONFIG_ROOT_PATH_def nul_def)
  ultimately show ?thesis using that by (simp add: get_default_node_config_path_def get_default_od_config_path_def)
qed

text \<open>
  C39: the first and the second start of the service. Without a file of settings the daemon runs with its defaults, an ordinary node, and writes the file.
  The next start reads that file and the node is the network manager, so that it takes the dictionary of the table alone and has no file
  caches, although nobody has changed anything.
\<close>

theorem second_start_is_network_manager:
  assumes "\<not> is_file fs NODE_CONFIG_ROOT_PATH" and "fs_create fs NODE_CONFIG_ROOT_PATH = Inr fs1"
  shows "\<exists>fs'. main_settings 0 wordexp fs start_settings = Ret (- ENOENT, OD_CONFIG_ROOT_PATH, start_settings, fs')
    \<and> main_settings 0 wordexp fs' start_settings = Ret (0, OD_CONFIG_ROOT_PATH, start_settings\<lparr>network_manager := True\<rparr>, fs')"
proof -
  obtain p q where paths: "get_default_node_config_path 0 wordexp start_path 256 = Ret (0, p)" "cstr p = NODE_CONFIG_ROOT_PATH"
    "get_default_od_config_path 0 wordexp start_path 256 = Ret (0, q)" "cstr q = OD_CONFIG_ROOT_PATH" by (rule root_paths)
  define fs' where "fs' = snd (make_node_config (Some NODE_CONFIG_ROOT_PATH) fs)"
  have make: "make_node_config (Some NODE_CONFIG_ROOT_PATH) fs = (0, fs')" using assms(2) by (simp add: fs'_def make_node_config_def)
  have "main_settings 0 wordexp fs start_settings = Ret (- ENOENT, OD_CONFIG_ROOT_PATH, start_settings, fs')"
    using assms(1) paths by (simp add: main_settings_def fs'_def)
  moreover have load: "node_config_load (Some NODE_CONFIG_ROOT_PATH) fs' start_settings = Ret (0, start_settings\<lparr>network_manager := True\<rparr>)"
    using default_node_config_read [OF make, of start_settings] by (simp add: start_settings_def DEFAULT_NODE_ID_def)
  have "is_file fs' NODE_CONFIG_ROOT_PATH"
    using load by (auto simp: node_config_load_def is_file_def errno_defs split: sum.splits)
  then have "main_settings 0 wordexp fs' start_settings = Ret (0, OD_CONFIG_ROOT_PATH, start_settings\<lparr>network_manager := True\<rparr>, fs')"
    using load paths by (simp add: main_settings_def)
  ultimately show ?thesis by blast
qed

text \<open>
  The option of the interface. The name is copied over the one that is set without its end, so that a shorter name keeps the end of the longer one before it; a name
  that is longer than the array is written behind it.
\<close>

lemma interface_option_keeps_tail:
  assumes "nul \<notin> set arg" and "nul \<in> set (can_interface (opt_settings st))"
  shows "if length arg \<le> length (can_interface (opt_settings st))
     then \<exists>st'. main_options w [Opt_i arg] st = Ret (Inr st') \<and> node_id (opt_settings st') = node_id (opt_settings st)
        \<and> (length arg \<le> length (cstr (can_interface (opt_settings st))) \<longrightarrow>
            cstr (can_interface (opt_settings st')) = arg @ drop (length arg) (cstr (can_interface (opt_settings st))))
     else main_options w [Opt_i arg] st = Fault Out_of_bounds"
proof -
  let ?ci = "can_interface (opt_settings st)"
  have copy: "strncpy ?ci arg (length arg) = (if length arg \<le> length ?ci then Ret (arg @ drop (length arg) ?ci) else Fault Out_of_bounds)"
    by (simp add: strncpy_def poke_def)
  have "cstr (arg @ drop (length arg) ?ci) = arg @ drop (length arg) (cstr ?ci)" if short: "length arg \<le> length (cstr ?ci)"
  proof -
    obtain rest where ci: "?ci = cstr ?ci @ nul # rest" using assms(2) cstr_split by blast
    then have "drop (length arg) ?ci = drop (length arg) (cstr ?ci) @ nul # rest" using short by (metis drop_append diff_is_0_eq' drop0)
    moreover have "is_cstr (arg @ drop (length arg) (cstr ?ci))"
      using assms(1) is_cstr_cstr [of ?ci] by (auto simp: is_cstr_def dest: in_set_dropD)
    ultimately show ?thesis using cstr_terminated [of "arg @ drop (length arg) (cstr ?ci)" rest] by simp
  qed
  then show ?thesis using copy by (simp add: main_option_def)
qed

section \<open>A new table\<close>

lemma message_path_front:
  assumes "length p \<le> 255" and "is_cstr p" and "length rest = 997 - length p"
  obtains buf where "message_path (ipc_header i @ counted (bytes_of_string p) @ rest) 2 = Ret (p, buf)"
proof -
  let ?buf = "ipc_header i @ counted (bytes_of_string p) @ rest"
  have len: "unat (of_nat (length p) :: byte) = length p" using assms(1) by (simp add: unat_of_nat take_bit_nat_eq_self)
  have f: "field8 ?buf 2 = Ret (of_nat (length p))" by (simp add: field8_def peek_def ipc_header_def counted_def)
  obtain r0 rest' where rest: "rest = r0 # rest'" using assms(1,3) by (cases rest) auto
  have "poke ?buf (2 + 1 + length p) [0] = Ret (ipc_header i @ counted (bytes_of_string p) @ 0 # rest')"
    by (simp add: poke_def ipc_header_def counted_def rest numeral_nat)
  moreover have "string_of_bytes (drop 3 (ipc_header i @ counted (bytes_of_string p) @ 0 # rest')) = p @ nul # string_of_bytes rest'"
  proof -
    have "char_of_byte 0 = nul" by (simp add: char_of_byte_def nul_def char_of_def)
    moreover have "string_of_bytes (xs @ 0 # ys) = string_of_bytes xs @ char_of_byte 0 # string_of_bytes ys" for xs ys by (simp add: string_of_bytes_def)
    ultimately show ?thesis by (simp add: ipc_header_def counted_def)
  qed
  ultimately show ?thesis
    using that f len assms(2) by (simp add: message_path_def read_cstr_def)
qed

lemma consume_config:
  assumes "length (buffer_in c) = IPC_MSG_MAX_LEN" and "length p \<le> 255" and "is_cstr p"
    and "fs_node fs p = Some (File d)"
    and "check_file_crc32_match (crc32_fn env) k (crc_malloc_ok env) (crc_errno env) fs (Some od_path) (Some p) = Ret False"
    and "mkdir_path fs (Some (dirname od_path)) = (0, fs)"
    and "copy_file k fs p od_path = Ret (0, fs')"
  shows "\<exists>c'. ipc_consume_process env k b base cfg od_path (Some (ipc_bytes (Msg_file IPC_MSG_ID_CONFIG (bytes_of_string p)))) fs c = Ret (fs', c') \<and> reset_flag c'"
proof -
  let ?m = "ipc_bytes (Msg_file IPC_MSG_ID_CONFIG (bytes_of_string p))"
  let ?buf = "?m @ drop (length ?m) (buffer_in c)"
  have m: "?m = ipc_header IPC_MSG_ID_CONFIG @ counted (bytes_of_string p)" "length ?m = 3 + length p" by simp_all
  obtain buf where path: "message_path ?buf 2 = Ret (p, buf)"
    using message_path_front [OF assms(2,3), of "drop (length ?m) (buffer_in c)" IPC_MSG_ID_CONFIG] assms(1,2) by (auto simp: ipc_lens)
  have readable: "is_file fs p" using assms(4) by (simp add: is_file_def fs_open_rd_def)
  let ?c = "c\<lparr>buffer_in := ?buf\<rparr>"
  have cfg: "ipc_consume_config env k (length ?m) od_path fs ?c = Ret (fs', ?c\<lparr>buffer_in := buf, reset_flag := True\<rparr>)"
    unfolding ipc_consume_config_def using path readable assms(2,5-7) m(2) by (simp add: ipc_lens ipc_sizes Let_def del: ipc_bytes.simps)
  have ids: "IPC_MSG_ID_CONFIG \<noteq> IPC_MSG_ID_EMCY_SEND" "IPC_MSG_ID_CONFIG \<noteq> IPC_MSG_ID_TPDO_SEND" "IPC_MSG_ID_CONFIG \<noteq> IPC_MSG_ID_OD_WRITE"
    "IPC_MSG_ID_CONFIG \<noteq> IPC_MSG_ID_SYNC_SEND" by (simp_all add: ipc_ids)
  have bytes: "?m ! 0 = IPC_MSG_VERSION" "?m ! 1 = IPC_MSG_ID_CONFIG" by (simp_all add: ipc_header_def)
  have recv: "poke (buffer_in c) 0 (take IPC_MSG_MAX_LEN ?m) = Ret ?buf"
    by (rule consumer_receives [OF assms(1)]) (use assms(2) m(2) in \<open>simp add: ipc_lens\<close>)
  have "ipc_consume_process env k b base cfg od_path (Some ?m) fs c = ipc_consume_config env k (length ?m) od_path fs ?c"
    unfolding ipc_consume_process_def using recv bytes ids m(2) by (simp add: ipc_sizes Let_def del: ipc_bytes.simps)
  then show ?thesis using cfg by (intro exI [of _ "?c\<lparr>buffer_in := buf, reset_flag := True\<rparr>"]) simp
qed


section \<open>Examples\<close>

text \<open>A round in which everything succeeds and the stack asks for a command in the second turn, and the connections of a running daemon.\<close>

definition ex_tick :: "reset_cmd \<Rightarrow> nat \<Rightarrow> tick" where
  "ex_tick r s = \<lparr>tick_reset = r, tick_end = False, tick_time = \<lparr>tv_sec = s, tv_nsec = 0\<rparr>, tick_carrier = (\<lambda>_. None)\<rparr>"

definition ex_round :: "reset_cmd \<Rightarrow> round_env" where
  "ex_round r = \<lparr>CANinit_ok = True, CANopenInit_ok = True, create_ok = (\<lambda>_. True), setschedparam_ok = True, CANopenInitPDO_ok = True, end_meanwhile = False,
     ticks = [ex_tick CO_RESET_NOT 10, ex_tick r 20]\<rparr>"

definition ex_publisher :: broadcaster where
  "ex_publisher = \<lparr>bc_open = True, clients = 0, published = []\<rparr>"

definition ex_sockets :: ipc_sockets where
  "ex_sockets = \<lparr>sock_context = True, sock_consumer = True, sock_responder = True\<rparr>"

definition ex_extensions :: extensions where
  "ex_extensions = (no_extensions start_logger)\<lparr>os_thread := True\<rparr>"

definition ex_end :: main_state where
  "ex_end = (main_start ex_publisher)\<lparr>reset := CO_RESET_QUIT, firstRun := False, threads := all_threads, last_check := 20, checks := [10, 20]\<rparr>"

lemma ex_loop: "main_loop (-1) None [ex_round CO_RESET_QUIT] (main_start ex_publisher) = Ret (Some ex_end)"
proof -
  have "start_threads (-1) (ex_round CO_RESET_QUIT) (main_start ex_publisher) = (True, (main_start ex_publisher)\<lparr>firstRun := False, threads := all_threads\<rparr>)"
    by (rule start_threads_ok) (simp_all add: main_start_def threads_start_def ex_round_def)
  then show ?thesis
    by (simp add: main_round_def main_running_def main_start_def main_tick_def get_uptime_s_def ipc_broadcast_bus_status_def BUS_CHECK_INTERVAL_S_def
        ex_round_def ex_tick_def ex_publisher_def ex_end_def)
qed


theorem main_failed_start_joins_nothing_witness:
  "\<exists>st. main_loop (-1) None [(ex_round CO_RESET_QUIT)\<lparr>CANinit_ok := False\<rparr>] (main_start ex_publisher) = Ret (Some st) \<and> programExit st = EXIT_FAILURE
    \<and> main_end (\<lambda>_. True) True [] None False start_settings ex_sockets ex_extensions st = Fault Uninitialised"
  using main_failed_start_joins_nothing [of "(ex_round CO_RESET_QUIT)\<lparr>CANinit_ok := False\<rparr>" "-1" "\<lambda>_. True" None "[]" ex_publisher True "[]" None False
      start_settings ex_sockets ex_extensions] by simp

theorem main_loop_ends_witness:
  "\<exists>st. main_loop (-1) None [ex_round CO_RESET_COMM, ex_round CO_RESET_APP] (main_start ex_publisher) = Ret (Some st)"
proof -
  have "round_returns (ex_round CO_RESET_COMM)" "round_returns (ex_round CO_RESET_APP)" "round_stops (ex_round CO_RESET_APP)"
    by (simp_all add: round_returns_def round_stops_def last_tick_def going_def ex_round_def ex_tick_def)
  moreover have "\<forall>t \<in> set (ticks (ex_round r)). bus_readable None t" for r
    by (simp add: ex_round_def ex_tick_def bus_readable_def ipc_broadcast_bus_status_def)
  ultimately show ?thesis by (intro main_loop_ends) simp_all
qed

theorem bus_status_rate_witness: "successively (\<lambda>a b. unat a + 5 < unat b) (checks ex_end)"
  using bus_status_rate [OF ex_loop] by (simp add: ex_round_def ex_tick_def clock_in_range_def get_uptime_s_def)

definition ex_etc :: fsys where
  "ex_etc = [([], Dir), ([''etc''], Dir), ([''etc'', ''oresat''], Dir)]"

theorem second_start_is_network_manager_witness:
  "\<exists>fs'. main_settings 0 (\<lambda>s. s) ex_etc start_settings = Ret (- ENOENT, OD_CONFIG_ROOT_PATH, start_settings, fs')
    \<and> main_settings 0 (\<lambda>s. s) fs' start_settings = Ret (0, OD_CONFIG_ROOT_PATH, start_settings\<lparr>network_manager := True\<rparr>, fs')"
proof -
  have r: "resolve NODE_CONFIG_ROOT_PATH = [''etc'', ''oresat'', ''node.conf'']" by (simp add: NODE_CONFIG_ROOT_PATH_def resolve_def path_push_def)
  have "\<not> is_file ex_etc NODE_CONFIG_ROOT_PATH" by (simp add: is_file_def fs_open_rd_def fs_node_def r ex_etc_def)
  moreover have "fs_create ex_etc NODE_CONFIG_ROOT_PATH = Inr (AList.update (resolve NODE_CONFIG_ROOT_PATH) (File []) ex_etc)"
    by (rule fs_create_ok) (simp_all add: r ex_etc_def, simp_all add: NODE_CONFIG_ROOT_PATH_def)
  ultimately show ?thesis by (rule second_start_is_network_manager)
qed

lemma interface_option_keeps_tail_witness:
  "\<exists>st'. main_options 64 [Opt_i ''v1''] \<lparr>opt_settings = start_settings, rtPriority = -1, opt_logger = start_logger\<rparr> = Ret (Inr st')
    \<and> cstr (can_interface (opt_settings st')) = ''v1n0''"
proof -
  let ?st = "\<lparr>opt_settings = start_settings, rtPriority = -1, opt_logger = start_logger\<rparr>"
  have c: "cstr (can_interface start_settings) = ''can0''"
    using cstr_terminated [of "''can0''" "replicate 15 nul"] by (simp add: start_settings_def DEFAULT_CAN_INTERFACE_def nul_def numeral_nat)
  have "nul \<in> set (can_interface start_settings)" "length (can_interface start_settings) = 20"
    by (simp_all add: start_settings_def DEFAULT_CAN_INTERFACE_def)
  then show ?thesis using interface_option_keeps_tail [of "''v1''" ?st 64] c by (auto simp: nul_def)
qed

definition ex_table :: fsys where
  "ex_table = [([], Dir), ([''f''], File (bytes_of_string (table_text ''h'' [ex_var])))]"


end
