(* ===== verification/Daemon_Start.thy ===== *)
theory Daemon_Start
  imports Daemon
begin

text \<open>
  The part of \<^verbatim>\<open>main\<close> between the dictionary and the loop: the stack is created, the signals are caught, the caches and the extensions are set up and the connections are opened.
\<close>

section \<open>The stack and the signals\<close>

text \<open>What the calls answer, and the texts of the stack's messages. \<open>Some\<close> exit code leaves the program.\<close>

record stack_env =
  co_new_ok :: "stack_config option \<Rightarrow> bool"
  co_heap_used :: int
  sigint_ok :: bool
  sigterm_ok :: bool
  epoll_main_err :: int
  epoll_rt_err :: int
  stack_text :: "string \<Rightarrow> int option \<Rightarrow> string"

definition main_stack :: "stack_env \<Rightarrow> stack_config option \<Rightarrow> logger \<Rightarrow> int option \<times> logger" where
  "main_stack env config l =
     (let fail = (\<lambda>text n. (Some EXIT_FAILURE, log_printf LOG_CRIT (stack_text env text n) l)) in
      if \<not> co_new_ok env config then fail ''CO_new(), heapMemoryUsed='' (Some (co_heap_used env))
      else if \<not> sigint_ok env then fail ''signal(SIGINT, sigHandler)'' None
      else if \<not> sigterm_ok env then fail ''signal(SIGTERM, sigHandler)'' None
      else if epoll_main_err env \<noteq> 0 then fail ''CO_epoll_create(main), err='' (Some (epoll_main_err env))
      else if epoll_rt_err env \<noteq> 0 then fail ''CO_epoll_create(RT), err='' (Some (epoll_rt_err env))
      else (None, l))"

text \<open>The program goes on exactly when every call succeeded, and says why when it does not, whatever the level in force allows.\<close>

lemma main_stack_leaves:
  "fst (main_stack env config l) = (if co_new_ok env config \<and> sigint_ok env \<and> sigterm_ok env \<and> epoll_main_err env = 0 \<and> epoll_rt_err env = 0
     then None else Some EXIT_FAILURE)"
  "LOG_CRIT \<le> log_level l \<Longrightarrow> (printed (snd (main_stack env config l)) = printed l) = (fst (main_stack env config l) = None)"
  by (simp_all add: main_stack_def Let_def log_printf_def log_level_get_def)

section \<open>Caches, extensions and connections\<close>

text \<open>
  The network manager has neither caches nor extensions. The connections come last: opening them hooks the publisher into the objects of the card, over whatever handlers they have.
\<close>

definition main_services ::
  "ext_env \<Rightarrow> (od_t \<Rightarrow> u16 \<Rightarrow> nat option) \<Rightarrow> bool \<Rightarrow> nat \<Rightarrow> (string \<Rightarrow> string) \<Rightarrow> bool \<Rightarrow> node_settings \<Rightarrow> od_t \<Rightarrow> fsys \<Rightarrow> logger \<Rightarrow> broadcaster \<Rightarrow> ipc_sockets \<Rightarrow>
   (od_t option \<times> extensions \<times> fsys \<times> broadcaster \<times> ipc_sockets) outcome" where
  "main_services env OD_find mem uid wordexp zmq_ctx_new settings od fs l b s =
     bind_outcome
       (if network_manager settings then Ret (od, no_extensions l, fs)
        else
          bind_outcome (main_caches mem uid wordexp fs) (\<lambda>(fread_cache, fwrite_cache, fs1).
          bind_outcome (main_extensions env OD_find (Some fread_cache) (Some fwrite_cache) od (no_extensions l)) (\<lambda>(od1, x).
          Ret (od1, x, fs1))))
       (\<lambda>(od1, x, fs1).
          bind_outcome (ipc_init zmq_ctx_new (Some od1) b s) (\<lambda>(od2, b1, s1). Ret (od2, x, fs1, b1, s1)))"

text \<open>The real-time thread runs the stack; what a round does to it is the stack's.\<close>

definition rt_loop :: "('e \<Rightarrow> 'c \<Rightarrow> 'c) \<Rightarrow> (bool \<times> 'e) list \<Rightarrow> 'c \<Rightarrow> 'c option outcome" where
  "rt_loop processRT = thread_loop (\<lambda>e c. Ret (processRT e c))"

section \<open>Which object is served by whom\<close>

text \<open>The handlers after the start: objects of the card are published, the six objects of the extensions have their own, all others are as before.\<close>

definition served :: "ext_env \<Rightarrow> bool \<Rightarrow> od_entry \<Rightarrow> extension" where
  "served env manager e =
     (if 0x4000 \<le> entry_index e then Ext_hook
      else if manager then entry_extension e
      else case map_of (extension_table env) (entry_index e) of None \<Rightarrow> entry_extension e | Some ext \<Rightarrow> ext)"

lemma handler_map_at:
  assumes "by_index es" and "i < length es"
  shows "handler_map es (entry_index (es ! i)) = Some (entry_extension (es ! i))"
proof -
  have "(entry_index (es ! i), entry_extension (es ! i)) \<in> set (map (\<lambda>e. (entry_index e, entry_extension e)) es)" using assms(2) by force
  moreover have "distinct (map fst (map (\<lambda>e. (entry_index e, entry_extension e)) es))"
    using by_index_distinct_indexes [OF assms(1)] by (simp add: comp_def)
  ultimately show ?thesis unfolding handler_map_def by (rule map_of_is_SomeI [rotated])
qed

lemma bare_index: "entry_index (bare e) = entry_index e"
  by (simp add: bare_def)

lemma bare_eqD: "bare a = bare b \<Longrightarrow> a = b\<lparr>entry_extension := entry_extension a\<rparr>"
  by (cases a, cases b) (simp add: bare_def)

lemma same_objects_entry:
  assumes "by_index es" and "by_index es'" and "same_objects es es'" and "i < length es"
    and "handler_map es' (entry_index (es ! i)) = Some ext"
  shows "es' ! i = (es ! i)\<lparr>entry_extension := ext\<rparr>"
proof -
  have m: "map bare es' = map bare es" using assms(3) by (simp add: same_objects_def)
  then have len: "length es' = length es" by (rule map_eq_imp_length_eq)
  have "map bare es' ! i = map bare es ! i" unfolding m ..
  then have b: "bare (es' ! i) = bare (es ! i)" using assms(4) len by simp
  have "entry_index (es' ! i) = entry_index (es ! i)" using arg_cong [OF b, of entry_index] by (simp only: bare_index)
  then have ext: "entry_extension (es' ! i) = ext" using handler_map_at [OF assms(2), of i] assms(4,5) len by simp
  show ?thesis using bare_eqD [OF b] unfolding ext .
qed

lemma extended_entries:
  assumes "by_index es" and "by_index es'" and "same_objects es es'" and "distinct (map fst (extension_table env))"
    and "handler_map es' = register_all (extension_table env) (handler_map es)"
  shows "es' = map (\<lambda>e. e\<lparr>entry_extension := case map_of (extension_table env) (entry_index e) of None \<Rightarrow> entry_extension e | Some ext \<Rightarrow> ext\<rparr>) es"
    (is "es' = map ?f es")
proof (rule nth_equalityI)
  show len: "length es' = length (map ?f es)" using assms(3) by (metis same_objects_def length_map)
  fix i
  assume "i < length es'"
  then have i: "i < length es" using len by simp
  let ?ix = "entry_index (es ! i)"
  have "handler_map es ?ix = Some (entry_extension (es ! i))" using assms(1) i by (rule handler_map_at)
  then have "handler_map es' ?ix = Some (case map_of (extension_table env) ?ix of None \<Rightarrow> entry_extension (es ! i) | Some ext \<Rightarrow> ext)"
    using register_all_at [OF assms(4), of "handler_map es" ?ix] assms(5) by (auto simp: dom_def split: option.split)
  from same_objects_entry [OF assms(1,2,3) i this] show "es' ! i = map ?f es ! i" using i by simp
qed

text \<open>
  C29: who serves which object. After the start every object is what it was before, but for its handlers: an object of the card, from index 0x4000 on, is published; for a node that is
  not the network manager, each of the six objects of the extensions has the handlers of its extension; every other object keeps the ones it had. The records of both
  caches, and the thread of the shell, exist.
\<close>

theorem main_services_installs_handlers:
  assumes search: "search_ok OD_find" "dictionary d es rest"
    and table: "distinct (map fst (extension_table env))" "\<forall>ix \<in> fst ` set (extension_table env). ix < 0x4000 \<and> ix \<in> entry_index ` set es"
    and env: "fread_malloc_ok env" "fwrite_malloc_ok env" "os_create_ok env"
    and caches: "network_manager settings \<or> main_caches mem uid wordexp fs = Ret (rd, wr, fs1)"
  shows "\<exists>d' es' x fs' b' s'. main_services env OD_find mem uid wordexp True settings d fs l b s = Ret (Some d', x, fs', b', s')
    \<and> dictionary d' es' rest \<and> es' = map (\<lambda>e. e\<lparr>entry_extension := served env (network_manager settings) e\<rparr>) es
    \<and> (\<not> network_manager settings \<longrightarrow> os_thread x \<and> fread_object x = Some (file_transfer_init (fresh_char env) (Some rd))
         \<and> fwrite_object x = Some (file_transfer_init (fresh_char env) (Some wr)))
    \<and> bc_open b' \<and> sock_consumer s' \<and> sock_responder s'"
proof -
  let ?mgr = "network_manager settings"
  let ?first = "if ?mgr then Ret (d, no_extensions l, fs)
     else bind_outcome (main_caches mem uid wordexp fs) (\<lambda>(fread_cache, fwrite_cache, fs1).
          bind_outcome (main_extensions env OD_find (Some fread_cache) (Some fwrite_cache) d (no_extensions l)) (\<lambda>(od1, x). Ret (od1, x, fs1)))"
  have "\<exists>d1 es1 x fs'. ?first = Ret (d1, x, fs') \<and> dictionary d1 es1 rest
    \<and> es1 = (if ?mgr then es else map (\<lambda>e. e\<lparr>entry_extension := case map_of (extension_table env) (entry_index e) of None \<Rightarrow> entry_extension e | Some ext \<Rightarrow> ext\<rparr>) es)
    \<and> (\<not> ?mgr \<longrightarrow> os_thread x \<and> fread_object x = Some (file_transfer_init (fresh_char env) (Some rd))
         \<and> fwrite_object x = Some (file_transfer_init (fresh_char env) (Some wr)))"
  proof (cases ?mgr)
    case True
    then show ?thesis using search(2) by auto
  next
    case False
    have ix: "INDEX_OS_COMMAND env \<in> entry_index ` set es" "INDEX_FREAD_CACHE env \<in> entry_index ` set es" "INDEX_FWRITE_CACHE env \<in> entry_index ` set es"
      using table(2) by (simp_all add: extension_table_def)
    obtain d1 es1 x where 1: "main_extensions env OD_find (Some rd) (Some wr) d (no_extensions l) = Ret (d1, x)" "dictionary d1 es1 rest" "same_objects es es1"
      "handler_map es1 = register_all (extension_table env) (handler_map es)"
      "os_thread x" "fread_object x = Some (file_transfer_init (fresh_char env) (Some rd))"
      "fwrite_object x = Some (file_transfer_init (fresh_char env) (Some wr))"
      by (rule main_extensions_registers [OF search, of env "Some rd" "Some wr" "no_extensions l"]) (use ix env in blast)
    have "by_index es" "by_index es1" using search(2) 1(2) by (simp_all add: dictionary_def)
    from extended_entries [OF this 1(3) table(1) 1(4)] show ?thesis using False caches 1 by auto
  qed
  then obtain d1 es1 x fs' where 1: "?first = Ret (d1, x, fs')" "dictionary d1 es1 rest"
    "es1 = (if ?mgr then es else map (\<lambda>e. e\<lparr>entry_extension := case map_of (extension_table env) (entry_index e) of None \<Rightarrow> entry_extension e | Some ext \<Rightarrow> ext\<rparr>) es)"
    "\<not> ?mgr \<longrightarrow> os_thread x \<and> fread_object x = Some (file_transfer_init (fresh_char env) (Some rd))
         \<and> fwrite_object x = Some (file_transfer_init (fresh_char env) (Some wr))" by blast
  obtain es2 b' s' where 2: "ipc_init True (Some d1) b s = Ret (Some (d1\<lparr>od_list := Some (map Some es2 @ rest)\<rparr>), b', s')" "length es2 = length es1"
    "\<forall>i < length es1. es2 ! i = (if 0x4000 \<le> entry_index (es1 ! i) then (es1 ! i)\<lparr>entry_extension := Ext_hook\<rparr> else es1 ! i)"
    "bc_open b'" "sock_consumer s'" "sock_responder s'"
    using ipc_init_hooks_card_objects [of d1 es1 rest b s] 1(2) by (auto simp: dictionary_def)
  have es2: "es2 = map (\<lambda>e. e\<lparr>entry_extension := served env ?mgr e\<rparr>) es"
    using 2(2,3) by (intro nth_equalityI) (auto simp: 1(3) served_def)
  have "same_objects es1 es2" by (simp add: same_objects_def es2 1(3) bare_def comp_def)
  then have "dictionary (d1\<lparr>od_list := Some (map Some es2 @ rest)\<rparr>) es2 rest" by (rule same_objects_dictionary [OF 1(2)])
  then show ?thesis using 1(1,4) 2 es2 by (auto simp: main_services_def)
qed

section \<open>An instance\<close>

text \<open>A search over the entries the size tells of.\<close>

definition sized_find :: "od_t \<Rightarrow> u16 \<Rightarrow> nat option" where
  "sized_find d ix = (case od_list d of
       None \<Rightarrow> None
     | Some cells \<Rightarrow> find (\<lambda>i. case cells ! i of Some e \<Rightarrow> entry_index e = ix | None \<Rightarrow> False) [0..<min (unat (od_size d)) (length cells)])"

lemma sized_find_ok: "search_ok sized_find"
proof -
  have "case sized_find d ix of None \<Rightarrow> ix \<notin> entry_index ` set es | Some i \<Rightarrow> i < length es \<and> entry_index (es ! i) = ix"
    if d: "dictionary d es rest" for d es rest ix
  proof -
    let ?P = "\<lambda>i. case (map Some es @ rest) ! i of Some e \<Rightarrow> entry_index e = ix | None \<Rightarrow> False"
    have f: "sized_find d ix = find ?P [0..<length es]" using d by (simp add: sized_find_def dictionary_def)
    have P: "?P i \<longleftrightarrow> entry_index (es ! i) = ix" if "i < length es" for i using that by (simp add: nth_append)
    show ?thesis
    proof (cases "sized_find d ix")
      case None
      then have "\<forall>i < length es. entry_index (es ! i) \<noteq> ix" using P f by (auto simp: find_None_iff)
      then show ?thesis using None by (auto simp: in_set_conv_nth)
    next
      case (Some i)
      then obtain k where "k < length es" "?P k" "i = k" using f by (auto simp: find_Some_iff)
      then show ?thesis using Some P by simp
    qed
  qed
  then show ?thesis by (auto simp: search_ok_def finds_def)
qed

definition ex_ext_env :: ext_env where
  "ex_ext_env = \<lparr>INDEX_OS_COMMAND = 0x1023, INDEX_SCET = 0x2010, INDEX_UTC = 0x2011, INDEX_FREAD_CACHE = 0x3002, INDEX_FWRITE_CACHE = 0x3003,
     INDEX_SYSTEM = 0x3004, fread_malloc_ok = True, fwrite_malloc_ok = True, os_create_ok = True, fresh_char = nul\<rparr>"

definition ex_home :: fsys where
  "ex_home = [([], Dir), ([''c''], Dir), ([''c'', ''fread''], Dir), ([''c'', ''fwrite''], Dir)]"

abbreviation ex_cache :: "string \<Rightarrow> fcache" where
  "ex_cache dir \<equiv> \<lparr>dir_path = ''/c/'' @ dir, mutex_locked = False\<rparr>"

lemma ex_caches: "main_caches True 1000 (\<lambda>_. ''/c'') ex_home = Ret (ex_cache ''fread'', ex_cache ''fwrite'', ex_home)"
proof -
  have r: "resolve ''/c'' = [''c'']" "resolve ''/c/fread'' = [''c'', ''fread'']" "resolve ''/c/fwrite'' = [''c'', ''fwrite'']"
    by (simp_all add: resolve_def path_push_def)
  have "mkdir_path ex_home (Some ''/c/fread'') = (0, ex_home)" "mkdir_path ex_home (Some ''/c/fwrite'') = (0, ex_home)"
    by (simp_all add: mkdir_path_def PATH_MAX_def upt_rec is_dir_def fs_node_def r ex_home_def)
  then have "fcache_init True ex_home (Some ''/c/fread'') = Ret (Some (ex_cache ''fread''), ex_home)"
    "fcache_init True ex_home (Some ''/c/fwrite'') = Ret (Some (ex_cache ''fwrite''), ex_home)"
    by (simp_all add: fcache_init_def PATH_MAX_def)
  then show ?thesis by (simp add: main_caches_def cache_path_def FREAD_CACHE_DIR_def FWRITE_CACHE_DIR_def)
qed

definition ex_entries :: "od_entry list" where
  "ex_entries = map (\<lambda>ix. ex_pdo ix []) [0x1023, 0x1400, 0x2010, 0x2011, 0x3002, 0x3003, 0x3004, 0x4000]"

lemma ex_dictionary: "dictionary (ex_od ex_entries) ex_entries []"
  by (simp add: dictionary_def ex_od_def ex_entries_def ex_pdo_def)

theorem main_services_installs_handlers_witness:
  "\<exists>d' x fs' b' s'. main_services ex_ext_env sized_find True 1000 (\<lambda>_. ''/c'') True start_settings (ex_od ex_entries) ex_home start_logger ex_publisher ex_sockets
       = Ret (Some d', x, fs', b', s')
     \<and> od_list d' = Some (map (\<lambda>(ix, ext). Some ((ex_pdo ix [])\<lparr>entry_extension := ext\<rparr>))
         [(0x1023, Ext_os_command), (0x1400, Ext_null), (0x2010, Ext_scet), (0x2011, Ext_utc), (0x3002, Ext_fread), (0x3003, Ext_fwrite),
          (0x3004, Ext_system), (0x4000, Ext_hook)])
     \<and> os_thread x"
proof -
  have t: "distinct (map fst (extension_table ex_ext_env))"
    "\<forall>ix \<in> fst ` set (extension_table ex_ext_env). ix < 0x4000 \<and> ix \<in> entry_index ` set ex_entries"
    "fread_malloc_ok ex_ext_env" "fwrite_malloc_ok ex_ext_env" "os_create_ok ex_ext_env"
    by (simp_all add: extension_table_def ex_ext_env_def ex_entries_def ex_pdo_def)
  have m: "\<not> network_manager start_settings" by (simp add: start_settings_def)
  obtain d' es' x fs' b' s' where "main_services ex_ext_env sized_find True 1000 (\<lambda>_. ''/c'') True start_settings (ex_od ex_entries) ex_home start_logger ex_publisher ex_sockets
      = Ret (Some d', x, fs', b', s')" "dictionary d' es' []"
    "es' = map (\<lambda>e. e\<lparr>entry_extension := served ex_ext_env (network_manager start_settings) e\<rparr>) ex_entries" "os_thread x"
    using main_services_installs_handlers [OF sized_find_ok ex_dictionary t disjI2 [OF ex_caches], where ?l = start_logger and ?b = ex_publisher and ?s = ex_sockets] m
    by blast
  then show ?thesis
    using m by (auto simp: dictionary_def ex_entries_def served_def extension_table_def ex_ext_env_def ex_pdo_def)
qed

end
