(* ===== verification/Cand_Tools.thy ===== *)
theory Cand_Tools
  imports Node_Config Logger Sdo_Client
begin

text \<open>
  Model of the command line tools under \<^verbatim>\<open>src/scripts\<close>: the small CANopen node they share, with its thread, and the six programs that read and
  write objects of another node through the SDO client. A program is a function of its arguments to its exit code, the text it prints,
  the files and the state of the SDO client.
\<close>

section \<open>Numbers on the command line and in the output\<close>

text \<open>\<^verbatim>\<open>parse_int_arg\<close>: return value, and the variable behind the pointer. \<open>bits\<close> is the width of \<^verbatim>\<open>long\<close>.\<close>

definition parse_int_arg :: "nat \<Rightarrow> string \<Rightarrow> int \<Rightarrow> int \<times> int" where
  "parse_int_arg bits arg value =
     (let (tmp, consumed) = (if prefix ''0x'' arg then strtoul bits arg 16 else strtoul bits arg 10) in
      if consumed = 0 then (-1, value) else (0, to_int (int tmp)))"

text \<open>The conversions of \<^verbatim>\<open>printf\<close> that are used. \<^verbatim>\<open>%f\<close> prints six decimals of the exact value, rounded to even.\<close>

definition format_d :: "int \<Rightarrow> string" where
  "format_d v = (if v < 0 then CHR ''-'' # num_string 10 (nat (- v)) else num_string 10 (nat v))"

definition format_X :: "nat \<Rightarrow> string" where
  "format_X n = num_string 16 n"

definition lower_hex :: "char \<Rightarrow> char" where
  "lower_hex c = (if c \<in> set ''ABCDEF'' then char_of (of_char c + 32 :: nat) else c)"

definition format_x :: "nat \<Rightarrow> string" where
  "format_x n = map lower_hex (num_string 16 n)"

definition pad_left :: "nat \<Rightarrow> string \<Rightarrow> string" where
  "pad_left w s = replicate (w - length s) (CHR ''0'') @ s"

definition round_even :: "nat \<Rightarrow> nat \<Rightarrow> nat" where
  "round_even n d =
     (let q = n div d; r = n mod d in if 2 * r < d \<or> 2 * r = d \<and> even q then q else q + 1)"

definition format_f :: "u64 \<Rightarrow> string" where
  "format_f x =
     (let n = unat x; sign = (if n div 2 ^ 63 = 1 then ''-'' else []); e = n div 2 ^ 52 mod 2 ^ 11; m = n mod 2 ^ 52 in
      if e = 2047 then sign @ (if m = 0 then ''inf'' else ''nan'')
      else
        let mant = (if e = 0 then m else m + 2 ^ 52); ex = (if e = 0 then 1 else e);
            millionths = (if 1075 \<le> ex then mant * 10 ^ 6 * 2 ^ (ex - 1075) else round_even (mant * 10 ^ 6) (2 ^ (1075 - ex)))
        in sign @ num_string 10 (millionths div 10 ^ 6) @ ''.'' @ pad_left 6 (num_string 10 (millionths mod 10 ^ 6)))"

section \<open>The node of the tools\<close>

text \<open>
  What the calls into the CANopen stack, the network interfaces and the thread library answer; the dictionary of the tools, which the build generates, and
  the texts of the stack's messages.
\<close>

datatype node_message = DBG_NO_CAN_DEVICE string | DBG_GENERAL string int | DBG_ERRNO string | DBG_CAN_OPEN string int | DBG_CAN_OPEN_INFO string

record node_env =
  if_nametoindex :: "string \<Rightarrow> nat"
  OD_find_env :: "od_t \<Rightarrow> u16 \<Rightarrow> nat option"
  OD_env :: od_t
  unset_config :: stack_config
  CO_new_ok :: "stack_config \<Rightarrow> bool"
  heapMemoryUsed :: int
  SIGINT_ok :: bool
  SIGTERM_ok :: bool
  epoll_create_err :: int
  CANinit_err :: int
  SDOclient_init_err :: int
  pthread_create_ok :: bool
  pthread_join_ok :: bool
  dbg_text :: "node_message \<Rightarrow> string"

text \<open>The calls that change the stack, in order; the messages; and whether the thread was created.\<close>

datatype stack_call = CO_new | CO_epoll_create | CO_CANsetConfigurationMode | CO_CANmodule_disable | CO_CANinit
  | CO_SDOclient_init | CO_CANsetNormalMode | CO_epoll_close | CO_delete

record client_node =
  nd_calls :: "stack_call list"
  nd_logger :: logger
  nd_thread :: bool

definition call :: "stack_call list \<Rightarrow> client_node \<Rightarrow> client_node" where
  "call cs n = n\<lparr>nd_calls := nd_calls n @ cs\<rparr>"

definition say :: "node_env \<Rightarrow> int \<Rightarrow> node_message \<Rightarrow> client_node \<Rightarrow> client_node" where
  "say env priority msg n = n\<lparr>nd_logger := log_printf priority (dbg_text env msg) (nd_logger n)\<rparr>"

definition node_start_error :: "node_env \<Rightarrow> node_message \<Rightarrow> client_node \<Rightarrow> int \<times> client_node" where
  "node_start_error env msg n = (-1, call [CO_epoll_close, CO_CANsetConfigurationMode, CO_delete] (say env LOG_CRIT msg n))"

definition sdo_client_node_start :: "node_env \<Rightarrow> string \<Rightarrow> client_node \<Rightarrow> (int \<times> client_node) outcome" where
  "sdo_client_node_start env CANdevice n0 =
     bind_outcome (fill_config (OD_find_env env) (Some (OD_env env)) (Some (unset_config env))) (\<lambda>(_, config).
     let n = n0\<lparr>nd_logger := log_level_set LOG_CRIT (nd_logger n0)\<rparr>; n1 = call [CO_new] n;
         n2 = call [CO_epoll_create] n1;
         n3 = call [CO_CANsetConfigurationMode, CO_CANmodule_disable, CO_CANinit] n2;
         n4 = call [CO_SDOclient_init] n3;
         n5 = say env LOG_INFO (DBG_CAN_OPEN_INFO ''running ...'') (call [CO_CANsetNormalMode] n4)
     in case config of
          None \<Rightarrow> Fault Null_pointer
        | Some cfg \<Rightarrow>
            Ret (if if_nametoindex env CANdevice = 0 then node_start_error env (DBG_NO_CAN_DEVICE CANdevice) n
                 else if \<not> CO_new_ok env cfg then node_start_error env (DBG_GENERAL ''CO_new(), heapMemoryUsed='' (heapMemoryUsed env)) n1
                 else if \<not> SIGINT_ok env then node_start_error env (DBG_ERRNO ''signal(SIGINT, sigHandler)'') n1
                 else if \<not> SIGTERM_ok env then node_start_error env (DBG_ERRNO ''signal(SIGTERM, sigHandler)'') n1
                 else if epoll_create_err env \<noteq> 0 then node_start_error env (DBG_GENERAL ''CO_epoll_create(main), err='' (epoll_create_err env)) n2
                 else if CANinit_err env \<noteq> 0 then node_start_error env (DBG_CAN_OPEN ''CO_CANinit()'' (CANinit_err env)) n3
                 else if SDOclient_init_err env \<noteq> 0 then node_start_error env (DBG_GENERAL ''CO_SDOclient_init(), err='' (SDOclient_init_err env)) n4
                 else (0, if pthread_create_ok env then n5\<lparr>nd_thread := True\<rparr>
                          else say env LOG_CRIT (DBG_ERRNO ''pthread_create(rt_thread)'') n5)))"

text \<open>
  The first component tells that the program is left with \<^verbatim>\<open>exit(EXIT_FAILURE)\<close>. Joining a thread that was never created is undefined.
\<close>

definition sdo_client_node_stop :: "node_env \<Rightarrow> client_node \<Rightarrow> (bool \<times> client_node) outcome" where
  "sdo_client_node_stop env n =
     (if \<not> nd_thread n then Fault Uninitialised
      else if \<not> pthread_join_ok env then Ret (True, say env LOG_CRIT (DBG_ERRNO ''pthread_join()'') n)
      else Ret (False, say env LOG_INFO (DBG_CAN_OPEN_INFO ''finished'') (call [CO_epoll_close, CO_CANsetConfigurationMode, CO_delete] n)))"

section \<open>The programs\<close>

text \<open>
  What the programs rest on: the C library, the node, the SDO client of the stack with the state \<^verbatim>\<open>CO_SDOclient_init\<close> leaves it in, and the numbers of the objects,
  which the build generates. \<open>tool_fuel\<close> bounds the rounds of a transfer and of waiting.
\<close>

record 'c tool_env =
  tool_c :: cenv
  tool_node :: node_env
  tool_sdo :: "'c sdo_stack"
  tool_mem :: memory
  tool_kern :: kern
  tool_fuel :: nat
  tool_client :: 'c
  OD_INDEX_FREAD_CACHE :: u16
  OD_INDEX_FWRITE_CACHE :: u16
  OD_INDEX_OS_COMMAND :: u16
  OD_SUBINDEX_FREAD_CACHE_FILES_JSON :: byte
  OD_SUBINDEX_FREAD_CACHE_FILE_NAME :: byte
  OD_SUBINDEX_FREAD_CACHE_FILE_DATA :: byte
  OD_SUBINDEX_OS_COMMAND_COMMAND :: byte
  OD_SUBINDEX_OS_COMMAND_STATUS :: byte
  OD_SUBINDEX_OS_COMMAND_REPLY :: byte
  OS_COMMAND_STATUS_EXECUTING :: byte
  OS_COMMAND_STATUS_NO_ERROR_REPLY :: byte
  OS_COMMAND_STATUS_ERROR_REPLY :: byte

definition fresh_node :: client_node where
  "fresh_node = \<lparr>nd_calls = [], nd_logger = start_logger, nd_thread = False\<rparr>"

definition line :: "string \<Rightarrow> string" where
  "line s = s @ [newline]"

abbreviation DTYPES :: string where
  "DTYPES \<equiv> ''dtypes: bool, int8, int16, int32, int64, uint8, uint16, uint32, uint64, float32, float64, string, bytes''"

definition bad_args :: "string \<Rightarrow> string" where
  "bad_args usage = line ''invalid number of args'' @ line [] @ usage"

text \<open>A code that is not in the table has no text: \<^verbatim>\<open>printf\<close> is given a null pointer.\<close>

definition sdo_abort_line :: "u32 \<Rightarrow> string outcome" where
  "sdo_abort_line abort_code = (case get_sdo_abort_string abort_code of
       None \<Rightarrow> Fault Null_pointer
     | Some text \<Rightarrow> Ret (line (''SDO Abort: 0x'' @ format_x (unat abort_code) @ '' - '' @ text)))"

text \<open>The end of the programs that stop the node first: the exit code and the text, unless the node leaves the program itself.\<close>

definition stop_and :: "node_env \<Rightarrow> client_node \<Rightarrow> (int \<times> string) outcome \<Rightarrow> (int \<times> string) outcome" where
  "stop_and env n rest =
     bind_outcome (sdo_client_node_stop env n) (\<lambda>(left, _). if left then Ret (EXIT_FAILURE, []) else rest)"

definition tool_abort :: "node_env \<Rightarrow> client_node \<Rightarrow> u32 \<Rightarrow> (int \<times> string) outcome" where
  "tool_abort env n abort_code = stop_and env n (bind_outcome (sdo_abort_line abort_code) (\<lambda>t. Ret (EXIT_FAILURE, t)))"

text \<open>
  \<^verbatim>\<open>sdo_read_main.c\<close>. A value is read from the front of the memory that was received, at the width of its type.
\<close>

definition load_value :: "byte list option \<Rightarrow> 'w::len word outcome" where
  "load_value data = (case data of
       None \<Rightarrow> Fault Null_pointer
     | Some d \<Rightarrow> bind_outcome (peek d 0 (LENGTH('w) div 8)) (\<lambda>bs. Ret (of_nat (le_val bs))))"

definition integer_line :: "int \<Rightarrow> nat \<Rightarrow> string" where
  "integer_line v x = line (format_d v @ '' (0x'' @ format_X x @ '')'')"

definition bytes_line :: "byte list option \<Rightarrow> nat \<Rightarrow> string outcome" where
  "bytes_line data data_size =
     bind_outcome (if data_size = 0 then Ret [] else case data of None \<Rightarrow> Fault Null_pointer | Some d \<Rightarrow> peek d 0 data_size) (\<lambda>bs.
     Ret (line (concat (map (\<lambda>b. pad_left 2 (format_X (unat b))) bs))))"

definition value_line :: "string \<Rightarrow> byte list option \<Rightarrow> string outcome" where
  "value_line dtype data =
     (let is = (\<lambda>name. strncmp_eq dtype name (length dtype)) in
      if is ''bool'' then bind_outcome (load_value data) (\<lambda>x :: byte.
        if x = 0 then Ret (line ''0'') else if x = 1 then Ret (line ''1'') else Fault Mixed_layout)
      else if is ''int8'' then bind_outcome (load_value data) (\<lambda>x :: byte. Ret (integer_line (sint x) (unat (scast x :: u32))))
      else if is ''int16'' then bind_outcome (load_value data) (\<lambda>x :: u16. Ret (integer_line (sint x) (unat (scast x :: u32))))
      else if is ''int32'' then bind_outcome (load_value data) (\<lambda>x :: u32. Ret (integer_line (sint x) (unat x)))
      else if is ''int64'' then bind_outcome (load_value data) (\<lambda>x :: u64. Ret (integer_line (sint x) (unat x)))
      else if is ''uint8'' then bind_outcome (load_value data) (\<lambda>x :: byte. Ret (integer_line (uint x) (unat x)))
      else if is ''uint16'' then bind_outcome (load_value data) (\<lambda>x :: u16. Ret (integer_line (uint x) (unat x)))
      else if is ''uint32'' then bind_outcome (load_value data) (\<lambda>x :: u32. Ret (integer_line (sint x) (unat x)))
      else if is ''uint64'' then bind_outcome (load_value data) (\<lambda>x :: u64. Ret (integer_line (sint x) (unat x)))
      else if is ''float32'' then bind_outcome (load_value data) (\<lambda>x :: u32. Ret (line (format_f (f32_to_f64 x))))
      else if is ''float64'' then bind_outcome (load_value data) (\<lambda>x :: u64. Ret (line (format_f x)))
      else if is ''string'' then
        (case data of
           None \<Rightarrow> Fault Null_pointer
         | Some d \<Rightarrow> bind_outcome (read_cstr (string_of_bytes d)) (\<lambda>s. Ret (line s)))
      else Ret [])"

definition sdo_read_usage :: "string \<Rightarrow> string" where
  "sdo_read_usage name = line (name @ '' <interface> <node-id> <index> <subindex> <dtype>'') @ line [] @ line DTYPES"

definition sdo_read_main :: "'c tool_env \<Rightarrow> string list \<Rightarrow> ((int \<times> string) \<times> 'c) outcome" where
  "sdo_read_main env argv =
     (let c = tool_client env; bits = long_bits (tool_c env) in
      if length argv \<noteq> 5 \<and> length argv \<noteq> 6 then Ret ((EXIT_FAILURE, bad_args (sdo_read_usage (argv ! 0))), c)
      else case parse_int_arg bits (argv ! 2) 0 of (r, nid) \<Rightarrow>
      if r < 0 then Ret ((EXIT_FAILURE, line (''invalid node id: '' @ argv ! 2)), c)
      else case parse_int_arg bits (argv ! 3) 0 of (r, index) \<Rightarrow>
      if r < 0 then Ret ((EXIT_FAILURE, line (''invalid index: '' @ argv ! 3)), c)
      else case parse_int_arg bits (argv ! 4) 0 of (r, subindex) \<Rightarrow>
      if r < 0 then Ret ((EXIT_FAILURE, line (''invalid subindex: '' @ argv ! 4)), c)
      else
        bind_outcome (sdo_client_node_start (tool_node env) (argv ! 1) fresh_node) (\<lambda>(r, n).
        if r < 0 then Ret ((EXIT_FAILURE, line (''node start failure: '' @ format_d (- r))), c)
        else
          bind_outcome (sdo_read_dynamic (tool_sdo env) (tool_mem env) (tool_fuel env) (of_int nid) (of_int index) (of_int subindex) None (Some 0) False c)
            (\<lambda>(abort_code, data, data_size, c1).
          bind_outcome (stop_and (tool_node env) n (bind_outcome
            (if abort_code = 0
             then (if length argv = 5 \<or> strncmp_eq (argv ! 5) ''bytes'' (length (argv ! 5))
                   then bytes_line data (case data_size of None \<Rightarrow> 0 | Some m \<Rightarrow> m)
                   else value_line (argv ! 5) data)
             else sdo_abort_line abort_code)
            (\<lambda>t. Ret (EXIT_SUCCESS, t)))) (\<lambda>res. Ret (res, c1)))))"

text \<open>\<^verbatim>\<open>sdo_write_main.c\<close>.\<close>

definition sdo_write_usage :: "string \<Rightarrow> string" where
  "sdo_write_usage name = line (name @ '' <interface> <node-id> <index> <subindex> <dtype> <value>'') @ line [] @ line DTYPES"

definition sdo_write_main :: "'c tool_env \<Rightarrow> string list \<Rightarrow> ((int \<times> string) \<times> 'c) outcome" where
  "sdo_write_main env argv =
     (let c = tool_client env; bits = long_bits (tool_c env) in
      if length argv \<noteq> 7 then Ret ((EXIT_FAILURE, bad_args (sdo_write_usage (argv ! 0))), c)
      else case parse_int_arg bits (argv ! 2) 0 of (r, nid) \<Rightarrow>
      if r < 0 then Ret ((EXIT_FAILURE, line (''invalid node id: '' @ argv ! 2)), c)
      else case parse_int_arg bits (argv ! 3) 0 of (r, index) \<Rightarrow>
      if r < 0 then Ret ((EXIT_FAILURE, line (''invalid index: '' @ argv ! 3)), c)
      else case parse_int_arg bits (argv ! 4) 0 of (r, subindex) \<Rightarrow>
      if r < 0 then Ret ((EXIT_FAILURE, line (''invalid subindex: '' @ argv ! 4)), c)
      else
        bind_outcome (str2buf_dtype_str (tool_c env) (argv ! 5) (Some (argv ! 6)) 0) (\<lambda>(data, data_size).
        case data of
          None \<Rightarrow> Ret ((EXIT_FAILURE, line (''invalid dtype or value: '' @ argv ! 5 @ '' or '' @ argv ! 6)), c)
        | Some d \<Rightarrow>
            bind_outcome (sdo_client_node_start (tool_node env) (argv ! 1) fresh_node) (\<lambda>(r, n).
            if r < 0 then Ret ((EXIT_FAILURE, []), c)
            else
              bind_outcome (sdo_write (tool_sdo env) (tool_fuel env) (of_int nid) (of_int index) (of_int subindex) d data_size c) (\<lambda>(abort_code, c1).
              bind_outcome (if abort_code \<noteq> 0 then sdo_abort_line abort_code else Ret []) (\<lambda>t.
              bind_outcome (sdo_client_node_stop (tool_node env) n) (\<lambda>(left, _).
              Ret ((if left then EXIT_FAILURE else EXIT_SUCCESS, t), c1)))))))"

text \<open>\<^verbatim>\<open>fread_main.c\<close>: the file is asked for by its name and stored under the same name.\<close>

definition fread_usage :: "string \<Rightarrow> string" where
  "fread_usage name = line (name @ '' <interface> <node-id> <src>'')"

definition fread_main :: "'c tool_env \<Rightarrow> string list \<Rightarrow> fsys \<Rightarrow> ((int \<times> string) \<times> fsys \<times> 'c) outcome" where
  "fread_main env argv fs =
     (let c = tool_client env; S = tool_sdo env; fuel = tool_fuel env in
      if length argv \<noteq> 4 then Ret ((EXIT_FAILURE, bad_args (fread_usage (argv ! 0))), fs, c)
      else case parse_int_arg (long_bits (tool_c env)) (argv ! 2) 0 of (r, nid) \<Rightarrow>
      if r < 0 then Ret ((EXIT_FAILURE, line (''invalid node id: '' @ argv ! 2)), fs, c)
      else
        bind_outcome (sdo_client_node_start (tool_node env) (argv ! 1) fresh_node) (\<lambda>(r, n).
        if r < 0 then Ret ((EXIT_FAILURE, line (''node start failure: '' @ format_d (- r))), fs, c)
        else
          bind_outcome (sdo_write_str S fuel (of_int nid) (OD_INDEX_FREAD_CACHE env) (OD_SUBINDEX_FREAD_CACHE_FILE_NAME env) (argv ! 3) c)
            (\<lambda>(abort_code, c1).
          if abort_code \<noteq> 0 then bind_outcome (tool_abort (tool_node env) n abort_code) (\<lambda>res. Ret (res, fs, c1))
          else
            bind_outcome (sdo_read_to_file S (tool_mem env) fuel (of_int nid) (OD_INDEX_FREAD_CACHE env) (OD_SUBINDEX_FREAD_CACHE_FILE_DATA env) (argv ! 3) fs c1)
              (\<lambda>(abort_code, fs1, c2).
            bind_outcome
              (if abort_code \<noteq> 0 then tool_abort (tool_node env) n abort_code else stop_and (tool_node env) n (Ret (EXIT_SUCCESS, [])))
              (\<lambda>res. Ret (res, fs1, c2))))))"

text \<open>
  \<^verbatim>\<open>fwrite_main.c\<close>. \<^verbatim>\<open>basename\<close> cuts slashes at the end off its argument, in place.
\<close>

definition fwrite_usage :: "string \<Rightarrow> string" where
  "fwrite_usage name = line (name @ '' <interface> <node-id> <src> <optional-dest>'')"

definition cut_slashes :: "string \<Rightarrow> string" where
  "cut_slashes s = (let t = rev (dropWhile (\<lambda>c. c = slash) (rev s)) in if t = [] then s else t)"

definition fwrite_main :: "'c tool_env \<Rightarrow> string list \<Rightarrow> fsys \<Rightarrow> ((int \<times> string) \<times> 'c) outcome" where
  "fwrite_main env argv fs =
     (let c = tool_client env; S = tool_sdo env; fuel = tool_fuel env in
      if length argv \<noteq> 4 \<and> length argv \<noteq> 5 then Ret ((EXIT_FAILURE, bad_args (fwrite_usage (argv ! 0))), c)
      else case parse_int_arg (long_bits (tool_c env)) (argv ! 2) 0 of (r, nid) \<Rightarrow>
      if r < 0 then Ret ((EXIT_FAILURE, line (''invalid node id: '' @ argv ! 2)), c)
      else
        let (file, src) = (if length argv = 4 then (basename (argv ! 3), cut_slashes (argv ! 3)) else (argv ! 4, argv ! 3)) in
        if \<not> is_file fs src then Ret ((EXIT_FAILURE, line (''file does not exist: '' @ src)), c)
        else
          bind_outcome (sdo_client_node_start (tool_node env) (argv ! 1) fresh_node) (\<lambda>(r, n).
          if r < 0 then Ret ((EXIT_FAILURE, line (''node start failure: '' @ format_d (- r))), c)
          else
            bind_outcome (sdo_write_str S fuel (of_int nid) (OD_INDEX_FWRITE_CACHE env) (OD_SUBINDEX_FREAD_CACHE_FILE_NAME env) file c)
              (\<lambda>(abort_code, c1).
            if abort_code \<noteq> 0 then bind_outcome (tool_abort (tool_node env) n abort_code) (\<lambda>res. Ret (res, c1))
            else
              bind_outcome (sdo_write_from_file S (tool_mem env) (tool_kern env) fuel (of_int nid) (OD_INDEX_FWRITE_CACHE env)
                  (OD_SUBINDEX_FREAD_CACHE_FILE_DATA env) src fs c1) (\<lambda>(abort_code, c2).
              bind_outcome
                (if abort_code \<noteq> 0 then tool_abort (tool_node env) n abort_code else stop_and (tool_node env) n (Ret (EXIT_SUCCESS, [])))
                (\<lambda>res. Ret (res, c2))))))"

text \<open>
  \<^verbatim>\<open>fcache_list_main.c\<close>. \<^verbatim>\<open>strtok\<close> cuts the text in place: it yields the region with the cut, the start of the token and where to go on.
\<close>

definition strtok_comma :: "char list \<Rightarrow> nat \<Rightarrow> (char list \<times> nat \<times> nat) option outcome" where
  "strtok_comma buf pos =
     bind_outcome (read_cstr (drop pos buf)) (\<lambda>s.
     let skip = length (takeWhile (\<lambda>c. c = CHR '','') s); t = takeWhile (\<lambda>c. c \<noteq> CHR '','') (drop skip s); stop = pos + skip + length t in
     Ret (if t = [] then None
          else if stop < pos + length s then Some (buf[stop := nul], pos + skip, stop + 1)
          else Some (buf, pos + skip, stop)))"

definition poke_back :: "char list \<Rightarrow> nat \<Rightarrow> nat \<Rightarrow> char list outcome" where
  "poke_back buf p n = (if p < n then Fault Out_of_bounds else poke buf (p - n) [nul])"

fun print_tokens :: "nat \<Rightarrow> char list \<Rightarrow> nat \<Rightarrow> string outcome" where
  "print_tokens 0 buf pos = Fault Out_of_fuel"
| "print_tokens (Suc fuel) buf pos =
     bind_outcome (strtok_comma buf pos) (\<lambda>r. case r of
       None \<Rightarrow> Ret []
     | Some (buf1, start, pos1) \<Rightarrow>
         bind_outcome (read_cstr (drop start buf1)) (\<lambda>token.
         bind_outcome (poke_back buf1 (start + length token) (if last token = CHR '']'' then 2 else 1)) (\<lambda>buf2.
         bind_outcome (read_cstr (drop (start + 2) buf2)) (\<lambda>name.
         bind_outcome (print_tokens fuel buf2 pos1) (\<lambda>rest. Ret (line name @ rest))))))"

definition print_listing :: "char list \<Rightarrow> string outcome" where
  "print_listing buf =
     bind_outcome (read_cstr buf) (\<lambda>s. if strncmp_eq s ''[]'' (length s) then Ret [] else print_tokens (length buf) buf 0)"

definition fcache_list_usage :: "string \<Rightarrow> string" where
  "fcache_list_usage name = line (name @ '' <interface> <node-id> <cache>'') @ line [] @ line ''caches: fread or fwrite''"

definition fcache_list_main :: "'c tool_env \<Rightarrow> string list \<Rightarrow> ((int \<times> string) \<times> 'c) outcome" where
  "fcache_list_main env argv =
     (let c = tool_client env; is = (\<lambda>name. strncmp_eq (argv ! 3) name (length (argv ! 3) + 1)) in
      if length argv \<noteq> 4 then Ret ((EXIT_FAILURE, bad_args (fcache_list_usage (argv ! 0))), c)
      else case parse_int_arg (long_bits (tool_c env)) (argv ! 2) 0 of (r, nid) \<Rightarrow>
      if r < 0 then Ret ((EXIT_FAILURE, line (''invalid node id: '' @ argv ! 2)), c)
      else
        bind_outcome (sdo_client_node_start (tool_node env) (argv ! 1) fresh_node) (\<lambda>(r, n).
        if r < 0 then Ret ((EXIT_FAILURE, line (''node start failure: '' @ format_d (- r)) @ line []), c)
        else case (if is ''fread'' then Some (OD_INDEX_FREAD_CACHE env) else if is ''fwrite'' then Some (OD_INDEX_FWRITE_CACHE env) else None) of
          None \<Rightarrow> Ret ((EXIT_FAILURE, line ''invalid cache, must be fread or fwrite''), c)
        | Some index \<Rightarrow>
            bind_outcome (sdo_read_str (tool_sdo env) (tool_mem env) (tool_fuel env) (of_int nid) index (OD_SUBINDEX_FREAD_CACHE_FILES_JSON env) None False c)
              (\<lambda>(abort_code, buf, _, c1).
            bind_outcome
              (if abort_code \<noteq> 0 then tool_abort (tool_node env) n abort_code
               else case buf of
                 None \<Rightarrow> stop_and (tool_node env) n (Ret (EXIT_SUCCESS, []))
               | Some b \<Rightarrow>
                   bind_outcome (print_listing (string_of_bytes b)) (\<lambda>t.
                   bind_outcome (stop_and (tool_node env) n (Ret (EXIT_SUCCESS, []))) (\<lambda>(code, _). Ret (code, t))))
              (\<lambda>res. Ret (res, c1)))))"

text \<open>\<^verbatim>\<open>os_command_main.c\<close>: the status is asked for every quarter of a second.\<close>

fun wait_command :: "'c tool_env \<Rightarrow> byte \<Rightarrow> nat \<Rightarrow> byte \<Rightarrow> 'c \<Rightarrow> (u32 \<times> byte \<times> 'c) outcome" where
  "wait_command env nid 0 status c = Fault Out_of_fuel"
| "wait_command env nid (Suc fuel) status c =
     (if status \<noteq> OS_COMMAND_STATUS_EXECUTING env then Ret (0, status, c)
      else
        bind_outcome (sdo_read_uint8 (tool_sdo env) (tool_fuel env) nid (OD_INDEX_OS_COMMAND env) (OD_SUBINDEX_OS_COMMAND_STATUS env) [status] c)
          (\<lambda>(abort_code, value, _, c1).
        if abort_code \<noteq> 0 then Ret (abort_code, hd value, c1) else wait_command env nid fuel (hd value) c1))"

definition os_command_usage :: "string \<Rightarrow> string" where
  "os_command_usage name = line (name @ '' <interface> <node-id> <command>'')"

definition os_command_main :: "'c tool_env \<Rightarrow> string list \<Rightarrow> ((int \<times> string) \<times> 'c) outcome" where
  "os_command_main env argv =
     (let c = tool_client env; S = tool_sdo env; fuel = tool_fuel env; index = OD_INDEX_OS_COMMAND env in
      if length argv \<noteq> 4 then Ret ((EXIT_FAILURE, bad_args (os_command_usage (argv ! 0))), c)
      else case parse_int_arg (long_bits (tool_c env)) (argv ! 2) 0 of (r, nid) \<Rightarrow>
      if r < 0 then Ret ((EXIT_FAILURE, line (''invalid node id: '' @ argv ! 2)), c)
      else
        bind_outcome (sdo_client_node_start (tool_node env) (argv ! 1) fresh_node) (\<lambda>(r, n).
        if r < 0 then Ret ((EXIT_FAILURE, line (''node start failure: '' @ format_d (- r))), c)
        else
          bind_outcome (sdo_write_str S fuel (of_int nid) index (OD_SUBINDEX_OS_COMMAND_COMMAND env) (argv ! 3) c) (\<lambda>(abort_code, c1).
          if abort_code \<noteq> 0 then bind_outcome (tool_abort (tool_node env) n abort_code) (\<lambda>res. Ret (res, c1))
          else
            bind_outcome (wait_command env (of_int nid) fuel (OS_COMMAND_STATUS_EXECUTING env) c1) (\<lambda>(abort_code, status, c2).
            if abort_code \<noteq> 0 then bind_outcome (tool_abort (tool_node env) n abort_code) (\<lambda>res. Ret (res, c2))
            else if status = OS_COMMAND_STATUS_NO_ERROR_REPLY env \<or> status = OS_COMMAND_STATUS_ERROR_REPLY env then
              bind_outcome (sdo_read_str S (tool_mem env) fuel (of_int nid) index (OD_SUBINDEX_OS_COMMAND_REPLY env) None True c2)
                (\<lambda>(abort_code, reply, _, c3).
              bind_outcome
                (if abort_code \<noteq> 0 then tool_abort (tool_node env) n abort_code
                 else case reply of
                   None \<Rightarrow> Fault Null_pointer
                 | Some r \<Rightarrow>
                     bind_outcome (read_cstr (string_of_bytes r)) (\<lambda>t.
                     bind_outcome (stop_and (tool_node env) n (Ret (EXIT_SUCCESS, []))) (\<lambda>(code, _). Ret (code, line t))))
                (\<lambda>res. Ret (res, c3)))
            else
              bind_outcome (stop_and (tool_node env) n (Ret (EXIT_SUCCESS, []))) (\<lambda>(code, _). Ret ((code, line ''no reply''), c2))))))"

section \<open>The thread of the node\<close>

text \<open>
  The thread sets \<^verbatim>\<open>running\<close> before its loop; \<^verbatim>\<open>sdo_client_node_stop\<close> clears it and joins the thread; a signal clears it at any time. The flag starts set. The steps of the main
  program and of the thread come in any order.
\<close>

datatype node_thread_pc = Thread_created | Thread_looping | Thread_done
datatype node_main_pc = Main_working | Main_joining | Main_joined

record node_run =
  node_running :: bool
  thread_at :: node_thread_pc
  main_at :: node_main_pc

definition node_created :: node_run where
  "node_created = \<lparr>node_running = True, thread_at = Thread_created, main_at = Main_working\<rparr>"

datatype node_event = Thread_enters | Thread_round | Thread_leaves | Main_stops | Main_joins | Signal

inductive node_step :: "node_event \<Rightarrow> node_run \<Rightarrow> node_run \<Rightarrow> bool" where
  enters: "thread_at s = Thread_created \<Longrightarrow> node_step Thread_enters s (s\<lparr>node_running := True, thread_at := Thread_looping\<rparr>)"
| round: "thread_at s = Thread_looping \<Longrightarrow> node_running s \<Longrightarrow> node_step Thread_round s s"
| leaves: "thread_at s = Thread_looping \<Longrightarrow> \<not> node_running s \<Longrightarrow> node_step Thread_leaves s (s\<lparr>thread_at := Thread_done\<rparr>)"
| stops: "main_at s = Main_working \<Longrightarrow> node_step Main_stops s (s\<lparr>node_running := False, main_at := Main_joining\<rparr>)"
| joins: "main_at s = Main_joining \<Longrightarrow> thread_at s = Thread_done \<Longrightarrow> node_step Main_joins s (s\<lparr>main_at := Main_joined\<rparr>)"
| signal: "node_step Signal s (s\<lparr>node_running := False\<rparr>)"

inductive node_steps :: "node_event list \<Rightarrow> node_run \<Rightarrow> node_run \<Rightarrow> bool" where
  none: "node_steps [] s s"
| more: "node_step e s s1 \<Longrightarrow> node_steps es s1 s2 \<Longrightarrow> node_steps (e # es) s s2"

inductive_cases node_stepsE: "node_steps es s s'"

inductive_simps node_step_simps:
  "node_step Thread_enters s s'" "node_step Thread_round s s'" "node_step Thread_leaves s s'"
  "node_step Main_stops s s'" "node_step Main_joins s s'" "node_step Signal s s'"

inductive_simps node_steps_simps: "node_steps [] s s'" "node_steps (e # es) s s'"

text \<open>The main program waits for a thread that goes on.\<close>

definition stop_lost :: "node_run \<Rightarrow> bool" where
  "stop_lost s \<longleftrightarrow> main_at s = Main_joining \<and> thread_at s = Thread_looping \<and> node_running s"

lemma stop_lost_stays:
  assumes "node_steps es s s'" and "stop_lost s" and "Signal \<notin> set es"
  shows "s' = s"
  using assms
proof (induction rule: node_steps.induct)
  case (more e s s1 es s2)
  have "s1 = s" using more.hyps(1) more.prems by (cases rule: node_step.cases) (auto simp: stop_lost_def)
  then show ?case using more.IH more.prems by simp
qed simp

text \<open>How many steps are left until the thread is joined, once the loop is told to end.\<close>

definition stopping :: "node_run \<Rightarrow> bool" where
  "stopping s \<longleftrightarrow> \<not> node_running s \<and> (thread_at s = Thread_looping \<and> main_at s = Main_joining
     \<or> thread_at s = Thread_done \<and> main_at s \<noteq> Main_working)"

definition steps_left :: "node_run \<Rightarrow> nat" where
  "steps_left s = (if thread_at s = Thread_looping then 2 else if main_at s = Main_joining then 1 else 0)"

lemma stopping_step:
  assumes "node_step e s s'" and "stopping s" and "e \<noteq> Signal"
  shows "stopping s' \<and> Suc (steps_left s') = steps_left s"
  using assms by (cases rule: node_step.cases) (auto simp: stopping_def steps_left_def)

lemma stopping_steps:
  "node_steps es s s' \<Longrightarrow> stopping s \<Longrightarrow> Signal \<notin> set es \<Longrightarrow> stopping s' \<and> length es + steps_left s' = steps_left s"
proof (induction rule: node_steps.induct)
  case (more e s s1 es s2)
  then have "stopping s1" "Suc (steps_left s1) = steps_left s" using stopping_step by auto
  then show ?case using more.IH more.prems by auto
qed simp

lemma stopping_goes_on:
  assumes "stopping s" and "main_at s \<noteq> Main_joined"
  shows "\<exists>e s'. node_step e s s' \<and> e \<noteq> Signal"
proof (cases "thread_at s = Thread_looping")
  case True
  then have "node_step Thread_leaves s (s\<lparr>thread_at := Thread_done\<rparr>)" using assms(1) by (intro leaves) (auto simp: stopping_def)
  then show ?thesis by blast
next
  case False
  then have "node_step Main_joins s (s\<lparr>main_at := Main_joined\<rparr>)"
    using assms by (intro joins) (cases "main_at s"; auto simp: stopping_def)+
  then show ?thesis by blast
qed

text \<open>
  C40: stopping the node of the tools. When the thread has reached its loop, the request ends it: without a signal, at most two
  steps follow, and the program is never stuck before the thread is joined. When the request comes first, the thread overwrites it and
  runs on, and the program waits for it for good.
\<close>

theorem node_stop_joins_or_is_lost:
  assumes "node_steps es s s'" and "Signal \<notin> set es"
  shows "node_steps [Main_stops, Thread_enters] node_created \<lparr>node_running = True, thread_at = Thread_looping, main_at = Main_joining\<rparr>
    \<and> (s = \<lparr>node_running = True, thread_at = Thread_looping, main_at = Main_joining\<rparr> \<longrightarrow> s' = s)
    \<and> (\<forall>s0. thread_at s0 = Thread_looping \<and> node_step Main_stops s0 s \<longrightarrow>
         length es \<le> 2 \<and> (main_at s' = Main_joined \<longleftrightarrow> length es = 2)
         \<and> (main_at s' \<noteq> Main_joined \<longrightarrow> (\<exists>e s''. node_step e s' s'' \<and> e \<noteq> Signal)))"
proof (intro conjI impI allI)
  show "node_steps [Main_stops, Thread_enters] node_created \<lparr>node_running = True, thread_at = Thread_looping, main_at = Main_joining\<rparr>"
    by (simp add: node_steps_simps node_step_simps node_created_def)
  show "s' = s" if "s = \<lparr>node_running = True, thread_at = Thread_looping, main_at = Main_joining\<rparr>"
    using that stop_lost_stays [OF assms(1) _ assms(2)] by (simp add: stop_lost_def)
  fix s0
  assume "thread_at s0 = Thread_looping \<and> node_step Main_stops s0 s"
  then have "stopping s" "steps_left s = 2" by (auto simp: node_step_simps stopping_def steps_left_def)
  with stopping_steps [OF assms(1) _ assms(2)] have s': "stopping s'" "length es + steps_left s' = 2" by auto
  then show "length es \<le> 2" by simp
  have "main_at s' = Main_joined \<longleftrightarrow> steps_left s' = 0"
    using s'(1) by (cases "main_at s'") (auto simp: stopping_def steps_left_def)
  then show "main_at s' = Main_joined \<longleftrightarrow> length es = 2" using s'(2) by auto
  show "\<exists>e s''. node_step e s' s'' \<and> e \<noteq> Signal" if "main_at s' \<noteq> Main_joined"
    using stopping_goes_on [OF s'(1) that] .
qed

theorem node_stop_joins_or_is_lost_witness:
  "node_steps [Main_stops, Thread_enters] node_created \<lparr>node_running = True, thread_at = Thread_looping, main_at = Main_joining\<rparr>
   \<and> \<lparr>node_running = True, thread_at = Thread_looping, main_at = Main_joining\<rparr> \<noteq> \<lparr>node_running = False, thread_at = Thread_done, main_at = Main_joined\<rparr>"
  using node_stop_joins_or_is_lost [of "[Thread_leaves, Main_joins]" "\<lparr>node_running = False, thread_at = Thread_looping, main_at = Main_joining\<rparr>"
      "\<lparr>node_running = False, thread_at = Thread_done, main_at = Main_joined\<rparr>"]
  by (simp add: node_steps_simps node_step_simps)

section \<open>Starting and stopping\<close>

text \<open>
  A start that fails has closed what it opened; one that succeeds has a node that can send, whether or not its thread was created.
\<close>

lemma say_frame [simp]: "nd_calls (say env p msg n) = nd_calls n" "nd_thread (say env p msg n) = nd_thread n"
  by (simp_all add: say_def)

lemma call_frame [simp]: "nd_calls (call cs n) = nd_calls n @ cs" "nd_thread (call cs n) = nd_thread n"
  by (simp_all add: call_def)

lemma node_start_error_result:
  "node_start_error env msg n = (r, n') \<Longrightarrow>
     r = -1 \<and> nd_thread n' = nd_thread n \<and> nd_calls n' = nd_calls n @ [CO_epoll_close, CO_CANsetConfigurationMode, CO_delete]"
  by (auto simp: node_start_error_def)

lemma node_start_result:
  assumes "sdo_client_node_start env dev fresh_node = Ret (r, n)"
  shows "r = -1 \<and> \<not> nd_thread n \<and> suffix [CO_epoll_close, CO_CANsetConfigurationMode, CO_delete] (nd_calls n)
    \<or> r = 0 \<and> nd_thread n = pthread_create_ok env \<and> last (nd_calls n) = CO_CANsetNormalMode \<and> CO_delete \<notin> set (nd_calls n)"
proof -
  have err: "?thesis" if "node_start_error env msg m = (r, n)" "\<not> nd_thread m" for msg m
    using node_start_error_result [OF that(1)] that(2) by (simp add: suffix_def)
  obtain cfg x where "fill_config (OD_find_env env) (Some (OD_env env)) (Some (unset_config env)) = Ret (x, Some cfg)"
    using assms by (auto simp: sdo_client_node_start_def bind_outcome_Ret_iff Let_def split: option.split_asm)
  with assms show ?thesis
    unfolding sdo_client_node_start_def
    by (simp only: bind_outcome.simps prod.case option.case Let_def outcome.inject split: if_split_asm)
      ((rule err, assumption, simp add: fresh_node_def)+, auto simp: fresh_node_def)
qed

text \<open>The node comes up and goes down again.\<close>

definition node_works :: "node_env \<Rightarrow> string \<Rightarrow> bool" where
  "node_works env dev \<longleftrightarrow> pthread_join_ok env \<and>
     (case sdo_client_node_start env dev fresh_node of Ret (r, n) \<Rightarrow> r = 0 \<and> nd_thread n | _ \<Rightarrow> False)"

lemma node_works_start:
  assumes "node_works env dev"
  obtains n where "sdo_client_node_start env dev fresh_node = Ret (0, n)" "\<And>rest. stop_and env n rest = rest"
    "\<And>x. sdo_client_node_stop env n = Ret x \<Longrightarrow> fst x = False" "\<exists>n'. sdo_client_node_stop env n = Ret (False, n')"
  using assms that
  by (fastforce simp: node_works_def stop_and_def sdo_client_node_stop_def split: outcome.splits prod.splits)

text \<open>A thread that cannot be created goes unnoticed until the program joins it.\<close>

lemma node_without_thread:
  assumes "sdo_client_node_start env dev fresh_node = Ret (0, n)" and "\<not> pthread_create_ok env"
  shows "sdo_client_node_stop env n = Fault Uninitialised"
  using node_start_result [OF assms(1)] assms(2) by (simp add: sdo_client_node_stop_def)

section \<open>The listing\<close>

text \<open>The text of a listing cut at its commas: a lead character, the name in quotes, and the rest.\<close>

fun listing_text :: "char \<Rightarrow> string list \<Rightarrow> string" where
  "listing_text c [] = []"
| "listing_text c [n] = c # json_quote n @ '']''"
| "listing_text c (n # ns) = c # json_quote n @ '','' @ listing_text CHR '' '' ns"

lemma listing_text_tail: "ns \<noteq> [] \<Longrightarrow> '','' @ listing_text CHR '' '' ns = concat (map (\<lambda>m. '', '' @ json_quote m) ns) @ '']''"
  by (induction ns rule: induct_list012) simp_all

lemma json_array_listing: "ns \<noteq> [] \<Longrightarrow> json_array ns = listing_text CHR ''['' ns"
proof (induction ns rule: induct_list012)
  case (3 n m ns)
  show ?case using listing_text_tail [of "m # ns"] by simp
qed simp_all

definition no_comma :: "string \<Rightarrow> bool" where
  "no_comma n \<longleftrightarrow> CHR '','' \<notin> set n"

lemma read_cstr_terminated [simp]: "is_cstr s \<Longrightarrow> read_cstr (s @ nul # r) = Ret s"
  by (simp add: read_cstr_def)

lemma strtok_none: "strtok_comma (pre @ nul # junk) (length pre) = Ret None"
  by (simp add: strtok_comma_def read_cstr_def)

lemma first_token:
  assumes "no_comma t" and "t \<noteq> []"
  shows "takeWhile (\<lambda>c. c = CHR '','') (t @ r) = []" and "takeWhile (\<lambda>c. c \<noteq> CHR '','') (t @ CHR '','' # r) = t"
    and "takeWhile (\<lambda>c. c \<noteq> CHR '','') t = t"
proof -
  have *: "\<forall>c \<in> set t. c \<noteq> CHR '',''" using assms(1) by (auto simp: no_comma_def)
  then show "takeWhile (\<lambda>c. c = CHR '','') (t @ r) = []" using assms(2) by (cases t) auto
  show "takeWhile (\<lambda>c. c \<noteq> CHR '','') (t @ CHR '','' # r) = t" using * by (subst takeWhile_append2) auto
  show "takeWhile (\<lambda>c. c \<noteq> CHR '','') t = t" using * by simp
qed

lemma strtok_more:
  assumes "is_cstr t" and "no_comma t" and "t \<noteq> []" and "is_cstr tail"
  shows "strtok_comma (pre @ t @ CHR '','' # tail @ nul # junk) (length pre)
    = Ret (Some (pre @ t @ nul # tail @ nul # junk, length pre, length pre + length t + 1))"
proof -
  have "read_cstr ((t @ CHR '','' # tail) @ nul # junk) = Ret (t @ CHR '','' # tail)"
    using assms by (intro read_cstr_terminated) (simp add: nul_def)
  then show ?thesis
    using first_token [OF assms(2,3)] by (simp add: strtok_comma_def Let_def assms(3) list_update_append)
qed

lemma strtok_last:
  assumes "is_cstr t" and "no_comma t" and "t \<noteq> []"
  shows "strtok_comma (pre @ t @ nul # junk) (length pre) = Ret (Some (pre @ t @ nul # junk, length pre, length pre + length t))"
  using first_token(1) [OF assms(2,3), of "[]"] first_token(3) [OF assms(2,3)] assms by (simp add: strtok_comma_def Let_def)

text \<open>A token is not empty, so the position moves on; the text stays terminated, so the loop ends within as many rounds as the text has characters.\<close>

lemma strtok_advances:
  assumes "strtok_comma buf pos = Ret (Some (buf1, start, pos1))"
  shows "pos < pos1 \<and> length buf1 = length buf \<and> nul \<in> set (drop pos1 buf1)"
proof -
  obtain s where s: "read_cstr (drop pos buf) = Ret s" using assms by (auto simp: strtok_comma_def bind_outcome_Ret_iff)
  then have nul: "nul \<in> set (drop pos buf)" "s = cstr (drop pos buf)" by (auto simp: read_cstr_def split: if_splits)
  obtain r where r: "drop pos buf = s @ nul # r" using cstr_split [OF nul(1)] nul(2) by blast
  define k where "k = length (takeWhile (\<lambda>c. c = CHR '','') s)"
  define t where "t = takeWhile (\<lambda>c. c \<noteq> CHR '','') (drop k s)"
  have "length t \<le> length s - k" using length_takeWhile_le [of "\<lambda>c. c \<noteq> CHR '',''" "drop k s"] by (simp add: t_def)
  moreover have "k \<le> length s" unfolding k_def by (rule length_takeWhile_le)
  ultimately have le: "k + length t \<le> length s" by simp
  have res: "(if t = [] then None else if pos + k + length t < pos + length s then Some (buf[pos + k + length t := nul], pos + k, pos + k + length t + 1)
      else Some (buf, pos + k, pos + k + length t)) = Some (buf1, start, pos1)"
    using assms unfolding strtok_comma_def s bind_outcome.simps Let_def k_def [symmetric] t_def [symmetric] by (simp only: outcome.inject)
  have tail: "nul \<in> set (drop (pos + m) buf)" if "m \<le> length s" for m
    using that r by (metis drop_drop add.commute drop_append in_set_conv_decomp append_assoc diff_is_0_eq drop0)
  show ?thesis
  proof (cases "k + length t < length s")
    case True
    then have e: "buf1 = buf[pos + k + length t := nul]" "pos1 = pos + (k + length t + 1)" "t \<noteq> []" using res by (auto split: if_splits)
    then have "drop pos1 buf1 = drop (pos + (k + length t + 1)) buf" by simp
    then show ?thesis using e tail [of "k + length t + 1"] True by simp
  next
    case False
    then have "buf1 = buf" "pos1 = pos + (k + length t)" "t \<noteq> []" using res by (auto split: if_splits)
    then show ?thesis using tail [OF le] by (cases t) auto
  qed
qed

lemma poke_back_keeps:
  assumes "poke_back buf p n = Ret buf'"
  shows "length buf' = length buf \<and> (nul \<in> set (drop q buf) \<longrightarrow> nul \<in> set (drop q buf'))"
proof -
  have i: "p - n < length buf" "buf' = buf[p - n := nul]"
    using assms by (auto simp: poke_back_def poke_def upd_conv_take_nth_drop split: if_splits)
  show ?thesis
  proof (cases "p - n < q")
    case False
    then have "drop q buf' = (drop q buf)[p - n - q := nul]" using i by (simp add: drop_update_swap)
    then show ?thesis using i False by (auto simp: set_update_memI)
  qed (use i in simp)
qed

lemma print_tokens_ends:
  "nul \<in> set (drop pos buf) \<Longrightarrow> length buf \<le> pos + fuel \<Longrightarrow> print_tokens fuel buf pos \<noteq> Fault Out_of_fuel"
proof (induction fuel arbitrary: buf pos)
  case 0
  then show ?case by simp
next
  case (Suc fuel)
  have no_fuel: "read_cstr r \<noteq> Fault Out_of_fuel" "poke_back b p n \<noteq> Fault Out_of_fuel" for r b p n
    by (auto simp: read_cstr_def poke_back_def poke_def)
  have "strtok_comma buf pos \<noteq> Fault Out_of_fuel" using no_fuel(1) by (auto simp: strtok_comma_def bind_outcome_Fault_iff Let_def)
  moreover have "print_tokens fuel buf2 pos1 \<noteq> Fault Out_of_fuel"
    if "strtok_comma buf pos = Ret (Some (buf1, start, pos1))" "poke_back buf1 p n = Ret buf2" for buf1 start pos1 p n buf2
    using strtok_advances [OF that(1)] poke_back_keeps [OF that(2), of pos1] Suc.prems by (intro Suc.IH) auto
  ultimately show ?case using no_fuel by (auto simp: bind_outcome_Fault_iff split: option.splits)
qed

lemma print_listing_ends: "print_listing buf \<noteq> Fault Out_of_fuel"
  using print_tokens_ends [of 0 buf "length buf"] by (auto simp: print_listing_def read_cstr_def)

text \<open>What a round prints of a token, and how it cuts it.\<close>

lemma print_token:
  assumes "is_cstr n" and "c \<noteq> nul" and "z = [] \<or> z = '']''" and "t = c # json_quote n @ z"
  shows "read_cstr (drop (length pre) (pre @ t @ nul # rest)) = Ret t"
    and "poke_back (pre @ t @ nul # rest) (length pre + length t) (if last t = CHR '']'' then 2 else 1)
      = Ret (pre @ c # CHR 0x22 # n @ nul # z @ nul # rest)"
    and "read_cstr (drop (length pre + 2) (pre @ c # CHR 0x22 # n @ nul # z @ nul # rest)) = Ret n"
proof -
  have "is_cstr t" using assms by (auto simp: json_quote_def nul_def)
  then show "read_cstr (drop (length pre) (pre @ t @ nul # rest)) = Ret t" by simp
  have k: "(if last t = CHR '']'' then 2 else 1) = Suc (length z)" using assms(3,4) by (auto simp: json_quote_def)
  have p: "length pre + length t - Suc (length z) = length (pre @ c # CHR 0x22 # n)" using assms(4) by (simp add: json_quote_def)
  have r: "pre @ t @ nul # rest = (pre @ c # CHR 0x22 # n) @ CHR 0x22 # z @ nul # rest" using assms(4) by (simp add: json_quote_def)
  show "poke_back (pre @ t @ nul # rest) (length pre + length t) (if last t = CHR '']'' then 2 else 1)
      = Ret (pre @ c # CHR 0x22 # n @ nul # z @ nul # rest)"
    unfolding poke_back_def k p unfolding r using assms(4) by (simp add: json_quote_def poke_def numeral_3_eq_3)
  show "read_cstr (drop (length pre + 2) (pre @ c # CHR 0x22 # n @ nul # z @ nul # rest)) = Ret n"
    using assms(1) by simp
qed

lemma is_cstr_listing: "\<forall>n \<in> set ns. is_cstr n \<Longrightarrow> c \<noteq> nul \<Longrightarrow> is_cstr (listing_text c ns)"
  by (induction c ns rule: listing_text.induct) (auto simp: json_quote_def nul_def)

lemma print_tokens_listing:
  "ns \<noteq> [] \<Longrightarrow> \<forall>n \<in> set ns. is_cstr n \<and> no_comma n \<Longrightarrow> c \<noteq> nul \<Longrightarrow> c \<noteq> CHR '','' \<Longrightarrow> length ns < fuel \<Longrightarrow>
     print_tokens fuel (pre @ listing_text c ns @ nul # junk) (length pre) = Ret (concat (map line ns))"
proof (induction ns arbitrary: c pre fuel)
  case (Cons n ns)
  obtain fl where fl: "fuel = Suc fl" using Cons.prems(5) by (cases fuel) auto
  have n: "is_cstr n" "no_comma n" using Cons.prems(2) by auto
  show ?case
  proof (cases "ns = []")
    case True
    obtain f where f: "fl = Suc f" using Cons.prems(5) fl by (cases fl) auto
    let ?t = "c # json_quote n @ '']''"
    have t: "is_cstr ?t" "no_comma ?t" "?t \<noteq> []" using n Cons.prems(3,4) by (auto simp: json_quote_def nul_def no_comma_def)
    have "print_tokens fl (pre @ c # CHR 0x22 # n @ nul # '']'' @ nul # junk) (length pre + length ?t) = Ret []"
      using strtok_none [of "pre @ c # CHR 0x22 # n @ nul # '']''" junk] by (simp add: f json_quote_def)
    then show ?thesis
      using strtok_last [OF t, of pre junk] print_token [OF n(1) Cons.prems(3) _ refl, of "'']''" pre junk] True
      by (simp add: fl)
  next
    case False
    let ?t = "c # json_quote n @ []" and ?more = "listing_text CHR '' '' ns"
    have t: "is_cstr ?t" "no_comma ?t" "?t \<noteq> []" using n Cons.prems(3,4) by (auto simp: json_quote_def nul_def no_comma_def)
    have m: "is_cstr ?more" using Cons.prems(2) by (intro is_cstr_listing) (auto simp: nul_def)
    have cut: "listing_text c (n # ns) = ?t @ CHR '','' # ?more" using False by (cases ns) auto
    have "print_tokens fl ((pre @ c # CHR 0x22 # n @ [nul, nul]) @ ?more @ nul # junk) (length (pre @ c # CHR 0x22 # n @ [nul, nul]))
        = Ret (concat (map line ns))"
      using Cons.prems(2,5) False fl by (intro Cons.IH) (auto simp: nul_def)
    then have "print_tokens fl (pre @ c # CHR 0x22 # n @ nul # [] @ nul # ?more @ nul # junk) (length pre + length ?t + 1) = Ret (concat (map line ns))"
      by (simp add: json_quote_def)
    then show ?thesis
      using strtok_more [OF t m, of pre junk] print_token [OF n(1) Cons.prems(3) _ refl, of "[]" pre "?more @ nul # junk"]
      unfolding cut by (simp add: fl)
  qed
qed simp

lemma char_of_byte_0: "char_of_byte 0 = nul"
  by (simp add: char_of_byte_def nul_def char_of_def)

lemma print_listing_names:
  assumes "\<forall>n \<in> set ns. is_cstr n \<and> no_comma n" and "is_cstr (json_array ns)"
  shows "print_listing (json_array ns @ nul # junk) = Ret (concat (map line ns))"
proof (cases "ns = []")
  case True
  then show ?thesis using read_cstr_terminated [OF assms(2), of junk] by (simp add: print_listing_def strncmp_eq_def)
next
  case False
  then obtain n ms where ns: "ns = n # ms" by (cases ns) auto
  let ?j = "json_array ns"
  have head: "\<exists>r. ?j = CHR ''['' # CHR 0x22 # r" by (simp add: ns json_quote_def)
  then have "\<not> prefix ?j ''[]''" by auto
  then have eq: "\<not> strncmp_eq ?j ''[]'' (length ?j)" using strncmp_eq_prefix [OF assms(2)] by simp
  have len: "length ns \<le> length (listing_text c ns)" for c
    by (induction c ns rule: listing_text.induct) auto
  have "print_tokens (length (?j @ nul # junk)) ([] @ listing_text CHR ''['' ns @ nul # junk) (length ([] :: string)) = Ret (concat (map line ns))"
    using False assms(1) len [of "CHR ''[''"] by (intro print_tokens_listing) (auto simp: nul_def json_array_listing)
  then show ?thesis using eq assms(2) False by (simp add: print_listing_def json_array_listing)
qed

text \<open>
  C25: the names in a cache on the card reach the terminal. For a cache that can be used, the daemon's listing is text that, brought by the stack in
  any portions, makes the tool print exactly the names of the files, one on each line, as long as no name holds a comma
  and the text stays below the limit of the daemon and off its buffer sizes.
\<close>

theorem fcache_list_main_prints_names:
  fixes env :: "'c tool_env"
  assumes cache: "cache_ok fs c" "names = children fs (resolve (dir_path c))" "list_all no_comma names"
      "length (json_array names) < 8190" "length (json_array names) \<notin> {256, 512, 1024, 2048, 4096}"
    and args: "argv = [tool, dev, number, which]" "parse_int_arg (long_bits (tool_c env)) number 0 = (0, nid)"
      "which = ''fread'' \<and> index = OD_INDEX_FREAD_CACHE env \<or> which = ''fwrite'' \<and> index = OD_INDEX_FWRITE_CACHE env"
    and node: "node_works (tool_node env) dev" "\<And>n. realloc_ok (tool_mem env) n"
    and transfer: "upload_opens (tool_sdo env) (of_int nid) index (OD_SUBINDEX_FREAD_CACHE_FILES_JSON env) False (tool_client env) c1"
      "uploads (tool_sdo env) (fetch (tool_sdo env)) 0 c1 bss c2" "length bss \<le> tool_fuel env"
  shows "\<exists>buf listing. fcache_list_files_as_json (\<lambda>_. True) junk fs (Some c) = Ret (Some buf, Some c) \<and> read_cstr buf = Ret listing
    \<and> (concat bss = bytes_of_string (listing @ [nul]) \<longrightarrow> fcache_list_main env argv = Ret ((EXIT_SUCCESS, concat (map line names)), c2))"
proof -
  obtain buf where buf: "fcache_list_files_as_json (\<lambda>_. True) junk fs (Some c) = Ret (Some buf, Some c)" "read_cstr buf = Ret (json_array names)"
    using fcache_list_files_as_json_correct [OF cache(1) refl cache(2,4,5)] by blast
  have "fcache_list_main env argv = Ret ((EXIT_SUCCESS, concat (map line names)), c2)" if bss: "concat bss = bytes_of_string (json_array names @ [nul])"
  proof -
    obtain n where n: "sdo_client_node_start (tool_node env) dev fresh_node = Ret (0, n)" "\<And>rest. stop_and (tool_node env) n rest = rest"
      using node_works_start [OF node(1)] by metis
    have "sdo_read_str (tool_sdo env) (tool_mem env) (tool_fuel env) (of_int nid) index (OD_SUBINDEX_FREAD_CACHE_FILES_JSON env) None False (tool_client env)
        = Ret (0, Some (bytes_of_string (json_array names @ [nul]) @ [0]), None, c2)"
      using read_dynamic_result [OF transfer(1,2) node(2) transfer(3), of None None] bss
      by (simp add: sdo_read_str_def stored_def bytes_of_string_def)
    moreover have "string_of_bytes (bytes_of_string (json_array names @ [nul]) @ [0]) = json_array names @ nul # [nul]"
      by (simp add: string_of_bytes_def bytes_of_string_def comp_def char_of_byte_0)
    moreover have "is_cstr (json_array names)" using buf(2) by (metis is_cstr_cstr outcome.distinct(1) outcome.inject(2) read_cstr_def)
    moreover have "\<forall>n \<in> set names. is_cstr n \<and> no_comma n"
      using cache wf_fs_children_plain [of fs] by (auto simp: cache_ok_def plain_name_def list_all_iff)
    moreover have "strncmp_eq ''fread'' ''fread'' (length ''fread'' + 1)" "strncmp_eq ''fwrite'' ''fwrite'' (length ''fwrite'' + 1)"
      "\<not> strncmp_eq ''fwrite'' ''fread'' (length ''fwrite'' + 1)"
      by (simp_all add: strncmp_eq_def nul_def)
    ultimately show ?thesis
      using args n print_listing_names [of names "[nul]"] by (auto simp: fcache_list_main_def Let_def)
  qed
  with buf show ?thesis by blast
qed

section \<open>Values from text to the bus and back\<close>

lemma sint_in_range:
  "- (2 ^ (LENGTH('w) - 1)) \<le> v \<Longrightarrow> v < 2 ^ (LENGTH('w) - 1) \<Longrightarrow> sint (of_int v :: 'w::len word) = v"
  by (simp add: signed_of_int signed_take_bit_int_eq_self_iff)

text \<open>Numbers below the range of \<^verbatim>\<open>int\<close>, in decimal or in base 16, are understood.\<close>

lemma get_str_base_prefix: "unsigned_text s n \<Longrightarrow> get_str_base s = (if prefix ''0x'' s then 16 else 10)"
proof (cases "s = num_string 10 n")
  case True
  then have "CHR ''x'' \<notin> set s" using num_string_digits [of 10 n] not_digit_x [of 10] by auto
  then have "\<not> prefix ''0x'' s" by (auto simp: prefix_def)
  moreover have "get_str_base s = 10" using True num_string_digits [of 10 n] get_str_base_digits(1) by simp
  ultimately show ?thesis by simp
next
  case False
  moreover assume "unsigned_text s n"
  ultimately have "s = ''0x'' @ num_string 16 n" by (simp add: unsigned_text_def)
  then show ?thesis using num_string_0x_length [of 16 n] by (simp add: get_str_base_def)
qed

lemma parse_int_arg_text:
  assumes "unsigned_text s n" and "n < 2 ^ 31" and "32 \<le> bits"
  shows "parse_int_arg bits s v = (0, int n)"
proof -
  obtain k where k: "0 < k" "strtoul bits s (get_str_base s) = (if n < 2 ^ bits then n else 2 ^ bits - 1, k)"
    using strtoul_unsigned_text [OF assms(1)] by blast
  have "n < 2 ^ bits" using assms(2,3) power_increasing [of 31 bits "2 :: nat"] by simp
  moreover have "to_int (int n) = int n" unfolding to_int_def using assms(2) by (intro sint_in_range) simp_all
  ultimately show ?thesis using k get_str_base_prefix [OF assms(1)] by (auto simp: parse_int_arg_def split: if_splits)
qed

lemma load_value_image:
  fixes x :: "'w::len word"
  assumes "8 dvd LENGTH('w)" and "0 < LENGTH('w) div 8"
  shows "(load_value (stored (image x)) :: 'w word outcome) = Ret x"
proof -
  have "(256 :: nat) ^ (LENGTH('w) div 8) = 2 ^ LENGTH('w)"
    using assms(1) power_mult [of "2 :: nat" 8 "LENGTH('w) div 8"] by simp
  then have "le_val (image x) = unat x"
    using unsigned_less [of x, where ?'a = nat] by (simp add: image_def le_val_le_bytes)
  moreover have "image x \<noteq> []" using assms(2) by (metis length_image list.size(3) less_irrefl)
  ultimately show ?thesis by (simp add: load_value_def stored_def)
qed

lemma format_d_text: "signed_text s v \<Longrightarrow> format_d v = s"
  by (auto simp: signed_text_def format_d_def split: if_splits)

lemma unat_of_int: "unat (of_int v :: 'w::len word) = nat (v mod 2 ^ LENGTH('w))"
  by (metis nat_uint_eq uint_word_of_int)

text \<open>The types of signed numbers with their sizes, and the width at which their digits in base 16 are printed.\<close>

definition signed_types :: "(string \<times> nat) list" where
  "signed_types = [(''int8'', 1), (''int16'', 2), (''int32'', 4), (''int64'', 8)]"

definition printed_bits :: "nat \<Rightarrow> nat" where
  "printed_bits w = (if w = 8 then 64 else 32)"

lemmas dtype_tests = strncmp_eq_def nul_def

lemma signed_value_bytes:
  assumes "(dtype, w) \<in> set signed_types" and "signed_text s v" and "- (2 ^ (8 * w - 1)) \<le> v" and "v < 2 ^ (8 * w - 1)"
    and "32 \<le> long_bits cenv" and "malloc_ok cenv = (\<lambda>_. True)"
  obtains d where "str2buf_dtype_str cenv dtype (Some s) out_len = Ret (Some d, w)" "length d = w"
    "value_line dtype (stored d) = Ret (integer_line v (nat (v mod 2 ^ printed_bits w)))"
proof -
  note conv = str2buf_signed_roundtrip [OF assms(2,5,6)]
  have long: "(2147483648 :: int) \<le> 2 ^ (long_bits cenv - 1)" using long_bound(2) [OF assms(5)] by simp
  consider "dtype = ''int8''" "w = 1" | "dtype = ''int16''" "w = 2" | "dtype = ''int32''" "w = 4" | "dtype = ''int64''" "w = 8"
    using assms(1) by (auto simp: signed_types_def)
  then show ?thesis
  proof cases
    case 1
    have v: "sint (of_int v :: byte) = v" using assms(3,4) 1 by (intro sint_in_range) simp_all
    then have "scast (of_int v :: byte) = (of_int v :: u32)" by (simp add: scast_eq)
    then show ?thesis
      using that [of "image (of_int v :: byte)"] 1 conv assms(3,4) v load_value_image [of "of_int v :: byte"]
      by (simp add: str2buf_dtype_str_def value_line_def dtype_tests printed_bits_def unat_of_int)
  next
    case 2
    have v: "sint (of_int v :: u16) = v" using assms(3,4) 2 by (intro sint_in_range) simp_all
    then have "scast (of_int v :: u16) = (of_int v :: u32)" by (simp add: scast_eq)
    then show ?thesis
      using that [of "image (of_int v :: u16)"] 2 conv assms(3,4) v load_value_image [of "of_int v :: u16"]
      by (simp add: str2buf_dtype_str_def value_line_def dtype_tests printed_bits_def unat_of_int)
  next
    case 3
    have v: "sint (of_int v :: u32) = v" using assms(3,4) 3 by (intro sint_in_range) simp_all
    have "max (- (2 ^ (long_bits cenv - 1))) (min (2 ^ (long_bits cenv - 1) - 1) v) = v"
      using 3 assms(3,4) long by (simp add: max_def min_def)
    then have "str2buf_int32 cenv (Some s) = Some (of_int v)" using conv by simp
    then show ?thesis
      using that [of "image (of_int v :: u32)"] 3 v load_value_image [of "of_int v :: u32"]
      by (simp add: str2buf_dtype_str_def value_line_def dtype_tests printed_bits_def unat_of_int)
  next
    case 4
    have v: "sint (of_int v :: u64) = v" using assms(3,4) 4 by (intro sint_in_range) simp_all
    have "max (- (2 ^ 63)) (min (2 ^ 63 - 1) v) = v" using 4 assms(3,4) by (simp add: max_def min_def)
    then have "str2buf_int64 cenv (Some s) = Some (of_int v)" using conv by simp
    then show ?thesis
      using that [of "image (of_int v :: u64)"] 4 v load_value_image [of "of_int v :: u64"]
      by (simp add: str2buf_dtype_str_def value_line_def dtype_tests printed_bits_def unat_of_int)
  qed
qed

text \<open>The arguments that name the object: they are numbers.\<close>

definition object_args :: "'c tool_env \<Rightarrow> string \<Rightarrow> string \<Rightarrow> string \<Rightarrow> int \<Rightarrow> int \<Rightarrow> int \<Rightarrow> bool" where
  "object_args env a b c nid index subindex \<longleftrightarrow>
     (let p = (\<lambda>arg. parse_int_arg (long_bits (tool_c env)) arg 0) in p a = (0, nid) \<and> p b = (0, index) \<and> p c = (0, subindex))"


text \<open>
  Unsigned numbers of 32 and 64 bits are printed as signed ones: above half of the range the tool shows a negative number.
\<close>

lemma uint32_printed_signed:
  "value_line ''uint32'' (stored (image (x :: u32))) = Ret (integer_line (sint x) (unat x))"
  using load_value_image [of x] by (simp add: value_line_def dtype_tests)

text \<open>A type is found by any of its prefixes, and the first that matches counts; a value shorter than its type is read past its end.\<close>

lemma value_line_prefix: "value_line ''u'' data = value_line ''uint8'' data"
  by (simp add: value_line_def dtype_tests)

lemma value_line_short: "length d < 7 \<Longrightarrow> value_line ''int64'' (Some (d @ [0])) = Fault Out_of_bounds"
  by (simp add: value_line_def dtype_tests load_value_def)

text \<open>An abort code that is not in the table is printed through a null pointer.\<close>

lemma unknown_abort_code: "abort_code \<notin> set ABORT_CODES \<Longrightarrow> sdo_abort_line abort_code = Fault Null_pointer"
proof -
  have "abort_code \<notin> fst ` set table \<Longrightarrow> abort_string_loop abort_code table r = r" for table r
    by (induction table arbitrary: r) auto
  moreover assume "abort_code \<notin> set ABORT_CODES"
  then have "abort_code \<notin> fst ` set (zip ABORT_CODES ABORT_CODES_STR)" by (auto dest: set_zip_leftD)
  ultimately show ?thesis by (simp add: sdo_abort_line_def get_sdo_abort_string_def)
qed

section \<open>Fetching a file\<close>

text \<open>
  C13: fetching a file from another node. When the name is taken and the object comes in the portions \<open>bss\<close>, the local file of that name holds exactly
  their bytes, no other file changes, and the tool succeeds. When the other node refuses the transfer, the tool prints the reason and fails, but the local file of that
  name has already been emptied.
\<close>

theorem fread_main_fetches_or_empties:
  fixes env :: "'c tool_env"
  assumes args: "parse_int_arg (long_bits (tool_c env)) number 0 = (0, nid)" and node: "node_works (tool_node env) dev"
    and name: "sdo_write_str (tool_sdo env) (tool_fuel env) (of_int nid) (OD_INDEX_FREAD_CACHE env) (OD_SUBINDEX_FREAD_CACHE_FILE_NAME env) file (tool_client env)
      = Ret (0, c0)"
    and opens: "upload_opens (tool_sdo env) (of_int nid) (OD_INDEX_FREAD_CACHE env) (OD_SUBINDEX_FREAD_CACHE_FILE_DATA env) True c0 c1"
      "fs_create fs file = Inr fs1" "0 < tool_fuel env"
  shows "(uploads (tool_sdo env) (\<lambda>_ c. co_take (tool_sdo env) (co_bufSize (tool_sdo env) c) c) 0 c1 bss c2 \<and> length bss \<le> tool_fuel env
      \<and> list_all (\<lambda>bs. length bs \<le> co_bufSize (tool_sdo env) c1) bss \<longrightarrow>
      (\<exists>fs'. fread_main env [tool, dev, number, file] fs = Ret ((EXIT_SUCCESS, []), fs', c2)
        \<and> map_of fs' = (map_of fs)(resolve file \<mapsto> File (concat bss))))
    \<and> (co_upload (tool_sdo env) time_diff_us c1 = (r, c3) \<and> upl_ret r < 0 \<and> upl_abort r \<noteq> 0 \<and> get_sdo_abort_string (upl_abort r) = Some reason \<longrightarrow>
      (\<exists>fs'. fread_main env [tool, dev, number, file] fs
          = Ret ((EXIT_FAILURE, line (''SDO Abort: 0x'' @ format_x (unat (upl_abort r)) @ '' - '' @ reason)), fs', c3)
        \<and> map_of fs' = (map_of fs)(resolve file \<mapsto> File [])))"
    (is "(?done \<longrightarrow> ?stored) \<and> (?refused \<longrightarrow> ?emptied)")
proof (intro conjI impI)
  obtain n where n: "sdo_client_node_start (tool_node env) dev fresh_node = Ret (0, n)" "\<And>rest. stop_and (tool_node env) n rest = rest"
    using node_works_start [OF node] by metis
  let ?read = "sdo_read_to_file (tool_sdo env) (tool_mem env) (tool_fuel env) (of_int nid) (OD_INDEX_FREAD_CACHE env) (OD_SUBINDEX_FREAD_CACHE_FILE_DATA env) file fs c0"
  note main = fread_main_def Let_def tool_abort_def sdo_abort_line_def
  show ?stored if ok: ?done
  proof -
    obtain fs' where "?read = Ret (0, fs', c2)" "map_of fs' = (map_of fs)(resolve file \<mapsto> File (concat bss))"
      using sdo_read_to_file_delivers [OF opens(1,2), of bss c2 "tool_fuel env" "tool_mem env"] ok by blast
    then show ?thesis using args name n by (auto simp: main)
  qed
  show ?emptied if no: ?refused
  proof -
    obtain fl where "tool_fuel env = Suc fl" using opens(3) by (cases "tool_fuel env") auto
    then have "?read = Ret (upl_abort r, fs1, c3)" using opens(1,2) no by (simp add: sdo_read_to_file_def upload_opens_def)
    moreover have "map_of fs1 = (map_of fs)(resolve file \<mapsto> File [])"
      using opens(2) by (auto simp: fs_create_def Let_def split: if_splits option.splits node.splits)
    ultimately show ?thesis using args name n no by (auto simp: main)
  qed
qed

section \<open>Running a command and sending a file\<close>

text \<open>
  \<open>answers env nid ss c c'\<close>: asked for the status again and again, the other node answers \<open>ss\<close>.
\<close>

fun answers :: "'c tool_env \<Rightarrow> byte \<Rightarrow> byte list \<Rightarrow> 'c \<Rightarrow> 'c \<Rightarrow> bool" where
  "answers env nid [] c c' \<longleftrightarrow> c' = c"
| "answers env nid (s # ss) c c' \<longleftrightarrow> (\<exists>n c1.
     sdo_read_uint8 (tool_sdo env) (tool_fuel env) nid (OD_INDEX_OS_COMMAND env) (OD_SUBINDEX_OS_COMMAND_STATUS env) [OS_COMMAND_STATUS_EXECUTING env] c
       = Ret (0, [s], n, c1) \<and> answers env nid ss c1 c')"

lemma wait_command_ends:
  "answers env nid (replicate k (OS_COMMAND_STATUS_EXECUTING env) @ [s]) c c' \<Longrightarrow> s \<noteq> OS_COMMAND_STATUS_EXECUTING env \<Longrightarrow> k + 1 < fuel \<Longrightarrow>
     wait_command env nid fuel (OS_COMMAND_STATUS_EXECUTING env) c = Ret (0, s, c')"
proof (induction k arbitrary: c fuel)
  case 0
  then obtain f where "fuel = Suc (Suc f)" by (cases fuel; cases "fuel - 1") auto
  then show ?case using 0 by auto
next
  case (Suc k)
  then obtain f where f: "fuel = Suc f" by (cases fuel) auto
  from Suc.prems(1) obtain n c1 where "sdo_read_uint8 (tool_sdo env) (tool_fuel env) nid (OD_INDEX_OS_COMMAND env) (OD_SUBINDEX_OS_COMMAND_STATUS env)
      [OS_COMMAND_STATUS_EXECUTING env] c = Ret (0, [OS_COMMAND_STATUS_EXECUTING env], n, c1)"
    "answers env nid (replicate k (OS_COMMAND_STATUS_EXECUTING env) @ [s]) c1 c'" by auto
  then show ?case using Suc.IH [of c1 f] Suc.prems(2,3) f by simp
qed

text \<open>A command that is taken, runs for some time and ends with a reply: the tool prints the reply up to its terminator.\<close>

lemma os_command_main_prints_reply:
  fixes env :: "'c tool_env"
  assumes args: "parse_int_arg (long_bits (tool_c env)) number 0 = (0, nid)" and node: "node_works (tool_node env) dev"
    and sent: "sdo_write_str (tool_sdo env) (tool_fuel env) (of_int nid) (OD_INDEX_OS_COMMAND env) (OD_SUBINDEX_OS_COMMAND_COMMAND env) cmd (tool_client env) = Ret (0, c1)"
    and polled: "answers env (of_int nid) (replicate k (OS_COMMAND_STATUS_EXECUTING env) @ [s]) c1 c2" "k + 1 < tool_fuel env"
      "s \<noteq> OS_COMMAND_STATUS_EXECUTING env" "s = OS_COMMAND_STATUS_NO_ERROR_REPLY env \<or> s = OS_COMMAND_STATUS_ERROR_REPLY env"
    and reply: "upload_opens (tool_sdo env) (of_int nid) (OD_INDEX_OS_COMMAND env) (OD_SUBINDEX_OS_COMMAND_REPLY env) True c2 c3"
      "uploads (tool_sdo env) (fetch (tool_sdo env)) 0 c3 bss c4" "\<And>n. realloc_ok (tool_mem env) n" "length bss \<le> tool_fuel env" "concat bss \<noteq> []"
  shows "os_command_main env [tool, dev, number, cmd] = Ret ((EXIT_SUCCESS, line (cstr (string_of_bytes (concat bss @ [0])))), c4)"
proof -
  obtain n where n: "sdo_client_node_start (tool_node env) dev fresh_node = Ret (0, n)" "\<And>rest. stop_and (tool_node env) n rest = rest"
    using node_works_start [OF node] by metis
  have "nul \<in> set (string_of_bytes (concat bss @ [0]))" by (simp add: string_of_bytes_def char_of_byte_0)
  then have "read_cstr (string_of_bytes (concat bss @ [0])) = Ret (cstr (string_of_bytes (concat bss @ [0])))" by (simp add: read_cstr_def)
  moreover have "sdo_read_str (tool_sdo env) (tool_mem env) (tool_fuel env) (of_int nid) (OD_INDEX_OS_COMMAND env) (OD_SUBINDEX_OS_COMMAND_REPLY env) None True c2
      = Ret (0, Some (concat bss @ [0]), None, c4)"
    using read_dynamic_result [OF reply(1-4), of None None] reply(5) by (simp add: sdo_read_str_def stored_def)
  ultimately show ?thesis
    using args sent n wait_command_ends [OF polled(1,3,2)] polled(4) by (simp add: os_command_main_def Let_def)
qed

text \<open>
  A file is sent under its own name, or under the name given; what is not there is refused before the node is started.
\<close>

lemma fwrite_main_sends:
  fixes env :: "'c tool_env"
  assumes args: "parse_int_arg (long_bits (tool_c env)) number 0 = (0, nid)" and node: "node_works (tool_node env) dev"
    and name: "argv = [tool, dev, number, src] \<and> file = basename src \<and> path = cut_slashes src \<or> argv = [tool, dev, number, src, file] \<and> path = src"
  shows "fwrite_main env argv fs =
    (if \<not> is_file fs path then Ret ((EXIT_FAILURE, line (''file does not exist: '' @ path)), tool_client env)
     else bind_outcome (sdo_write_str (tool_sdo env) (tool_fuel env) (of_int nid) (OD_INDEX_FWRITE_CACHE env) (OD_SUBINDEX_FREAD_CACHE_FILE_NAME env) file (tool_client env))
       (\<lambda>(code, c1). if code \<noteq> 0 then bind_outcome (sdo_abort_line code) (\<lambda>t. Ret ((EXIT_FAILURE, t), c1))
          else bind_outcome (sdo_write_from_file (tool_sdo env) (tool_mem env) (tool_kern env) (tool_fuel env) (of_int nid) (OD_INDEX_FWRITE_CACHE env)
              (OD_SUBINDEX_FREAD_CACHE_FILE_DATA env) path fs c1) (\<lambda>(code, c2).
            if code \<noteq> 0 then bind_outcome (sdo_abort_line code) (\<lambda>t. Ret ((EXIT_FAILURE, t), c2)) else Ret ((EXIT_SUCCESS, []), c2))))"
proof -
  obtain n where n: "sdo_client_node_start (tool_node env) dev fresh_node = Ret (0, n)" "\<And>rest. stop_and (tool_node env) n rest = rest"
    using node_works_start [OF node] by metis
  have "tool_abort (tool_node env) n code = bind_outcome (sdo_abort_line code) (\<lambda>t. Ret (EXIT_FAILURE, t))" for code
    by (simp add: tool_abort_def n(2))
  note abort = this
  from name show ?thesis
    by (elim disjE conjE)
      (simp_all add: fwrite_main_def Let_def args n abort bind_outcome_assoc if_distrib [of "\<lambda>m. bind_outcome m _"] cong: if_cong)
qed

section \<open>Instances\<close>

definition ex_node_env :: node_env where
  "ex_node_env = \<lparr>if_nametoindex = (\<lambda>_. 1), OD_find_env = (\<lambda>_ _. None), OD_env = ex_od [], unset_config = ex_config, CO_new_ok = (\<lambda>_. True), heapMemoryUsed = 0,
     SIGINT_ok = True, SIGTERM_ok = True, epoll_create_err = 0, CANinit_err = 0, SDOclient_init_err = 0, pthread_create_ok = True,
     pthread_join_ok = True, dbg_text = (\<lambda>_. [])\<rparr>"

definition ex_tool_env :: "byte list list \<Rightarrow> replay tool_env" where
  "ex_tool_env bss = \<lparr>tool_c = \<lparr>long_bits = 64, malloc_ok = (\<lambda>_. True), strtof_c = (\<lambda>s. (0, 0))\<rparr>, tool_node = ex_node_env, tool_sdo = replay_stack 20,
     tool_mem = replay_memory, tool_kern = \<lparr>sendfile_k = (\<lambda>off n. Inr n), dir_size_k = 0\<rparr>, tool_fuel = 9, tool_client = replay_of bss,
     OD_INDEX_FREAD_CACHE = 0x3002, OD_INDEX_FWRITE_CACHE = 0x3003, OD_INDEX_OS_COMMAND = 0x1023, OD_SUBINDEX_FREAD_CACHE_FILES_JSON = 2,
     OD_SUBINDEX_FREAD_CACHE_FILE_NAME = 3, OD_SUBINDEX_FREAD_CACHE_FILE_DATA = 4, OD_SUBINDEX_OS_COMMAND_COMMAND = 1,
     OD_SUBINDEX_OS_COMMAND_STATUS = 2, OD_SUBINDEX_OS_COMMAND_REPLY = 3, OS_COMMAND_STATUS_EXECUTING = 0xFF,
     OS_COMMAND_STATUS_NO_ERROR_REPLY = 1, OS_COMMAND_STATUS_ERROR_REPLY = 3\<rparr>"

lemma ex_node_works: "node_works ex_node_env dev"
proof -
  have "\<exists>cfg. fill_config (\<lambda>_ _. None) (Some (ex_od [])) (Some ex_config) = Ret (0, Some cfg)"
    by (simp add: fill_config_def Let_def element_length_def count_entries_below_def)
  then show ?thesis
    by (auto simp: node_works_def sdo_client_node_start_def ex_node_env_def Let_def)
qed

lemma ex_tool_simps [simp]:
  "tool_c (ex_tool_env bss) = \<lparr>long_bits = 64, malloc_ok = (\<lambda>_. True), strtof_c = (\<lambda>s. (0, 0))\<rparr>" "tool_node (ex_tool_env bss) = ex_node_env"
  "tool_sdo (ex_tool_env bss) = replay_stack 20" "tool_mem (ex_tool_env bss) = replay_memory" "tool_fuel (ex_tool_env bss) = 9"
  "tool_client (ex_tool_env bss) = replay_of bss" "OD_INDEX_FREAD_CACHE (ex_tool_env bss) = 0x3002" "OD_SUBINDEX_FREAD_CACHE_FILES_JSON (ex_tool_env bss) = 2"
  "OD_SUBINDEX_FREAD_CACHE_FILE_NAME (ex_tool_env bss) = 3" "OD_SUBINDEX_FREAD_CACHE_FILE_DATA (ex_tool_env bss) = 4"
  by (simp_all add: ex_tool_env_def)

lemma ex_numbers: "parse_int_arg 64 ''5'' 0 = (0, 5)" "parse_int_arg 64 ''0x20'' 0 = (0, 32)"
proof -
  have "unsigned_text ''5'' 5" "unsigned_text ''0x20'' 32" by code_simp+
  from this [THEN parse_int_arg_text, of 64 0] show "parse_int_arg 64 ''5'' 0 = (0, 5)" "parse_int_arg 64 ''0x20'' 0 = (0, 32)" by simp_all
qed

theorem fcache_list_main_prints_names_witness:
  "fcache_list_main (ex_tool_env [bytes_of_string (json_array [''a'', ''b''] @ [nul])]) [''l'', ''can0'', ''5'', ''fread'']
     = Ret ((EXIT_SUCCESS, line ''a'' @ line ''b''), (replay_of [])\<lparr>fetched := 11\<rparr>)"
proof -
  let ?fs = "[([], Dir), ([''c''], Dir), ([''c'', ''a''], File [1]), ([''c'', ''b''], File [2])] :: fsys"
  let ?c = "\<lparr>dir_path = ''/c'', mutex_locked = False\<rparr> :: fcache"
  have r: "resolve ''/c'' = [''c'']" by (simp add: resolve_def path_push_def)
  then have ok: "cache_ok ?fs ?c"
    by (auto simp: cache_ok_def wf_fs_def plain_name_def nul_def is_dir_def fs_node_def PATH_MAX_def entry_path_def)
  have ch: "[''a'', ''b''] = children ?fs (resolve (dir_path ?c))" by (simp add: r children_def)
  have l: "length (json_array [''a'', ''b'']) = 10" by (simp add: json_quote_def)
  then have lim: "length (json_array [''a'', ''b'']) < 8190" "length (json_array [''a'', ''b'']) \<notin> {256, 512, 1024, 2048, 4096}" by simp_all
  have nc: "list_all no_comma [''a'', ''b'']" by (simp add: no_comma_def)
  define d where "d = bytes_of_string (json_array [''a'', ''b''] @ [nul])"
  define env where "env = ex_tool_env [d]"
  have len: "length d = 11" using l by (simp add: d_def)
  have arg: "parse_int_arg (long_bits (tool_c env)) ''5'' 0 = (0, 5)" by (simp add: env_def ex_numbers)
  have which: "''fread'' = ''fread'' \<and> 0x3002 = OD_INDEX_FREAD_CACHE env \<or> ''fread'' = ''fwrite'' \<and> 0x3002 = OD_INDEX_FWRITE_CACHE env"
    by (simp add: env_def)
  have node: "node_works (tool_node env) ''can0''" "\<And>n. realloc_ok (tool_mem env) n" by (simp_all add: env_def ex_node_works)
  have opens: "upload_opens (tool_sdo env) (of_int 5) 0x3002 (OD_SUBINDEX_FREAD_CACHE_FILES_JSON env) False (tool_client env) (replay_of [d])"
    by (simp add: env_def replay_simps)
  have up: "uploads (tool_sdo env) (fetch (tool_sdo env)) 0 (replay_of [d]) [d] ((replay_of [])\<lparr>fetched := 11\<rparr>)" "length [d] \<le> tool_fuel env"
    using len by (simp_all add: env_def replay_simps)
  obtain buf listing where b: "fcache_list_files_as_json (\<lambda>_. True) CHR ''x'' ?fs (Some ?c) = Ret (Some buf, Some ?c)" "read_cstr buf = Ret listing"
    "concat [d] = bytes_of_string (listing @ [nul]) \<longrightarrow> fcache_list_main env [''l'', ''can0'', ''5'', ''fread''] =
       Ret ((EXIT_SUCCESS, concat (map line [''a'', ''b''])), (replay_of [])\<lparr>fetched := 11\<rparr>)"
    using fcache_list_main_prints_names [OF ok ch nc lim refl arg which node opens up, of "CHR ''x''" "''l''"] by blast
  moreover have "listing = json_array [''a'', ''b'']"
    using fcache_list_files_as_json_correct [OF ok refl ch lim, of "CHR ''x''"] b(1,2) by auto
  ultimately show ?thesis by (simp add: d_def env_def)
qed


text \<open>A stack that sends a value at once and keeps the portions of the object to be read.\<close>

definition ex_server :: "replay sdo_stack" where
  "ex_server = (replay_stack 20)\<lparr>co_download_initiate := (\<lambda>_ _ _ _ _ c. (0, c\<lparr>queue := []\<rparr>)),
     co_download := (\<lambda>_ _ c. (\<lparr>dnl_ret = 0, dnl_abort = 0\<rparr>, c\<lparr>sent := sent c @ queue c, queue := []\<rparr>))\<rparr>"

lemma ex_server_simps:
  "co_setup ex_server a b n c = (0, c)" "co_download_initiate ex_server i j m t bl c = (0, c\<lparr>queue := []\<rparr>)"
  "co_space ex_server c = 20 - length (queue c)" "co_put ex_server bs c = c\<lparr>queue := queue c @ bs\<rparr>"
  "co_download ex_server d partial c = (\<lparr>dnl_ret = 0, dnl_abort = 0\<rparr>, c\<lparr>sent := sent c @ queue c, queue := []\<rparr>)"
  "co_upload_initiate ex_server i j t bl c = (0, c\<lparr>queue := [], fetched := 0\<rparr>)" "co_upload ex_server d = replay_upload"
  "co_take ex_server = replay_take" "co_bufSize ex_server c = 20"
  by (simp_all add: ex_server_def replay_stack_def)

lemma ex_server_write:
  "sdo_write_str ex_server (Suc fuel) nid index subindex ''/f'' (replay_of bss) = Ret (0, (replay_of bss)\<lparr>sent := bytes_of_string ''/f'' @ [0]\<rparr>)"
  by (simp add: sdo_write_str_def sdo_write_def ex_server_simps buf_write_def numeral_3_eq_3)

lemma ex_server_read:
  "uploads ex_server (\<lambda>_ c. co_take ex_server (co_bufSize ex_server c) c) 0 ((replay_of [[1, 2], [3]])\<lparr>sent := s\<rparr>) [[1, 2], [3]]
     ((replay_of [])\<lparr>sent := s, fetched := 3\<rparr>)"
  by (simp add: ex_server_simps replay_upload_def replay_take_def)

theorem fread_main_fetches_or_empties_witness:
  "\<exists>fs'. fread_main ((ex_tool_env [[1, 2], [3]])\<lparr>tool_sdo := ex_server\<rparr>) [''f'', ''can0'', ''5'', ''/f''] [([], Dir), ([''f''], File [9])]
       = Ret ((EXIT_SUCCESS, []), fs', (replay_of [])\<lparr>sent := bytes_of_string ''/f'' @ [0], fetched := 3\<rparr>)
     \<and> map_of fs' = (map_of [([], Dir), ([''f''], File [9])])([''f''] \<mapsto> File [1, 2, 3])"
proof -
  define env where "env = (ex_tool_env [[1, 2], [3]])\<lparr>tool_sdo := ex_server\<rparr>"
  let ?c = "(replay_of [[1, 2], [3]])\<lparr>sent := bytes_of_string ''/f'' @ [0]\<rparr>" and ?fs = "[([], Dir), ([''f''], File [9])] :: fsys"
  have p: "resolve ''/f'' = [''f'']" by (simp add: resolve_def path_push_def)
  have e: "tool_sdo env = ex_server" "tool_node env = ex_node_env" "tool_fuel env = Suc 8" "tool_client env = replay_of [[1, 2], [3]]"
    "long_bits (tool_c env) = 64" by (simp_all add: env_def)
  have a: "parse_int_arg (long_bits (tool_c env)) ''5'' 0 = (0, 5)" using ex_numbers(1) by (simp add: e)
  have n: "node_works (tool_node env) ''can0''" by (simp add: e ex_node_works)
  have w: "sdo_write_str (tool_sdo env) (tool_fuel env) (of_int 5) (OD_INDEX_FREAD_CACHE env) (OD_SUBINDEX_FREAD_CACHE_FILE_NAME env) ''/f'' (tool_client env) = Ret (0, ?c)"
    unfolding e by (rule ex_server_write)
  have o: "upload_opens (tool_sdo env) (of_int 5) (OD_INDEX_FREAD_CACHE env) (OD_SUBINDEX_FREAD_CACHE_FILE_DATA env) True ?c ?c"
    by (simp add: e ex_server_simps upload_opens_def sdo_upload_start_def)
  have f: "fs_create ?fs ''/f'' = Inr (AList.update [''f''] (File []) ?fs)" "0 < tool_fuel env" by (simp_all add: fs_create_def p e)
  have u: "uploads (tool_sdo env) (\<lambda>_ c. co_take (tool_sdo env) (co_bufSize (tool_sdo env) c) c) 0 ?c [[1, 2], [3]]
      ((replay_of [])\<lparr>sent := bytes_of_string ''/f'' @ [0], fetched := 3\<rparr>)" "length [[1, 2], [3 :: byte]] \<le> tool_fuel env"
    "list_all (\<lambda>bs. length bs \<le> co_bufSize (tool_sdo env) ?c) [[1, 2], [3]]"
    unfolding e by (rule ex_server_read) (simp_all add: ex_server_simps)
  show ?thesis
    using fread_main_fetches_or_empties [OF a n w o f, of "[[1, 2], [3]]" "(replay_of [])\<lparr>sent := bytes_of_string ''/f'' @ [0], fetched := 3\<rparr>" "''f''",
        THEN conjunct1] u
    by (simp add: env_def p)
qed

end
