(* ===== verification/Spec2Isabelle.thy ===== *)
theory Spec2Isabelle
  imports Os_Command File_Transfer Ecss_Time System_Ext Daemon_Start Cand_Tools
begin

text \<open>
  Verification of the OreSat CANopen daemon, \<^verbatim>\<open>oresat-cand\<close>.

  \<^bold>\<open>The program.\<close> The daemon puts a CANopen node on a satellite card. The CANopen stack (a git
  submodule, not part of the sources) serves the object dictionary; the daemon hooks read and write
  handlers into it, the \<^emph>\<open>extensions\<close> under \<^verbatim>\<open>src/src/od_extensions\<close>: a shell on the card, file transfer into and
  out of two file caches, the clock as ECSS time codes, and the state of the machine. The
  extensions rest on the helpers under \<^verbatim>\<open>src/src/common\<close>: files and directories, the file cache, the conversion of
  text to the bytes of a value. Applications on the card talk to the daemon through ZeroMQ
  (\<^verbatim>\<open>src/src/ipc\<close>); \<^verbatim>\<open>main.c\<close> starts everything and runs the stack. Command line tools under \<^verbatim>\<open>src/scripts\<close> are nodes of their own that
  talk to the daemon over the bus.

  \<^bold>\<open>The theories.\<close>
  \<^item> \<open>Cand_Base\<close>: the prelude. A C function is a HOL function into \<open>outcome\<close>: \<open>Ret\<close> of its results, or a \<open>Fault\<close>
    (access outside an object, null pointer, signed overflow, deadlock and so on). Arrays are lists read with \<open>peek\<close>
    and written with \<open>poke\<close>, which fault outside their bounds; C strings, little endian numbers.
  \<^item> \<open>Str2buf\<close>: \<^verbatim>\<open>common/str2buf.c\<close>. Parsing of the defaults of objects and of command line values into the bytes of a
    value: \<^verbatim>\<open>strtoul\<close> and \<^verbatim>\<open>strtol\<close> with their range, the range checks, bool, hex bytes, both dispatchers.
  \<^item> \<open>Filesystem\<close>: the files and directories the sources work on, as a table from resolved paths to nodes, with the
    system calls on it and a well-formedness invariant each of them keeps.
  \<^item> \<open>Cand_System\<close>: \<^verbatim>\<open>common/system.c\<close>. Sleeping and clocks, the shell runner, paths, copying, moving, directories.
  \<^item> \<open>Fcache\<close>: \<^verbatim>\<open>common/fcache.c\<close>. The cache with its mutex and every operation, the JSON listing character by character.
    The locale \<open>file_store\<close> is the contract of a store of named files; its interpretation \<open>cache\<close> shows that the cache
    implements a finite map.
  \<^item> \<open>Od_Ext\<close>: \<^verbatim>\<open>od_extensions/od_ext.c\<close>. The four helpers that move a value in segments, from and to a buffer or a file.
    The locales \<open>segmented_source\<close> and \<open>segmented_sink\<close> are the contracts of the two directions; the interpretations
    \<open>data_source\<close>, \<open>data_sink\<close>, \<open>file_source\<close> and \<open>file_sink\<close> discharge them for the helpers.
  \<^item> \<open>Os_Command\<close>: \<^verbatim>\<open>od_extensions/os_command_ext.c\<close>. Handlers, loop body of the thread, and the step relation \<open>os_step\<close> that
    interleaves the thread with calls from the bus. The interpretations \<open>os_sink\<close> and \<open>os_source\<close> lift the contracts
    of the helpers to the command and reply objects.
  \<^item> \<open>File_Transfer\<close>: \<^verbatim>\<open>od_extensions/file_transfer_ext.c\<close>. Handlers of the two file objects; the interpretations \<open>ft_sink\<close> and
    \<open>ft_source\<close> lift the contracts to whole files in the cache.
  \<^item> \<open>Ecss_Time\<close>: \<^verbatim>\<open>common/ecss_time.c\<close> and \<^verbatim>\<open>od_extensions/ecss_time_ext.c\<close>.
  \<^item> \<open>System_Ext\<close>: \<^verbatim>\<open>od_extensions/system_ext.c\<close>.
  \<^item> \<open>Ipc_Msg\<close>: \<^verbatim>\<open>ipc/ipc_msg.h\<close> and \<^verbatim>\<open>ipc/ipc_broadcast.c\<close>. The packed messages and the publisher.
  \<^item> \<open>Ipc_Consume\<close> and \<open>Ipc_Respond\<close>: \<^verbatim>\<open>ipc/ipc_consume.c\<close> and \<^verbatim>\<open>ipc/ipc_respond.c\<close>. Dispatch and handlers over the receive
    buffers; calls into the CANopen stack are events, the SDO transfers a parameter.
  \<^item> \<open>Sdo_Client\<close>: \<^verbatim>\<open>canopenlinux/sdo_client.c\<close> and \<^verbatim>\<open>.h\<close>. The five transfers with other nodes over the client of the stack, the
    texts of abort codes, the accessors for each type.
  \<^item> \<open>Load_Configs\<close> and \<open>Od_Table\<close>: \<^verbatim>\<open>load_configs.c\<close>. The first holds the definitions: the file of settings, the lines of the table,
    the dictionary with its entries, blocks of memory and pointers, loading, merging, freeing. The second holds the
    specification \<open>od_merge\<close> of the merge with the built-in dictionary and the lemmas up to the refinement.
  \<^item> \<open>Node_Config\<close>: \<^verbatim>\<open>canopenlinux/config.c\<close>, \<^verbatim>\<open>fix_cob_ids\<close> of \<^verbatim>\<open>main.c\<close>, \<^verbatim>\<open>ipc/ipc.c\<close>. What the stack is told of the dictionary, the
    identifiers of the PDOs, start and stop of the IPC. The locale \<open>cell_walk\<close> is the contract of a pass over the
    entries of a dictionary; its interpretations are \<open>fixing\<close> and \<open>hooking\<close>.
  \<^item> \<open>Logger\<close>: \<^verbatim>\<open>common/logger.c\<close> and \<^verbatim>\<open>canopenlinux/log_prinf.c\<close>.
  \<^item> \<open>Extensions\<close>: registration of the four extensions with the dictionary, the records and the thread they own, their
    release. \<open>handler_map\<close> is the abstract view of a dictionary, from index to handlers.
  \<^item> \<open>Daemon\<close> and \<open>Daemon_Start\<close>: \<^verbatim>\<open>main.c\<close>. Settings and options, the wait for the interface, dictionary and caches, the callbacks, the main
    loop with its threads, the end of the daemon, the loops of the threads; in the second, the stack with its signals, and
    caches, extensions and connections in their order.
  \<^item> \<open>Cand_Tools\<close>: \<^verbatim>\<open>src/scripts\<close>. The node of the tools, its thread as the step relation \<open>node_step\<close>, and the six programs from their
    arguments to exit code, output and files, with the conversions of \<^verbatim>\<open>printf\<close> and the cutting of \<^verbatim>\<open>strtok\<close>.
  \<^item> This theory: properties across components.

  \<^bold>\<open>What is shown.\<close> In \<open>Str2buf\<close>, round trips of values through text; in \<open>Cand_System\<close>, the effect of the file operations; in
  \<open>Fcache\<close>, that the cache is a map and its listing the JSON array of its names; in \<open>Od_Ext\<close>, that transfers in
  segments deliver every value and file whole, whatever the segments, and stay inside the buffers; in \<open>Os_Command\<close>,
  safety of the shell under every interleaving and the path of a command to its reply; in \<open>File_Transfer\<close> and here, the
  path of a file over the bus into the cache and back; in \<open>Ecss_Time\<close> and \<open>System_Ext\<close>, the time codes and the machine
  state; in the IPC theories, that messages arrive as sent and that requests are answered inside the
  buffers; in \<open>Sdo_Client\<close>, that transfers end and deliver the bytes of the other node; in \<open>Od_Table\<close>, that loading a table
  gives the merge of the specification, sorted as the search of the stack needs it; in \<open>Node_Config\<close>, that identifiers
  are fixed once and the stack is told the right numbers of PDOs; in \<open>Daemon\<close>, that the main loop ends, that a clean exit
  has joined every thread, how often the state of the bus is published, and the path of a configuration
  message through the consumer thread and the next start to the loaded dictionary; in \<open>Daemon_Start\<close>, which handlers each
  object has after the start; in \<open>Cand_Tools\<close>, that names and numbers come back from the bus as they went in, what fetching a
  file does, and when stopping the node ends its thread. Several properties state
  where the code departs from its purpose: a lost lock, memory read before it is written, threads
  joined that were never created, a second start that turns a node into the network manager, a size
  taken for a number of elements, an overrun of a caller's buffer, a request to stop that is overwritten, a
  local file emptied by a refused transfer.

  \<^bold>\<open>Parameters.\<close> The width of \<^verbatim>\<open>OD_size_t\<close> is a type parameter; subindices and status codes, which the build generates, the
  functions of the CANopen stack (for the SDO client the record \<open>sdo_stack\<close>, for the dictionary the search
  \<^verbatim>\<open>OD_find\<close> and the access to 32 bit values), the shell, the kernel's \<^verbatim>\<open>sendfile\<close>, memory allocation, and what fresh
  memory holds are arguments. Hypotheses on them are named: \<open>full_sendfile\<close>, \<open>progress_sendfile\<close>, \<open>os_env_ok\<close>, \<open>ft_subs_ok\<close>,
  \<open>u32_access_ok\<close>, \<open>search_ok\<close>, \<open>timeouts\<close> and their like; every property that uses one has a witness with a
  concrete instance. What the main loop and the threads meet from round to round (results of the stack,
  the clock, signals, received messages) is a list of rounds.

  \<^bold>\<open>Fuel.\<close> The copy loop carries one step more than the file has bytes, which is enough because a call of \<^verbatim>\<open>sendfile\<close> that
  succeeds advances (C30); the loop that grows the listing buffer carries eight rounds, and six double it
  past its limit. The transfer loops of the SDO client take their fuel as an argument and C14 shows that
  a stack that ends its transfers leaves enough of it. The main loop is a recursion over the list of its rounds, and
  returns nothing when the list is used up before the loop is left (C15). The loop of the listing tool has as much fuel as its
  text has characters, which is always enough (\<open>print_listing_ends\<close>); the tool that waits for a command takes its fuel as an
  argument, because the command decides how long it runs. All other loops are structural.

  \<^bold>\<open>Not modelled.\<close> The CANopen stack itself, a git submodule, and with it the way of a request from the SDO client of one node to
  the handlers of another; the generated dictionary; the unit tests and the Python client; printing of the help text;
  the inside of sockets; buffering of the C library and unlinked open files; weak memory.
\<close>

section \<open>A file over the bus and back\<close>

text \<open>A finished transfer leaves the environment of the next one.\<close>

lemma ft_env_after_store:
  assumes "ft_env cfg k fs c n" and "map_of fs' = (map_of fs)(entry_path c n \<mapsto> File d, [''tmp'', n] := None)"
  shows "ft_env cfg k fs' c n" and "map_of fs' (entry_path c n) = Some (File d)"
proof -
  have env: "resolve (dir_path c) \<noteq> [''tmp'', n]" "resolve (dir_path c) \<noteq> [''tmp'']" "map_of fs (entry_path c n) \<noteq> Some Dir"
    "map_of fs [''tmp''] = Some Dir"
    using assms(1) by (simp_all add: ft_env_def)
  have ne: "entry_path c n \<noteq> [''tmp'', n]" "entry_path c n \<noteq> resolve (dir_path c)" using env(2) by (auto simp: entry_path_def)
  moreover have "entry_path c n \<noteq> [''tmp'']" using env(3,4) by auto
  ultimately show "ft_env cfg k fs' c n" "map_of fs' (entry_path c n) = Some (File d)"
    using assms env by (auto simp: ft_env_def is_dir_def fs_node_dir)
qed



end
